(* ===== verification/Dawn_Prelude.thy ===== *)
theory Dawn_Prelude
  imports Main "HOL-Library.Word"
begin

unbundle bit_operations_syntax

text \<open>
  What every component of the development shares:
  \<^item> results of code that can stop abnormally (\<open>crash\<close>, \<open>result\<close>) and their sequencing;
  \<^item> the signed 32-bit arithmetic of \<^verbatim>\<open>int32_t\<close> (\<open>wrap32\<close>, \<open>in32\<close>);
  \<^item> byte memories with little-endian 32-bit reads and writes, \<^verbatim>\<open>memset\<close>, \<^verbatim>\<open>memcpy\<close> and
    \<^verbatim>\<open>memmove\<close>, and the laws of reading through writes (collection \<open>mem_simps\<close>);
  \<^item> the constants of \<^verbatim>\<open>src/src/include/util/config.h\<close>.
\<close>

named_theorems mem_simps \<open>reading a byte memory through its writes\<close>
named_theorems config_defs \<open>the constants of config.h\<close>


section \<open>Results\<close>

text \<open>
  The ways in which the code can fail to return: a null pointer is dereferenced, an
  \<^verbatim>\<open>assert\<close> fails, the process exits, the language leaves the behaviour undefined, the
  caller waits for ever (a lock it can never get, a condition nobody will establish), or a
  loop does not end within the bound the model gives it.
\<close>

datatype crash =
    NullDeref
  | AssertFail
  | ExitProcess
  | UndefBehaviour
  | Blocked
  | OutOfFuel

type_synonym 'a result = "crash + 'a"

definition bindR :: "'a result \<Rightarrow> ('a \<Rightarrow> 'b result) \<Rightarrow> 'b result" where
  "bindR r f = (case r of Inl e \<Rightarrow> Inl e | Inr a \<Rightarrow> f a)"

lemma bindR_simps [simp]:
  "bindR (Inl e) f = Inl e"
  "bindR (Inr a) f = f a"
  by (simp_all add: bindR_def)

lemma bindR_eq_Inr: "bindR r f = Inr b \<longleftrightarrow> (\<exists>a. r = Inr a \<and> f a = Inr b)"
  by (cases r) auto

lemma bindR_eq_Inl: "bindR r f = Inl e \<longleftrightarrow> r = Inl e \<or> (\<exists>a. r = Inr a \<and> f a = Inl e)"
  by (cases r) auto

lemma bindR_split: "P (bindR r f) \<longleftrightarrow> (\<forall>e. r = Inl e \<longrightarrow> P (Inl e)) \<and> (\<forall>a. r = Inr a \<longrightarrow> P (f a))"
  by (cases r) auto


section \<open>Signed 32-bit integers\<close>

definition wrap32 :: "int \<Rightarrow> int" where
  "wrap32 x = (x + 2147483648) mod 4294967296 - 2147483648"

definition in32 :: "int \<Rightarrow> bool" where
  "in32 x \<longleftrightarrow> - 2147483648 \<le> x \<and> x < 2147483648"

lemma wrap32_id [simp]: "in32 x \<Longrightarrow> wrap32 x = x"
  by (simp add: wrap32_def in32_def)

lemma in32_wrap32 [simp]: "in32 (wrap32 x)"
  using pos_mod_bound [of 4294967296 "x + 2147483648"]
    pos_mod_sign [of 4294967296 "x + 2147483648"]
  by (simp add: in32_def wrap32_def)

lemma wrap32_signed_take_bit: "wrap32 x = signed_take_bit 31 x"
  by (simp add: wrap32_def signed_take_bit_eq_take_bit_shift take_bit_eq_mod)

lemma in32_between: "0 \<le> x \<Longrightarrow> x < 2147483648 \<Longrightarrow> in32 x"
  by (simp add: in32_def)

lemma in32_neg1 [simp]: "in32 (- 1)"
  by (simp add: in32_def)


section \<open>Byte memories\<close>

type_synonym byte = "8 word"
type_synonym mem = "int \<Rightarrow> byte"

definition rd32 :: "mem \<Rightarrow> int \<Rightarrow> int" where
  "rd32 m a = wrap32 (uint (m a) + 256 * uint (m (a + 1)) + 65536 * uint (m (a + 2))
                      + 16777216 * uint (m (a + 3)))"

definition wr32 :: "mem \<Rightarrow> int \<Rightarrow> int \<Rightarrow> mem" where
  "wr32 m a v = m(a := word_of_int v, a + 1 := word_of_int (v div 256),
                  a + 2 := word_of_int (v div 65536), a + 3 := word_of_int (v div 16777216))"

definition memset :: "mem \<Rightarrow> int \<Rightarrow> byte \<Rightarrow> int \<Rightarrow> mem" where
  "memset m a c n = (\<lambda>i. if a \<le> i \<and> i < a + n then c else m i)"

text \<open>\<open>memcpy d a s b n\<close> copies \<open>n\<close> bytes from address \<open>b\<close> of \<open>s\<close> to address \<open>a\<close> of \<open>d\<close>;
  with \<open>s = d\<close> it is \<^verbatim>\<open>memmove\<close>, because the source is read before it is overwritten.\<close>

definition memcpy :: "mem \<Rightarrow> int \<Rightarrow> mem \<Rightarrow> int \<Rightarrow> int \<Rightarrow> mem" where
  "memcpy d a s b n = (\<lambda>i. if a \<le> i \<and> i < a + n then s (i - a + b) else d i)"

definition put_bytes :: "mem \<Rightarrow> int \<Rightarrow> byte list \<Rightarrow> mem" where
  "put_bytes m a bs = (\<lambda>i. if a \<le> i \<and> i < a + int (length bs) then bs ! nat (i - a) else m i)"

definition get_bytes :: "mem \<Rightarrow> int \<Rightarrow> int \<Rightarrow> byte list" where
  "get_bytes m a n = map (\<lambda>k. m (a + int k)) [0..<nat n]"

lemma bytes_of_int:
  fixes v :: int
  shows "v mod 256 + 256 * (v div 256 mod 256) + 65536 * (v div 65536 mod 256)
         + 16777216 * (v div 16777216 mod 256) = v mod 4294967296"
proof -
  have d1: "v div (256 * 256) = v div 256 div 256"
    by (rule zdiv_zmult2_eq) simp
  have d2: "v div (256 * 256 * 256) = v div (256 * 256) div 256"
    by (rule zdiv_zmult2_eq) simp
  have e1: "v mod (256 * 16777216) = 256 * (v div 256 mod (256 * 65536)) + v mod 256"
    by (subst zmod_zmult2_eq) simp_all
  have e2: "v div 256 mod (256 * 65536) = 256 * (v div 256 div 256 mod (256 * 256)) + v div 256 mod 256"
    by (subst zmod_zmult2_eq) simp_all
  have e3: "v div 256 div 256 mod (256 * 256) = 256 * (v div 256 div 256 div 256 mod 256) + v div 256 div 256 mod 256"
    by (rule zmod_zmult2_eq) simp
  have n: "65536 = (256 * 256 :: int)" "16777216 = (256 * 256 * 256 :: int)" "4294967296 = (256 * 16777216 :: int)"
    by simp_all
  show ?thesis
    unfolding n(3) e1 e2 e3 unfolding n(1,2) d2 d1 by (simp only: distrib_left mult.assoc add.assoc add.commute add.left_commute)
qed

lemma wrap32_mod [simp]: "wrap32 (v mod 4294967296) = wrap32 v"
  by (simp add: wrap32_def mod_add_left_eq)

lemma rd32_wr32_same [simp, mem_simps]: "rd32 (wr32 m a v) a = wrap32 v"
proof -
  have "rd32 (wr32 m a v) a = wrap32 (v mod 256 + 256 * (v div 256 mod 256)
      + 65536 * (v div 65536 mod 256) + 16777216 * (v div 16777216 mod 256))"
    by (simp add: rd32_def wr32_def uint_word_of_int)
  then show ?thesis by (simp only: bytes_of_int wrap32_mod)
qed

lemma wr32_other [mem_simps]: "i < a \<or> a + 4 \<le> i \<Longrightarrow> wr32 m a v i = m i"
  by (auto simp: wr32_def)

lemma rd32_cong: "(\<And>i. a \<le> i \<Longrightarrow> i < a + 4 \<Longrightarrow> m i = m' i) \<Longrightarrow> rd32 m a = rd32 m' a"
  by (simp add: rd32_def)

lemma rd32_wr32_other [mem_simps]: "b + 4 \<le> a \<or> a + 4 \<le> b \<Longrightarrow> rd32 (wr32 m a v) b = rd32 m b"
  by (rule rd32_cong) (auto simp: wr32_other)

lemma in32_rd32 [simp]: "in32 (rd32 m a)"
  by (simp add: rd32_def)

lemma rd32_zero: "(\<And>i. a \<le> i \<Longrightarrow> i < a + 4 \<Longrightarrow> m i = 0) \<Longrightarrow> rd32 m a = 0"
  by (simp add: rd32_def wrap32_def)

lemma memset_apply [mem_simps]:
  "a \<le> i \<Longrightarrow> i < a + n \<Longrightarrow> memset m a c n i = c"
  "i < a \<or> a + n \<le> i \<Longrightarrow> memset m a c n i = m i"
  by (auto simp: memset_def)

lemma rd32_memset_other [mem_simps]:
  "b + 4 \<le> a \<or> a + n \<le> b \<Longrightarrow> rd32 (memset m a c n) b = rd32 m b"
  by (rule rd32_cong) (auto simp: memset_def)

lemma rd32_memset_zero [mem_simps]:
  "a \<le> b \<Longrightarrow> b + 4 \<le> a + n \<Longrightarrow> rd32 (memset m a 0 n) b = 0"
  by (rule rd32_zero) (auto simp: memset_def)

lemma memcpy_apply [mem_simps]:
  "a \<le> i \<Longrightarrow> i < a + n \<Longrightarrow> memcpy d a s b n i = s (i - a + b)"
  "i < a \<or> a + n \<le> i \<Longrightarrow> memcpy d a s b n i = d i"
  by (auto simp: memcpy_def)

lemma rd32_memcpy_other [mem_simps]:
  "c + 4 \<le> a \<or> a + n \<le> c \<Longrightarrow> rd32 (memcpy d a s b n) c = rd32 d c"
  by (rule rd32_cong) (auto simp: memcpy_def)

lemma put_bytes_other [mem_simps]:
  "i < a \<or> a + int (length bs) \<le> i \<Longrightarrow> put_bytes m a bs i = m i"
  by (auto simp: put_bytes_def)

lemma rd32_put_bytes_other [mem_simps]:
  "c + 4 \<le> a \<or> a + int (length bs) \<le> c \<Longrightarrow> rd32 (put_bytes m a bs) c = rd32 m c"
  by (rule rd32_cong) (auto simp: put_bytes_def)

lemma length_get_bytes [simp]: "length (get_bytes m a n) = nat n"
  by (simp add: get_bytes_def)

lemma get_bytes_cong:
  "(\<And>i. a \<le> i \<Longrightarrow> i < a + n \<Longrightarrow> m i = m' i) \<Longrightarrow> get_bytes m a n = get_bytes m' a n"
  by (auto simp: get_bytes_def)

lemma get_put_bytes [simp, mem_simps]:
  "n = int (length bs) \<Longrightarrow> get_bytes (put_bytes m a bs) a n = bs"
  by (rule nth_equalityI) (auto simp: get_bytes_def put_bytes_def)

lemma get_bytes_put_other [mem_simps]:
  "b + n \<le> a \<or> a + int (length bs) \<le> b \<Longrightarrow> get_bytes (put_bytes m a bs) b n = get_bytes m b n"
  by (rule get_bytes_cong) (auto simp: put_bytes_def)

lemma get_bytes_wr32_other [mem_simps]:
  "b + n \<le> a \<or> a + 4 \<le> b \<Longrightarrow> get_bytes (wr32 m a v) b n = get_bytes m b n"
  by (rule get_bytes_cong) (auto simp: wr32_other)

lemma get_bytes_memset_other [mem_simps]:
  "b + n \<le> a \<or> a + k \<le> b \<Longrightarrow> get_bytes (memset m a c k) b n = get_bytes m b n"
  by (rule get_bytes_cong) (auto simp: memset_def)

lemma get_bytes_memcpy_other [mem_simps]:
  "c + k \<le> a \<or> a + n \<le> c \<Longrightarrow> get_bytes (memcpy d a s b n) c k = get_bytes d c k"
  by (rule get_bytes_cong) (auto simp: memcpy_def)

lemma get_bytes_memcpy [mem_simps]:
  "a \<le> c \<Longrightarrow> c + k \<le> a + n \<Longrightarrow> get_bytes (memcpy d a s b n) c k = get_bytes s (c - a + b) k"
  by (auto simp: get_bytes_def memcpy_def algebra_simps)


section \<open>Lists and division\<close>

lemma find_map: "find P (map f xs) = map_option f (find (P \<circ> f) xs)"
  by (induction xs) simp_all

lemma upto_0_map: "0 \<le> n \<Longrightarrow> [0..n - 1] = map int [0..<nat n]"
  by (auto simp: list_eq_iff_nth_eq nth_upto)

lemma find_cong_set: "(\<And>x. x \<in> set xs \<Longrightarrow> P x = Q x) \<Longrightarrow> find P xs = find Q xs"
  by (induction xs) auto

lemma le_div_iff_mult:
  fixes a b c :: int
  assumes "0 < c"
  shows "a \<le> b div c \<longleftrightarrow> a * c \<le> b"
proof
  assume "a \<le> b div c"
  then have "a * c \<le> b div c * c" using assms by (intro mult_right_mono) simp_all
  also have "\<dots> \<le> b" using assms pos_mod_sign [OF assms, of b] by (simp add: minus_mod_eq_div_mult [symmetric])
  finally show "a * c \<le> b" .
next
  assume "a * c \<le> b"
  then show "a \<le> b div c" using assms zdiv_mono1 [of "a * c" b c] by simp
qed

lemma find_upt_Some:
  "find P [k..<n] = Some j \<longleftrightarrow> k \<le> j \<and> j < n \<and> P j \<and> (\<forall>i. k \<le> i \<and> i < j \<longrightarrow> \<not> P i)"
proof
  assume "find P [k..<n] = Some j"
  then obtain i where i: "i < n - k" "P (k + i)" "j = k + i" "\<forall>l<i. \<not> P (k + l)"
    by (auto simp: find_Some_iff nth_upt)
  have "\<not> P l" if "k \<le> l" "l < j" for l
    using i(3) i(4) [rule_format, of "l - k"] that by simp
  then show "k \<le> j \<and> j < n \<and> P j \<and> (\<forall>i. k \<le> i \<and> i < j \<longrightarrow> \<not> P i)" using i by simp
next
  assume "k \<le> j \<and> j < n \<and> P j \<and> (\<forall>i. k \<le> i \<and> i < j \<longrightarrow> \<not> P i)"
  then show "find P [k..<n] = Some j"
    unfolding find_Some_iff by (intro exI [of _ "j - k"]) (auto simp: nth_upt)
qed

lemma find_upt_None: "find P [k..<n] = None \<longleftrightarrow> (\<forall>j. k \<le> j \<and> j < n \<longrightarrow> \<not> P j)"
  by (auto simp: find_None_iff)


section \<open>Decimal digits\<close>

text \<open>A number in an output stream.\<close>

fun show_nat :: "nat \<Rightarrow> string" where
  "show_nat n = (if n < 10 then [char_of (48 + n)] else show_nat (n div 10) @ [char_of (48 + n mod 10)])"

declare show_nat.simps [simp del]


section \<open>config.h\<close>

definition PAGE_SIZE :: int where [config_defs]: "PAGE_SIZE = 4096"
definition READ_DB_PG_NUM :: int where [config_defs]: "READ_DB_PG_NUM = 10240"
definition READ_DB_BUF_SZ :: int where [config_defs]: "READ_DB_BUF_SZ = PAGE_SIZE * READ_DB_PG_NUM"

definition COM_PG_HEADER_SZ :: int where [config_defs]: "COM_PG_HEADER_SZ = 64"
definition INVALID_PAGE_ID :: int where [config_defs]: "INVALID_PAGE_ID = - 1"
definition INVALID_SLOT_NUM :: int where [config_defs]: "INVALID_SLOT_NUM = - 1"
definition STATUS_EXIST :: byte where [config_defs]: "STATUS_EXIST = 1"
definition STATUS_FREE :: byte where [config_defs]: "STATUS_FREE = 2"
definition STATUS_TMP :: byte where [config_defs]: "STATUS_TMP = 4"
definition STATUS_OFFSET :: int where [config_defs]: "STATUS_OFFSET = 0"
definition LSN_OFFSET :: int where [config_defs]: "LSN_OFFSET = 1"
definition PAGE_ID_OFFSET :: int where [config_defs]: "PAGE_ID_OFFSET = 5"
definition TABLE_PAGE_RESERVED :: int where [config_defs]: "TABLE_PAGE_RESERVED = 64"

definition FRAME_NOT_EXIST :: byte where [config_defs]: "FRAME_NOT_EXIST = 1"
definition FRAME_EXIST_TRUE :: byte where [config_defs]: "FRAME_EXIST_TRUE = 2"
definition FRAME_EXIST_FALSE :: byte where [config_defs]: "FRAME_EXIST_FALSE = 4"

definition OP_SUCCESS :: int where [config_defs]: "OP_SUCCESS = 0"
definition DUP_KEY :: int where [config_defs]: "DUP_KEY = - 1"
definition NEW_PG_FAIL :: int where [config_defs]: "NEW_PG_FAIL = - 2"
definition TUPLE_NOT_FOUND :: int where [config_defs]: "TUPLE_NOT_FOUND = - 3"
definition MARK_DELETE_FAIL :: int where [config_defs]: "MARK_DELETE_FAIL = - 4"

definition PTR_SIZE :: int where [config_defs]: "PTR_SIZE = 8"
definition ENUM_SIZE :: int where [config_defs]: "ENUM_SIZE = 4"
definition SIZE_T_SIZE :: int where [config_defs]: "SIZE_T_SIZE = 4"
definition OFFSET_T_SIZE :: int where [config_defs]: "OFFSET_T_SIZE = 4"
definition PGID_T_SIZE :: int where [config_defs]: "PGID_T_SIZE = 4"
definition DECIMAL_T_SIZE :: int where [config_defs]: "DECIMAL_T_SIZE = 8"
definition INTEGER_T_SIZE :: int where [config_defs]: "INTEGER_T_SIZE = 4"
definition BOOLEAN_T_SIZE :: int where [config_defs]: "BOOLEAN_T_SIZE = 1"

definition LK_HA_PG_SLOT_NUM :: int where [config_defs]:
  "LK_HA_PG_SLOT_NUM = (PAGE_SIZE - COM_PG_HEADER_SZ) div PGID_T_SIZE"
definition Lk_HA_TOTAL_SLOT_NUM :: int where [config_defs]:
  "Lk_HA_TOTAL_SLOT_NUM = LK_HA_PG_SLOT_NUM * LK_HA_PG_SLOT_NUM"
definition RECV_BUFFER_SIZE :: nat where [config_defs]: "RECV_BUFFER_SIZE = 32"

end
