(* ===== verification/File_Stream.thy ===== *)
theory File_Stream
  imports Dawn_Prelude
begin

text \<open>
  Files and the part of \<^verbatim>\<open>std::fstream\<close> the storage layer uses, with the file helpers of
  \<^verbatim>\<open>src/src/util/util.cpp\<close>.  A file is its bytes and its size; a file system maps names to files.  A stream
  is closed or open on a name and carries the sticky fail bit of \<^verbatim>\<open>std::ios\<close>: a seek to a negative
  position and a read past the end set it, and as nobody calls \<^verbatim>\<open>clear()\<close> every later operation on the
  stream fails.  A write behind the end of the file fills the gap with zeros.  All streams of the
  code are flushed after every write, so a write is modelled as reaching the file at once.
\<close>

record disk_file =
  f_bytes :: mem
  f_size :: int

type_synonym files = "string \<rightharpoonup> disk_file"

definition empty_file :: disk_file where
  "empty_file = \<lparr>f_bytes = (\<lambda>_. 0), f_size = 0\<rparr>"

record stream =
  st_open :: "string option"
  st_fail :: bool

definition closed_stream :: stream where
  "closed_stream = \<lparr>st_open = None, st_fail = False\<rparr>"

definition stream_close :: "stream \<Rightarrow> stream" where
  "stream_close io = io\<lparr>st_open := None\<rparr>"

definition file_write :: "disk_file \<Rightarrow> int \<Rightarrow> mem \<Rightarrow> int \<Rightarrow> disk_file" where
  "file_write f pos src n =
    \<lparr>f_bytes = (\<lambda>i. if pos \<le> i \<and> i < pos + n then src (i - pos)
                    else if 0 \<le> i \<and> i < f_size f then f_bytes f i else 0),
     f_size = max (f_size f) (pos + n)\<rparr>"

text \<open>\<^verbatim>\<open>seekg(pos); write(src, n)\<close> and \<^verbatim>\<open>seekp(pos); read(dst, n); gcount()\<close>.\<close>

definition stream_write :: "files \<Rightarrow> stream \<Rightarrow> int \<Rightarrow> mem \<Rightarrow> int \<Rightarrow> files \<times> stream" where
  "stream_write files io pos src n =
    (case st_open io of
       None \<Rightarrow> (files, io\<lparr>st_fail := True\<rparr>)
     | Some name \<Rightarrow>
         if st_fail io \<or> pos < 0 then (files, io\<lparr>st_fail := True\<rparr>)
         else (case files name of
                 None \<Rightarrow> (files, io)
               | Some f \<Rightarrow> (files(name \<mapsto> file_write f pos src n), io)))"

definition stream_read :: "files \<Rightarrow> stream \<Rightarrow> int \<Rightarrow> mem \<Rightarrow> int \<Rightarrow> int \<times> mem \<times> stream" where
  "stream_read files io pos dst n =
    (case st_open io of
       None \<Rightarrow> (0, dst, io\<lparr>st_fail := True\<rparr>)
     | Some name \<Rightarrow>
         if st_fail io \<or> pos < 0 then (0, dst, io\<lparr>st_fail := True\<rparr>)
         else (case files name of
                 None \<Rightarrow> (0, dst, io\<lparr>st_fail := True\<rparr>)
               | Some f \<Rightarrow>
                   let avail = max 0 (min n (f_size f - pos))
                   in (avail, memcpy dst 0 (f_bytes f) pos avail,
                       if avail < n then io\<lparr>st_fail := True\<rparr> else io)))"

text \<open>
  The helpers.  Whether the operating system lets a file be opened at all is the argument \<open>deny\<close>.
\<close>

definition check_inexistence :: "files \<Rightarrow> (string \<Rightarrow> bool) \<Rightarrow> string \<Rightarrow> bool" where
  "check_inexistence files deny name \<longleftrightarrow> deny name \<or> files name = None"

definition open_file :: "files \<Rightarrow> (string \<Rightarrow> bool) \<Rightarrow> string \<Rightarrow> bool \<Rightarrow> bool \<times> stream \<times> files" where
  "open_file files deny name trunc =
    (if deny name \<or> (\<not> trunc \<and> files name = None)
     then (False, \<lparr>st_open = None, st_fail = True\<rparr>, files)
     else (True, \<lparr>st_open = Some name, st_fail = False\<rparr>,
           if trunc then files(name \<mapsto> empty_file) else files))"

definition get_file_sz :: "files \<Rightarrow> stream \<Rightarrow> int" where
  "get_file_sz files io =
    (case st_open io of
       None \<Rightarrow> - 1
     | Some name \<Rightarrow> if st_fail io then - 1
                    else (case files name of None \<Rightarrow> - 1 | Some f \<Rightarrow> f_size f))"

definition remove_file :: "files \<Rightarrow> string \<Rightarrow> files" where
  "remove_file files name = files(name := None)"

text \<open>Strings as the bytes of a C string.\<close>

definition str_bytes :: "string \<Rightarrow> byte list" where
  "str_bytes s = map (\<lambda>c. word_of_nat (of_char c)) s"

definition bytes_str :: "byte list \<Rightarrow> string" where
  "bytes_str bs = map (\<lambda>b. char_of (unat b)) bs"

definition string2char :: "string \<Rightarrow> byte list" where
  "string2char s = str_bytes s @ [0]"

definition fill_char_array :: "string \<Rightarrow> mem \<Rightarrow> int \<Rightarrow> mem" where
  "fill_char_array s m a = (put_bytes m a (str_bytes s))(a + int (length s) := 0)"

text \<open>The string a zero-terminated array holds, read from address \<open>a\<close> and below \<open>limit\<close>.\<close>

definition read_cstring :: "mem \<Rightarrow> int \<Rightarrow> int \<Rightarrow> string result" where
  "read_cstring m a limit =
    (case find (\<lambda>k. m (a + int k) = 0) [0..<nat (limit - a)] of
       None \<Rightarrow> Inl UndefBehaviour
     | Some k \<Rightarrow> Inr (bytes_str (get_bytes m a (int k))))"


section \<open>Laws\<close>

lemma file_write_apply:
  "pos \<le> i \<Longrightarrow> i < pos + n \<Longrightarrow> f_bytes (file_write f pos src n) i = src (i - pos)"
  "i < pos \<or> pos + n \<le> i \<Longrightarrow> 0 \<le> i \<Longrightarrow> i < f_size f \<Longrightarrow> f_bytes (file_write f pos src n) i = f_bytes f i"
  "i < pos \<or> pos + n \<le> i \<Longrightarrow> f_size f \<le> i \<Longrightarrow> f_bytes (file_write f pos src n) i = 0"
  by (auto simp: file_write_def)

lemma f_size_file_write [simp]: "f_size (file_write f pos src n) = max (f_size f) (pos + n)"
  by (simp add: file_write_def)

lemma stream_write_ok:
  "st_open io = Some name \<Longrightarrow> \<not> st_fail io \<Longrightarrow> 0 \<le> pos \<Longrightarrow> files name = Some f \<Longrightarrow>
   stream_write files io pos src n = (files(name \<mapsto> file_write f pos src n), io)"
  by (simp add: stream_write_def)

lemma stream_read_ok:
  "st_open io = Some name \<Longrightarrow> \<not> st_fail io \<Longrightarrow> 0 \<le> pos \<Longrightarrow> 0 \<le> n \<Longrightarrow> files name = Some f \<Longrightarrow>
   pos + n \<le> f_size f \<Longrightarrow> stream_read files io pos dst n = (n, memcpy dst 0 (f_bytes f) pos n, io)"
  by (simp add: stream_read_def Let_def)

lemma stream_read_short:
  "st_open io = Some name \<Longrightarrow> \<not> st_fail io \<Longrightarrow> 0 \<le> pos \<Longrightarrow> files name = Some f \<Longrightarrow>
   0 < n \<Longrightarrow> f_size f < pos + n \<Longrightarrow>
   fst (stream_read files io pos dst n) < n \<and> snd (snd (stream_read files io pos dst n)) = io\<lparr>st_fail := True\<rparr>"
  by (auto simp: stream_read_def Let_def)

lemma stream_failed:
  "st_fail io \<Longrightarrow> stream_write files io pos src n = (files, io)"
  "st_fail io \<Longrightarrow> stream_read files io pos dst n = (0, dst, io)"
  by (cases io; auto simp: stream_write_def stream_read_def split: option.splits)+

lemma unat_char: "unat (word_of_nat (of_char c) :: byte) = (of_char c :: nat)"
  using char_of_eq_iff [of "of_char c :: nat" c] by (simp add: unsigned_of_nat)

lemma bytes_str_bytes [simp]: "bytes_str (str_bytes s) = s"
  by (simp add: bytes_str_def str_bytes_def comp_def unat_char)

lemma length_str_bytes [simp]: "length (str_bytes s) = length s"
  by (simp add: str_bytes_def)

lemma bytes_char_0: "char_of (0 :: nat) = CHR 0x00"
  by (simp add: char_of_def)

lemma str_bytes_no_zero: "CHR 0x00 \<notin> set s \<Longrightarrow> 0 \<notin> set (str_bytes s)"
proof
  assume s: "CHR 0x00 \<notin> set s" and "0 \<in> set (str_bytes s)"
  then obtain c where c: "c \<in> set s" "(word_of_nat (of_char c) :: byte) = 0"
    by (auto simp: str_bytes_def)
  have "(of_char c :: nat) = 0" using arg_cong [OF c(2), of unat] by (simp only: unat_char unat_0)
  then have "c = CHR 0x00" by (metis char_of_char bytes_char_0)
  then show False using s c(1) by simp
qed

lemma read_cstring_put:
  assumes "CHR 0x00 \<notin> set s" and "a + int (length s) < limit" and "m (a + int (length s)) = 0"
    and "get_bytes m a (int (length s)) = str_bytes s"
  shows "read_cstring m a limit = Inr s"
proof -
  have nz: "m (a + int k) \<noteq> 0" if "k < length s" for k
  proof -
    have "get_bytes m a (int (length s)) ! k = m (a + int k)" using that by (simp add: get_bytes_def)
    then have "m (a + int k) \<in> set (str_bytes s)" using assms(4) that by (metis length_str_bytes nth_mem)
    then show ?thesis using str_bytes_no_zero [OF assms(1)] by metis
  qed
  have "find (\<lambda>k. m (a + int k) = 0) [0..<nat (limit - a)] = Some (length s)"
    unfolding find_upt_Some using assms(2,3) nz by auto
  then show ?thesis using assms(4) by (simp add: read_cstring_def)
qed

end
