(* ===== verification/RW_Latch.thy ===== *)
theory RW_Latch
  imports Dawn_Prelude
begin

text \<open>
  The reader-writer latch of \<^verbatim>\<open>src/src/include/util/rwlatch.h\<close>, as the sequential code of the
  storage layer meets it: an operation that would wait on a condition variable is \<^const>\<open>Blocked\<close>,
  because in a single thread nobody will ever signal it.  The counter of readers keeps its
  32 bits.
\<close>

record rwlatch =
  reader_count :: "32 word"
  writer_entered :: bool

definition MAX_READERS :: "32 word" where
  "MAX_READERS = - 1"

definition new_latch :: rwlatch where
  "new_latch = \<lparr>reader_count = 0, writer_entered = False\<rparr>"

definition w_lock :: "rwlatch \<Rightarrow> rwlatch result" where
  "w_lock l =
    (if writer_entered l then Inl Blocked
     else if 0 < reader_count l then Inl Blocked
     else Inr (l\<lparr>writer_entered := True\<rparr>))"

definition w_unlock :: "rwlatch \<Rightarrow> rwlatch" where
  "w_unlock l = l\<lparr>writer_entered := False\<rparr>"

definition r_lock :: "rwlatch \<Rightarrow> rwlatch result" where
  "r_lock l =
    (if writer_entered l \<or> reader_count l = MAX_READERS then Inl Blocked
     else Inr (l\<lparr>reader_count := reader_count l + 1\<rparr>))"

definition r_unlock :: "rwlatch \<Rightarrow> rwlatch" where
  "r_unlock l = l\<lparr>reader_count := reader_count l - 1\<rparr>"

text \<open>A free latch can be taken in either mode, and releasing it frees it again.\<close>

definition latch_free :: "rwlatch \<Rightarrow> bool" where
  "latch_free l \<longleftrightarrow> \<not> writer_entered l \<and> reader_count l = 0"

lemma latch_free_new [simp]: "latch_free new_latch"
  by (simp add: latch_free_def new_latch_def)

lemma latch_free_eq: "latch_free l \<longleftrightarrow> l = new_latch"
  by (cases l) (auto simp: latch_free_def new_latch_def)

lemma w_lock_new [simp]: "w_lock new_latch = Inr \<lparr>reader_count = 0, writer_entered = True\<rparr>"
  by (simp add: w_lock_def new_latch_def)

lemma r_lock_new [simp]: "r_lock new_latch = Inr \<lparr>reader_count = 1, writer_entered = False\<rparr>"
  by (simp add: r_lock_def new_latch_def MAX_READERS_def)

lemma w_unlock_held [simp]: "w_unlock \<lparr>reader_count = 0, writer_entered = True\<rparr> = new_latch"
  by (simp add: w_unlock_def new_latch_def)

lemma r_unlock_held [simp]: "r_unlock \<lparr>reader_count = 1, writer_entered = False\<rparr> = new_latch"
  by (simp add: r_unlock_def new_latch_def)

lemma w_lock_then_blocked:
  assumes "w_lock l = Inr l'"
  shows "w_lock l' = Inl Blocked" "r_lock l' = Inl Blocked"
  using assms by (auto simp: w_lock_def r_lock_def split: if_splits)

lemma r_lock_then_no_writer:
  assumes "r_lock l = Inr l'"
  shows "w_lock l' = Inl Blocked"
proof -
  have "reader_count l \<noteq> MAX_READERS" using assms by (auto simp: r_lock_def split: if_splits)
  then have "reader_count l + 1 \<noteq> 0"
    by (simp add: MAX_READERS_def eq_neg_iff_add_eq_0)
  then have "0 < reader_count l + 1" by (simp add: word_greater_zero_iff)
  moreover have "l' = l\<lparr>reader_count := reader_count l + 1\<rparr>"
    using assms by (auto simp: r_lock_def split: if_splits)
  ultimately show ?thesis by (simp add: w_lock_def)
qed

end
