(* ===== verification/Disk_Manager.thy ===== *)
theory Disk_Manager
  imports File_Stream RW_Latch
begin

unbundle bit_operations_syntax

text \<open>
  The disk manager of \<^verbatim>\<open>src/src/include/storage/disk/disk_manager.h\<close> and
  \<^verbatim>\<open>src/src/storage/disk/disk_manager.cpp\<close>: pages in a file, the sets of free and allocated page ids, and
  the meta data file from which they are rebuilt.  The file system is part of the state.  The two
  \<^verbatim>\<open>std::set\<close>s are sets of integers; \<^verbatim>\<open>begin()\<close> is the minimum.  Members the constructor leaves
  uninitialised start with the values \<open>u\<close> and \<open>pb\<close> of \<open>dm_start\<close>.  The offsets of the meta data fields are
  recomputed wherever they are used, so they are local here.
\<close>

record disk_manager =
  dm_files :: files
  dm_deny :: "string \<Rightarrow> bool"
  meta_io :: stream
  db_io :: stream
  log_io :: stream
  meta_name :: string
  db_name :: string
  log_name :: string
  dm_status :: bool
  max_ava_pgid :: int
  max_alloced_pgid :: int
  alloced_pgid :: "int set"
  free_pgid :: "int set"
  meta_buffer :: "mem option"
  buffer_size :: int
  page_buf :: mem
  catalog_page_id :: int
  dm_latch :: rwlatch
  db_io_latch :: rwlatch

definition dm_start :: "files \<Rightarrow> (string \<Rightarrow> bool) \<Rightarrow> int \<Rightarrow> mem \<Rightarrow> string \<Rightarrow> disk_manager" where
  "dm_start files deny u pb name =
    \<lparr>dm_files = files, dm_deny = deny,
     meta_io = closed_stream, db_io = closed_stream, log_io = closed_stream,
     meta_name = name @ ''.mtd'', db_name = name @ ''.db'', log_name = name @ ''.log'',
     dm_status = False, max_ava_pgid = u, max_alloced_pgid = u, alloced_pgid = {}, free_pgid = {},
     meta_buffer = None, buffer_size = - 1, page_buf = pb, catalog_page_id = u,
     dm_latch = new_latch, db_io_latch = new_latch\<rparr>"

section \<open>Pages\<close>

definition write_page :: "disk_manager \<Rightarrow> int \<Rightarrow> mem \<Rightarrow> (bool \<times> disk_manager) result" where
  "write_page dm pid data =
    (if st_open (db_io dm) = None then Inr (False, dm\<lparr>dm_status := False\<rparr>)
     else bindR (w_lock (db_io_latch dm)) (\<lambda>l.
       let (files, io) = stream_write (dm_files dm) (db_io dm) (pid * PAGE_SIZE) data PAGE_SIZE;
           dm = dm\<lparr>dm_files := files, db_io := io, db_io_latch := w_unlock l\<rparr>
       in Inr (\<not> st_fail io, dm)))"

definition read_page :: "disk_manager \<Rightarrow> int \<Rightarrow> mem \<Rightarrow> (bool \<times> mem \<times> disk_manager) result" where
  "read_page dm pid dst =
    (if st_open (db_io dm) = None then Inr (False, dst, dm\<lparr>dm_status := False\<rparr>)
     else bindR (w_lock (db_io_latch dm)) (\<lambda>l.
       let (gcount, dst, io) = stream_read (dm_files dm) (db_io dm) (pid * PAGE_SIZE) dst PAGE_SIZE;
           dm = dm\<lparr>db_io := io, db_io_latch := w_unlock l\<rparr>
       in Inr (gcount = PAGE_SIZE, dst, dm)))"

definition int_product :: "int \<Rightarrow> int \<Rightarrow> int result" where
  "int_product a b = (if in32 (a * b) then Inr (a * b) else Inl UndefBehaviour)"

definition refill_free :: "disk_manager \<Rightarrow> disk_manager result" where
  "refill_free dm =
    (if free_pgid dm \<noteq> {} then Inr dm
     else bindR (int_product (max_ava_pgid dm) 2) (\<lambda>m.
       if m \<le> max_ava_pgid dm then Inl UndefBehaviour
       else Inr (dm\<lparr>max_ava_pgid := m, free_pgid := {max_ava_pgid dm..<m}\<rparr>)))"

definition alloc_page :: "disk_manager \<Rightarrow> byte \<Rightarrow> (int \<times> disk_manager) result" where
  "alloc_page dm flag =
    (if st_open (db_io dm) = None then Inr (- 1, dm\<lparr>dm_status := False\<rparr>)
     else bindR (w_lock (dm_latch dm)) (\<lambda>l. bindR (refill_free dm) (\<lambda>dm.
       let pid = Min (free_pgid dm);
           dm = dm\<lparr>free_pgid := free_pgid dm - {pid}, alloced_pgid := insert pid (alloced_pgid dm),
                   dm_latch := w_unlock l, page_buf := (page_buf dm)(0 := flag)\<rparr>
       in bindR (w_lock (db_io_latch dm)) (\<lambda>dl. bindR (int_product pid PAGE_SIZE) (\<lambda>pos.
            let (files, io) = stream_write (dm_files dm) (db_io dm) pos (page_buf dm) PAGE_SIZE;
                dm = dm\<lparr>dm_files := files, db_io := io\<rparr>
            in if st_fail io
               then bindR (w_lock (dm_latch dm)) (\<lambda>l.
                      Inr (- 1, dm\<lparr>free_pgid := insert pid (free_pgid dm),
                                   alloced_pgid := alloced_pgid dm - {pid},
                                   dm_latch := w_unlock l, db_io_latch := w_unlock (w_unlock dl)\<rparr>))
               else Inr (pid, dm\<lparr>max_alloced_pgid := max (max_alloced_pgid dm) pid,
                                 db_io_latch := w_unlock dl\<rparr>))))))"

definition get_new_page :: "disk_manager \<Rightarrow> (int \<times> disk_manager) result" where
  "get_new_page dm = alloc_page dm STATUS_EXIST"

definition free_page :: "disk_manager \<Rightarrow> int \<Rightarrow> (bool \<times> disk_manager) result" where
  "free_page dm pid =
    (if pid < 0 then Inr (False, dm)
     else bindR (r_lock (dm_latch dm)) (\<lambda>l.
       let dm = dm\<lparr>dm_latch := r_unlock l\<rparr>
       in if pid \<notin> alloced_pgid dm then Inr (True, dm)
          else bindR (w_lock (db_io_latch dm)) (\<lambda>dl. bindR (int_product pid PAGE_SIZE) (\<lambda>pos.
            let (files, io) = stream_write (dm_files dm) (db_io dm) pos (\<lambda>_. STATUS_FREE) 1;
                dm = dm\<lparr>dm_files := files, db_io := io, db_io_latch := w_unlock dl\<rparr>
            in if st_fail io then Inr (False, dm)
               else bindR (w_lock (dm_latch dm)) (\<lambda>l.
                 let alloced = alloced_pgid dm - {pid};
                     dm = dm\<lparr>free_pgid := insert pid (free_pgid dm), alloced_pgid := alloced\<rparr>;
                     dm = (if max_alloced_pgid dm = pid
                           then dm\<lparr>max_alloced_pgid := (if alloced \<noteq> {} then Max alloced else - 1)\<rparr>
                           else dm)
                 in Inr (True, dm\<lparr>dm_latch := w_unlock l\<rparr>))))))"

definition is_free :: "disk_manager \<Rightarrow> int \<Rightarrow> bool" where
  "is_free dm pid \<longleftrightarrow> pid \<in> free_pgid dm"

definition is_allocated :: "disk_manager \<Rightarrow> int \<Rightarrow> bool" where
  "is_allocated dm pid \<longleftrightarrow> pid \<in> alloced_pgid dm"


section \<open>Meta data\<close>

text \<open>Offsets in the meta data buffer for names of \<open>a\<close> and \<open>b\<close> characters.\<close>

definition log_name_sz_at :: "int \<Rightarrow> int" where
  "log_name_sz_at a = OFFSET_T_SIZE + a + 1"

definition max_ava_at :: "int \<Rightarrow> int \<Rightarrow> int" where
  "max_ava_at a b = log_name_sz_at a + OFFSET_T_SIZE + b + 1"

definition reserved_at :: "int \<Rightarrow> int \<Rightarrow> int" where
  "reserved_at a b = max_ava_at a b + PGID_T_SIZE + PGID_T_SIZE"

definition meta_image :: "disk_manager \<Rightarrow> mem \<Rightarrow> mem" where
  "meta_image dm m =
    (let a = int (length (db_name dm)); b = int (length (log_name dm));
         m = wr32 m 0 a;
         m = fill_char_array (db_name dm) m OFFSET_T_SIZE;
         m = wr32 m (log_name_sz_at a) b;
         m = fill_char_array (log_name dm) m (log_name_sz_at a + OFFSET_T_SIZE);
         m = wr32 m (max_ava_at a b) (max_ava_pgid dm);
         m = wr32 m (max_ava_at a b + PGID_T_SIZE) (catalog_page_id dm)
     in memset m (reserved_at a b) 0 128)"

definition write_meta_data :: "disk_manager \<Rightarrow> (bool \<times> disk_manager) result" where
  "write_meta_data dm =
    (case meta_buffer dm of
       None \<Rightarrow> Inr (False, dm)
     | Some m \<Rightarrow>
         if buffer_size dm < reserved_at (int (length (db_name dm))) (int (length (log_name dm))) + 128
         then Inl UndefBehaviour
         else let m = meta_image dm m;
                  (files, io) = stream_write (dm_files dm) (meta_io dm) 0 m (buffer_size dm)
              in Inr (\<not> st_fail io, dm\<lparr>meta_buffer := Some m, dm_files := files, meta_io := io\<rparr>))"

definition shutdown :: "disk_manager \<Rightarrow> disk_manager result" where
  "shutdown dm =
    bindR (if dm_status dm then write_meta_data dm else Inr (True, dm)) (\<lambda>(_, dm).
      Inr (dm\<lparr>dm_status := False, meta_io := stream_close (meta_io dm), db_io := stream_close (db_io dm),
              log_io := stream_close (log_io dm),
              buffer_size := (if meta_buffer dm = None then buffer_size dm else - 1),
              meta_buffer := None\<rparr>))"


section \<open>Creating and opening\<close>

definition from_scratch :: "mem \<Rightarrow> disk_manager \<Rightarrow> disk_manager result" where
  "from_scratch new_buf dm =
    (if \<not> check_inexistence (dm_files dm) (dm_deny dm) (meta_name dm) \<or>
        \<not> check_inexistence (dm_files dm) (dm_deny dm) (db_name dm) \<or>
        \<not> check_inexistence (dm_files dm) (dm_deny dm) (log_name dm) then Inr dm
     else
       let (ok, io, files) = open_file (dm_files dm) (dm_deny dm) (meta_name dm) True;
           dm = dm\<lparr>meta_io := io, dm_files := files\<rparr>
       in if \<not> ok then Inr dm
          else
            let (ok, io, files) = open_file (dm_files dm) (dm_deny dm) (db_name dm) True;
                dm = dm\<lparr>db_io := io, dm_files := files\<rparr>
            in if \<not> ok then Inr (dm\<lparr>dm_files := remove_file (dm_files dm) (meta_name dm)\<rparr>)
               else
                 let (ok, io, files) = open_file (dm_files dm) (dm_deny dm) (log_name dm) True;
                     dm = dm\<lparr>log_io := io, dm_files := files\<rparr>
                 in if \<not> ok
                    then Inr (dm\<lparr>dm_files := remove_file (remove_file (dm_files dm) (meta_name dm)) (db_name dm)\<rparr>)
                    else
                      let dm = dm\<lparr>max_ava_pgid := 100, max_alloced_pgid := - 1,
                                  free_pgid := {0..<100} \<union> free_pgid dm,
                                  meta_buffer := Some new_buf, buffer_size := 512\<rparr>
                      in bindR (get_new_page dm) (\<lambda>(pid, dm).
                           let dm = dm\<lparr>catalog_page_id := pid\<rparr>
                           in bindR (write_meta_data dm) (\<lambda>(ok, dm).
                                Inr (if ok then dm\<lparr>dm_status := True\<rparr> else dm))))"

definition rd_buf :: "mem \<Rightarrow> int \<Rightarrow> int \<Rightarrow> int result" where
  "rd_buf m sz a = (if 0 \<le> a \<and> a + 4 \<le> sz then Inr (rd32 m a) else Inl UndefBehaviour)"

text \<open>The scan of the database file: one page, one batch of pages, the loop over the batches.\<close>

definition scan_page :: "mem \<Rightarrow> int \<Rightarrow> disk_manager \<Rightarrow> nat \<Rightarrow> disk_manager" where
  "scan_page tmp_buf base dm j =
    (let pid = base + int j
     in if tmp_buf (int j * PAGE_SIZE) AND STATUS_EXIST \<noteq> 0
        then dm\<lparr>max_alloced_pgid := pid, alloced_pgid := insert pid (alloced_pgid dm)\<rparr>
        else dm\<lparr>free_pgid := insert pid (free_pgid dm)\<rparr>)"

fun scan_db :: "nat \<Rightarrow> int \<Rightarrow> int \<Rightarrow> mem \<Rightarrow> int \<Rightarrow> disk_manager \<Rightarrow> (bool \<times> int \<times> disk_manager) result" where
  "scan_db 0 i db_file_sz tmp_buf pid dm = Inr (True, pid, dm)"
| "scan_db (Suc n) i db_file_sz tmp_buf pid dm =
     (let read_sz = (if READ_DB_BUF_SZ \<le> db_file_sz then READ_DB_BUF_SZ else db_file_sz);
          (gcount, tmp_buf, io) = stream_read (dm_files dm) (db_io dm) (i * READ_DB_BUF_SZ) tmp_buf read_sz;
          dm = dm\<lparr>db_io := io\<rparr>
      in if st_fail io then bindR (shutdown dm) (\<lambda>dm. Inr (False, pid, dm))
         else
           let pages = nat ((gcount + PAGE_SIZE - 1) div PAGE_SIZE)
           in scan_db n (i + 1) (db_file_sz - READ_DB_BUF_SZ) tmp_buf
                (if pages = 0 then pid else i * READ_DB_PG_NUM + int pages - 1)
                (foldl (scan_page tmp_buf (i * READ_DB_PG_NUM)) dm [0..<pages]))"

definition rebuild_pgids :: "int \<Rightarrow> mem \<Rightarrow> disk_manager \<Rightarrow> disk_manager result" where
  "rebuild_pgids pid0 tmp_buf dm =
    (let db_file_sz = get_file_sz (dm_files dm) (db_io dm)
     in if db_file_sz = - 1 \<or> db_file_sz mod PAGE_SIZE \<noteq> 0 then shutdown dm
        else if db_file_sz = 0
        then Inr (dm\<lparr>free_pgid := free_pgid dm \<union> {0..<max_ava_pgid dm}, max_alloced_pgid := - 1,
                     dm_status := True\<rparr>)
        else bindR (scan_db (nat ((db_file_sz + READ_DB_BUF_SZ - 1) div READ_DB_BUF_SZ)) 0 db_file_sz
                      tmp_buf pid0 dm) (\<lambda>(ok, pid, dm).
               if ok then Inr (dm\<lparr>free_pgid := free_pgid dm \<union> {pid + 1..<max_ava_pgid dm}, dm_status := True\<rparr>)
               else Inr dm))"

definition from_mtd :: "int \<Rightarrow> mem \<Rightarrow> disk_manager \<Rightarrow> disk_manager result" where
  "from_mtd pid0 tmp_buf dm =
    (let (ok, io, files) = open_file (dm_files dm) (dm_deny dm) (meta_name dm) False;
         dm = dm\<lparr>meta_io := io, dm_files := files\<rparr>
     in if \<not> ok then shutdown dm
        else
          let dm = dm\<lparr>buffer_size := get_file_sz (dm_files dm) (meta_io dm)\<rparr>
          in if buffer_size dm = - 1 then shutdown dm
             else
               let sz = buffer_size dm;
                   (gcount, m, io) = stream_read (dm_files dm) (meta_io dm) 0 tmp_buf sz;
                   dm = dm\<lparr>meta_buffer := Some m, meta_io := io\<rparr>
               in if st_fail io \<or> gcount \<noteq> sz then shutdown dm
                  else
                    bindR (rd_buf m sz 0) (\<lambda>a. bindR (read_cstring m OFFSET_T_SIZE sz) (\<lambda>db.
                    let (ok, io, files) = open_file (dm_files dm) (dm_deny dm) db False;
                        dm = dm\<lparr>db_name := db, db_io := io, dm_files := files\<rparr>
                    in if \<not> ok then shutdown dm
                       else
                         bindR (rd_buf m sz (log_name_sz_at a)) (\<lambda>b.
                         bindR (read_cstring m (log_name_sz_at a + OFFSET_T_SIZE) sz) (\<lambda>lg.
                         let (ok, io, files) = open_file (dm_files dm) (dm_deny dm) lg False;
                             dm = dm\<lparr>log_name := lg, log_io := io, dm_files := files\<rparr>
                         in if \<not> ok then shutdown dm
                            else
                              bindR (rd_buf m sz (max_ava_at a b)) (\<lambda>ava.
                              bindR (rd_buf m sz (max_ava_at a b + PGID_T_SIZE)) (\<lambda>cat.
                                rebuild_pgids pid0 tmp_buf
                                  (dm\<lparr>max_ava_pgid := ava, catalog_page_id := cat\<rparr>))))))))"

definition DiskManager :: "files \<Rightarrow> (string \<Rightarrow> bool) \<Rightarrow> int \<Rightarrow> mem \<Rightarrow> mem \<Rightarrow> string \<Rightarrow> bool \<Rightarrow> disk_manager result" where
  "DiskManager files deny u pb buf name create =
    (let dm = dm_start files deny u pb name
     in if create then from_scratch buf dm else from_mtd u buf dm)"

text \<open>
  \<^verbatim>\<open>DiskManagerFactory\<close>: the three file names, and \<^verbatim>\<open>create_DiskManager\<close>, where None is the null
  pointer, together with the files left behind.
\<close>

definition add_meta_postfix :: "string \<Rightarrow> string" where
  "add_meta_postfix name = name @ ''.mtd''"

definition add_db_postfix :: "string \<Rightarrow> string" where
  "add_db_postfix name = name @ ''.db''"

definition add_log_postfix :: "string \<Rightarrow> string" where
  "add_log_postfix name = name @ ''.log''"

definition create_DiskManager :: "files \<Rightarrow> (string \<Rightarrow> bool) \<Rightarrow> int \<Rightarrow> mem \<Rightarrow> mem \<Rightarrow> string \<Rightarrow> bool \<Rightarrow>
    (disk_manager option \<times> files) result" where
  "create_DiskManager files deny u pb buf name create =
    (let mtd = add_meta_postfix name; db = add_db_postfix name; lg = add_log_postfix name;
         files = (if create then remove_file (remove_file (remove_file files mtd) db) lg else files)
     in bindR (DiskManager files deny u pb buf name create) (\<lambda>dm.
          if \<not> dm_status dm \<or> check_inexistence (dm_files dm) deny mtd \<or>
             check_inexistence (dm_files dm) deny db \<or> check_inexistence (dm_files dm) deny lg
          then bindR (if dm_status dm then shutdown dm else Inr dm) (\<lambda>dm. Inr (None, dm_files dm))
          else Inr (Some dm, dm_files dm)))"

lemmas postfix_defs = add_meta_postfix_def add_db_postfix_def add_log_postfix_def

section \<open>The invariant\<close>

definition db_file :: "disk_manager \<Rightarrow> disk_file" where
  "db_file dm = (case dm_files dm (db_name dm) of Some f \<Rightarrow> f | None \<Rightarrow> empty_file)"

definition disk_byte :: "disk_manager \<Rightarrow> int \<Rightarrow> int \<Rightarrow> byte" where
  "disk_byte dm pid a = f_bytes (db_file dm) (pid * PAGE_SIZE + a)"

definition on_disk :: "disk_manager \<Rightarrow> int \<Rightarrow> bool" where
  "on_disk dm pid \<longleftrightarrow> 0 \<le> pid \<and> (pid + 1) * PAGE_SIZE \<le> f_size (db_file dm)"

definition dm_inv :: "disk_manager \<Rightarrow> bool" where
  "dm_inv dm \<longleftrightarrow>
    st_open (db_io dm) = Some (db_name dm) \<and> \<not> st_fail (db_io dm) \<and> dm_files dm (db_name dm) \<noteq> None \<and>
    dm_latch dm = new_latch \<and> db_io_latch dm = new_latch \<and>
    0 \<le> f_size (db_file dm) \<and> f_size (db_file dm) mod PAGE_SIZE = 0 \<and>
    f_size (db_file dm) \<le> max_ava_pgid dm * PAGE_SIZE \<and>
    0 < max_ava_pgid dm \<and> in32 (max_ava_pgid dm) \<and>
    free_pgid dm \<union> alloced_pgid dm = {0..<max_ava_pgid dm} \<and> free_pgid dm \<inter> alloced_pgid dm = {} \<and>
    (\<forall>pid\<in>alloced_pgid dm. on_disk dm pid) \<and>
    max_alloced_pgid dm = (if alloced_pgid dm = {} then - 1 else Max (alloced_pgid dm))"

text \<open>The status bytes on the disk tell which pages are allocated.\<close>

definition dm_sync :: "disk_manager \<Rightarrow> bool" where
  "dm_sync dm \<longleftrightarrow> (\<forall>pid. on_disk dm pid \<longrightarrow> (disk_byte dm pid 0 AND STATUS_EXIST \<noteq> 0 \<longleftrightarrow> pid \<in> alloced_pgid dm))"

text \<open>The id the next allocation will hand out.\<close>

definition next_pgid :: "disk_manager \<Rightarrow> int" where
  "next_pgid dm = (if free_pgid dm = {} then max_ava_pgid dm else Min (free_pgid dm))"

lemma dm_invD:
  assumes "dm_inv dm"
  shows "st_open (db_io dm) = Some (db_name dm)" "\<not> st_fail (db_io dm)"
    "dm_files dm (db_name dm) = Some (db_file dm)" "dm_latch dm = new_latch" "db_io_latch dm = new_latch"
    "0 \<le> f_size (db_file dm)" "f_size (db_file dm) mod PAGE_SIZE = 0"
    "f_size (db_file dm) \<le> max_ava_pgid dm * PAGE_SIZE" "0 < max_ava_pgid dm" "in32 (max_ava_pgid dm)"
    "free_pgid dm \<union> alloced_pgid dm = {0..<max_ava_pgid dm}" "free_pgid dm \<inter> alloced_pgid dm = {}"
    "\<And>pid. pid \<in> alloced_pgid dm \<Longrightarrow> on_disk dm pid"
    "max_alloced_pgid dm = (if alloced_pgid dm = {} then - 1 else Max (alloced_pgid dm))"
    "finite (free_pgid dm)" "finite (alloced_pgid dm)"
  using assms
    finite_subset [of "free_pgid dm" "{0..<max_ava_pgid dm}"]
    finite_subset [of "alloced_pgid dm" "{0..<max_ava_pgid dm}"]
  by (auto simp: dm_inv_def db_file_def)

lemma PAGE_SIZE_pos [simp]: "0 < PAGE_SIZE"
  by (simp add: PAGE_SIZE_def)

lemma page_addr_nonneg: "0 \<le> p \<Longrightarrow> 0 \<le> p * PAGE_SIZE"
  by (simp add: PAGE_SIZE_def)

lemma page_end_le: "p < q \<Longrightarrow> (p + 1) * PAGE_SIZE \<le> q * PAGE_SIZE"
  by (simp add: mult_right_mono PAGE_SIZE_def)

lemma page_disjoint:
  assumes "p \<noteq> q" "0 \<le> a" "a < PAGE_SIZE"
  shows "p * PAGE_SIZE + a < q * PAGE_SIZE \<or> (q + 1) * PAGE_SIZE \<le> p * PAGE_SIZE + a"
proof (cases "p < q")
  case True
  then show ?thesis using page_end_le [OF True] assms by (simp add: algebra_simps)
next
  case False
  then have "q < p" using assms(1) by simp
  then have "(q + 1) * PAGE_SIZE \<le> p * PAGE_SIZE" by (rule page_end_le)
  then show ?thesis using assms(2) by linarith
qed

lemma next_pgid_fresh:
  assumes "dm_inv dm"
  shows "0 \<le> next_pgid dm" "next_pgid dm \<notin> alloced_pgid dm"
    "\<And>q. 0 \<le> q \<Longrightarrow> q < next_pgid dm \<Longrightarrow> q \<in> alloced_pgid dm"
proof -
  note D = dm_invD [OF assms]
  show "0 \<le> next_pgid dm"
    using D(9,11) Min_in [OF D(15)] by (cases "free_pgid dm = {}") (auto simp: next_pgid_def)
  show "next_pgid dm \<notin> alloced_pgid dm"
  proof (cases "free_pgid dm = {}")
    case True
    then show ?thesis using D(11) by (auto simp: next_pgid_def)
  next
    case False
    then show ?thesis using D(12) Min_in [OF D(15) False] by (auto simp: next_pgid_def)
  qed
  show "q \<in> alloced_pgid dm" if "0 \<le> q" "q < next_pgid dm" for q
  proof (cases "free_pgid dm = {}")
    case True
    then show ?thesis using that D(11) by (auto simp: next_pgid_def)
  next
    case False
    have "next_pgid dm < max_ava_pgid dm"
      using D(11) Min_in [OF D(15) False] False by (auto simp: next_pgid_def)
    moreover have "q \<notin> free_pgid dm" using that D(15) False Min_le [of "free_pgid dm" q] by (auto simp: next_pgid_def)
    ultimately show ?thesis using that D(11) by (metis UnE atLeastLessThan_iff order_less_trans)
  qed
qed

lemma next_pgid_at_end:
  assumes "dm_inv dm"
  shows "next_pgid dm * PAGE_SIZE \<le> f_size (db_file dm)"
proof (cases "next_pgid dm = 0")
  case False
  then have "next_pgid dm - 1 \<in> alloced_pgid dm"
    using next_pgid_fresh [OF assms] by simp
  then show ?thesis using dm_invD(13) [OF assms] by (fastforce simp: on_disk_def)
qed (use dm_invD(6) [OF assms] in simp)

lemma int_product_ok [simp]: "in32 (a * b) \<Longrightarrow> int_product a b = Inr (a * b)"
  by (simp add: int_product_def)


section \<open>Operations under the invariant\<close>

lemma refill_free_spec:
  assumes inv: "dm_inv dm" and room: "free_pgid dm = {} \<Longrightarrow> in32 (2 * max_ava_pgid dm)"
  shows "\<exists>dm'. refill_free dm = Inr dm' \<and> dm_inv dm' \<and> free_pgid dm' \<noteq> {} \<and> Min (free_pgid dm') = next_pgid dm \<and>
    dm' = dm\<lparr>max_ava_pgid := max_ava_pgid dm', free_pgid := free_pgid dm'\<rparr>"
proof (cases "free_pgid dm = {}")
  case True
  note D = dm_invD [OF inv]
  let ?m = "max_ava_pgid dm" and ?dm' = "dm\<lparr>max_ava_pgid := 2 * max_ava_pgid dm,
      free_pgid := {max_ava_pgid dm..<2 * max_ava_pgid dm}\<rparr>"
  have "refill_free dm = Inr ?dm'"
    using True room D(9) by (simp add: refill_free_def mult.commute)
  moreover have "dm_inv ?dm'"
    using inv True room D(8,9,11) by (auto simp: dm_inv_def db_file_def on_disk_def PAGE_SIZE_def)
  moreover have "Min {?m..<2 * ?m} = ?m" using D(9) by (intro Min_eqI) auto
  ultimately show ?thesis using True D(9) by (intro exI [of _ ?dm']) (simp add: next_pgid_def)
next
  case False
  then show ?thesis using inv by (intro exI [of _ dm]) (simp add: refill_free_def next_pgid_def)
qed

definition dm_frame :: "disk_manager \<Rightarrow> disk_manager \<Rightarrow> bool" where
  "dm_frame dm dm' \<longleftrightarrow>
    meta_io dm' = meta_io dm \<and> log_io dm' = log_io dm \<and> meta_name dm' = meta_name dm \<and>
    db_name dm' = db_name dm \<and> log_name dm' = log_name dm \<and> dm_status dm' = dm_status dm \<and>
    meta_buffer dm' = meta_buffer dm \<and> buffer_size dm' = buffer_size dm \<and>
    catalog_page_id dm' = catalog_page_id dm \<and> dm_deny dm' = dm_deny dm \<and>
    (\<forall>n. n \<noteq> db_name dm \<longrightarrow> dm_files dm' n = dm_files dm n)"

lemma dm_frame_refl [simp]: "dm_frame dm dm"
  by (simp add: dm_frame_def)

lemma dm_frame_trans: "dm_frame a b \<Longrightarrow> dm_frame b c \<Longrightarrow> dm_frame a c"
  by (simp add: dm_frame_def)

lemma alloc_page_spec:
  assumes inv: "dm_inv dm" and room: "free_pgid dm = {} \<Longrightarrow> in32 (2 * max_ava_pgid dm)"
    and addr: "in32 (next_pgid dm * PAGE_SIZE)"
  shows "\<exists>dm'. alloc_page dm flag = Inr (next_pgid dm, dm') \<and> dm_inv dm' \<and> dm_frame dm dm' \<and>
    alloced_pgid dm' = insert (next_pgid dm) (alloced_pgid dm) \<and>
    disk_byte dm' (next_pgid dm) 0 = flag \<and>
    (\<forall>pid. on_disk dm' pid \<longleftrightarrow> on_disk dm pid \<or> pid = next_pgid dm) \<and>
    (\<forall>pid a. on_disk dm pid \<and> pid \<noteq> next_pgid dm \<and> 0 \<le> a \<and> a < PAGE_SIZE \<longrightarrow>
       disk_byte dm' pid a = disk_byte dm pid a) \<and>
    (free_pgid dm \<noteq> {} \<longrightarrow> max_ava_pgid dm' = max_ava_pgid dm) \<and>
    page_buf dm' = (page_buf dm)(0 := flag) \<and>
    (\<forall>a. 0 \<le> a \<and> a < PAGE_SIZE \<longrightarrow> disk_byte dm' (next_pgid dm) a = ((page_buf dm)(0 := flag)) a)"
proof -
  obtain d1 where d1: "refill_free dm = Inr d1" "dm_inv d1" "free_pgid d1 \<noteq> {}" "Min (free_pgid d1) = next_pgid dm"
      "d1 = dm\<lparr>max_ava_pgid := max_ava_pgid d1, free_pgid := free_pgid d1\<rparr>"
    using refill_free_spec [OF inv room] by blast
  note D = dm_invD [OF inv] and E = dm_invD [OF d1(2)] and N = next_pgid_fresh [OF inv]
  let ?p = "next_pgid dm" and ?f = "db_file dm"
  have same: "dm_files d1 = dm_files dm" "db_name d1 = db_name dm" "db_io d1 = db_io dm" "db_file d1 = db_file dm"
      "alloced_pgid d1 = alloced_pgid dm" "max_alloced_pgid d1 = max_alloced_pgid dm" "page_buf d1 = page_buf dm"
      "dm_frame dm d1"
    by (subst d1(5), simp add: db_file_def dm_frame_def)+
  define src where "src = (page_buf dm)(0 := flag)"
  define f' where "f' = file_write ?f (?p * PAGE_SIZE) src PAGE_SIZE"
  define dm' where "dm' = d1\<lparr>free_pgid := free_pgid d1 - {?p}, alloced_pgid := insert ?p (alloced_pgid dm),
      dm_latch := new_latch, page_buf := src, dm_files := (dm_files dm)(db_name dm \<mapsto> f'), db_io := db_io dm,
      max_alloced_pgid := max (max_alloced_pgid dm) ?p, db_io_latch := new_latch\<rparr>"
  have run: "alloc_page dm flag = Inr (?p, dm')"
    using D(1,2,4) E(5) d1(1,4) same addr page_addr_nonneg [OF N(1)] stream_write_ok [of "db_io dm" "db_name dm" "?p * PAGE_SIZE" "dm_files dm" ?f src PAGE_SIZE] D(3)
    by (simp add: alloc_page_def Let_def dm'_def src_def f'_def)
  have f: "db_file dm' = f'" by (simp add: db_file_def dm'_def same)
  have sz: "f_size f' = max (f_size ?f) ((?p + 1) * PAGE_SIZE)" by (simp add: f'_def algebra_simps)
  note endp = next_pgid_at_end [OF inv]
  have on: "on_disk dm' pid \<longleftrightarrow> on_disk dm pid \<or> pid = ?p" for pid
  proof -
    have "(pid + 1) * PAGE_SIZE \<le> (?p + 1) * PAGE_SIZE \<longleftrightarrow> pid \<le> ?p" by (simp add: PAGE_SIZE_def)
    moreover have "(pid + 1) * PAGE_SIZE \<le> f_size ?f" if "pid < ?p"
      by (rule order_trans [OF page_end_le [OF that] endp])
    ultimately show ?thesis using N(1) by (auto simp: on_disk_def f sz le_max_iff_disj)
  qed
  have pf: "?p \<in> free_pgid d1" using d1(3,4) E(15) Min_in by metis
  have max: "max (max_alloced_pgid dm) ?p = Max (insert ?p (alloced_pgid dm))"
    using D(14,16) N(1) by (cases "alloced_pgid dm = {}") (simp_all add: max.commute)
  have inv': "dm_inv dm'"
    unfolding dm_inv_def
  proof (intro conjI)
    show "f_size (db_file dm') mod PAGE_SIZE = 0" using D(7) by (simp add: f sz max_def)
    have "(?p + 1) * PAGE_SIZE \<le> max_ava_pgid d1 * PAGE_SIZE" using pf E(11) by (intro page_end_le) auto
    moreover have "max_ava_pgid dm' = max_ava_pgid d1" by (simp add: dm'_def)
    ultimately show "f_size (db_file dm') \<le> max_ava_pgid dm' * PAGE_SIZE"
      using E(8) unfolding f sz same by simp
    show "\<forall>pid\<in>alloced_pgid dm'. on_disk dm' pid" using on D(13) by (simp add: dm'_def)
    show "free_pgid dm' \<union> alloced_pgid dm' = {0..<max_ava_pgid dm'}"
      using E(11) pf by (auto simp: dm'_def same)
    show "free_pgid dm' \<inter> alloced_pgid dm' = {}" using E(12) by (auto simp: dm'_def same)
    show "0 \<le> f_size (db_file dm')" using D(6) by (simp add: f sz)
    show "max_alloced_pgid dm' = (if alloced_pgid dm' = {} then - 1 else Max (alloced_pgid dm'))"
      using max by (simp add: dm'_def)
  qed (use D(1,2) E(9,10) same(2) in \<open>simp_all add: dm'_def\<close>)
  have new: "disk_byte dm' ?p a = ((page_buf dm)(0 := flag)) a" if "0 \<le> a" "a < PAGE_SIZE" for a
    using that by (simp add: disk_byte_def f f'_def file_write_apply src_def)
  have b0: "disk_byte dm' ?p 0 = flag" using new [of 0] by simp
  have keep: "disk_byte dm' pid a = disk_byte dm pid a"
    if "on_disk dm pid" "pid \<noteq> ?p" "0 \<le> a" "a < PAGE_SIZE" for pid a
    using page_disjoint [OF that(2-4)] that
    by (auto simp: disk_byte_def f f'_def on_disk_def algebra_simps intro!: file_write_apply(2))
  have ava: "max_ava_pgid dm' = max_ava_pgid dm" if "free_pgid dm \<noteq> {}"
    using d1(1) that by (simp add: refill_free_def dm'_def)
  have "dm_frame dm dm'" using same(8) by (simp add: dm_frame_def dm'_def)
  then show ?thesis
    using run inv' b0 keep on ava new by (intro exI [of _ dm']) (simp add: dm'_def src_def)
qed


lemma free_page_spec:
  assumes inv: "dm_inv dm" and pid: "pid \<in> alloced_pgid dm" and addr: "in32 (pid * PAGE_SIZE)"
  shows "\<exists>dm'. free_page dm pid = Inr (True, dm') \<and> dm_inv dm' \<and> dm_frame dm dm' \<and>
    alloced_pgid dm' = alloced_pgid dm - {pid} \<and> disk_byte dm' pid 0 = STATUS_FREE \<and>
    page_buf dm' = page_buf dm \<and>
    (\<forall>q. on_disk dm' q \<longleftrightarrow> on_disk dm q) \<and>
    (\<forall>q a. on_disk dm q \<and> q \<noteq> pid \<and> 0 \<le> a \<and> a < PAGE_SIZE \<longrightarrow> disk_byte dm' q a = disk_byte dm q a)"
proof -
  note D = dm_invD [OF inv]
  let ?f = "db_file dm"
  have p: "0 \<le> pid" "(pid + 1) * PAGE_SIZE \<le> f_size ?f" using D(13) [OF pid] by (simp_all add: on_disk_def)
  define f' where "f' = file_write ?f (pid * PAGE_SIZE) (\<lambda>_. STATUS_FREE) 1"
  define al where "al = alloced_pgid dm - {pid}"
  define dm' where "dm' = dm\<lparr>free_pgid := insert pid (free_pgid dm), alloced_pgid := al,
      dm_files := (dm_files dm)(db_name dm \<mapsto> f'),
      max_alloced_pgid := (if max_alloced_pgid dm = pid then (if al \<noteq> {} then Max al else - 1)
                           else max_alloced_pgid dm)\<rparr>"
  have run: "free_page dm pid = Inr (True, dm')"
    using D(1,2,3,4,5) p(1) pid addr page_addr_nonneg [OF p(1)]
      stream_write_ok [of "db_io dm" "db_name dm" "pid * PAGE_SIZE" "dm_files dm" ?f "\<lambda>_. STATUS_FREE" 1]
    by (simp add: free_page_def Let_def dm'_def f'_def al_def)
  have f: "db_file dm' = f'" by (simp add: db_file_def dm'_def)
  have sz: "f_size f' = f_size ?f" using p(2) by (simp add: f'_def algebra_simps PAGE_SIZE_def)
  have on: "on_disk dm' q \<longleftrightarrow> on_disk dm q" for q by (simp add: on_disk_def f sz)
  have mx: "max_alloced_pgid dm' = (if al = {} then - 1 else Max al)"
  proof (cases "max_alloced_pgid dm = pid")
    case False
    have ne0: "alloced_pgid dm \<noteq> {}" using pid by blast
    have m: "max_alloced_pgid dm = Max (alloced_pgid dm)" using D(14) ne0 by simp
    have "Max (alloced_pgid dm) \<in> al" using Max_in [OF D(16) ne0] False m by (simp add: al_def)
    then have ne: "al \<noteq> {}" and "Max al = Max (alloced_pgid dm)"
      using D(16) Max_ge [OF D(16)] by (blast, intro Max_eqI) (auto simp: al_def)
    then show ?thesis using False m by (simp add: dm'_def)
  qed (simp add: dm'_def)
  have inv': "dm_inv dm'"
    unfolding dm_inv_def
  proof (intro conjI)
    show "\<forall>q\<in>alloced_pgid dm'. on_disk dm' q" using on D(13) by (simp add: dm'_def al_def)
    show "free_pgid dm' \<union> alloced_pgid dm' = {0..<max_ava_pgid dm'}" "free_pgid dm' \<inter> alloced_pgid dm' = {}"
      using D(11,12) pid by (auto simp: dm'_def al_def)
    show "max_alloced_pgid dm' = (if alloced_pgid dm' = {} then - 1 else Max (alloced_pgid dm'))"
      using mx by (simp add: dm'_def)
    show "0 \<le> f_size (db_file dm')" "f_size (db_file dm') mod PAGE_SIZE = 0" using D(6,7) by (simp_all add: f sz)
    show "f_size (db_file dm') \<le> max_ava_pgid dm' * PAGE_SIZE" using D(8) unfolding f sz by (simp add: dm'_def)
  qed (use D(1,2,4,5,9,10) in \<open>simp_all add: dm'_def\<close>)
  have b0: "disk_byte dm' pid 0 = STATUS_FREE" by (simp add: disk_byte_def f f'_def file_write_apply)
  have keep: "disk_byte dm' q a = disk_byte dm q a"
    if "on_disk dm q" "q \<noteq> pid" "0 \<le> a" "a < PAGE_SIZE" for q a
  proof -
    have "q * PAGE_SIZE + a < pid * PAGE_SIZE \<or> pid * PAGE_SIZE + 1 \<le> q * PAGE_SIZE + a"
      using page_disjoint [OF that(2-4)] by (auto simp: algebra_simps PAGE_SIZE_def)
    moreover have "0 \<le> q * PAGE_SIZE + a" "q * PAGE_SIZE + a < f_size ?f"
      using that page_addr_nonneg [of q] by (auto simp: on_disk_def algebra_simps)
    ultimately show ?thesis unfolding disk_byte_def f f'_def by (intro file_write_apply(2)) auto
  qed
  have "dm_frame dm dm'" by (simp add: dm_frame_def dm'_def)
  then show ?thesis using run inv' b0 keep on by (intro exI [of _ dm']) (simp add: dm'_def al_def)
qed

lemma write_page_spec:
  assumes inv: "dm_inv dm" and pid: "on_disk dm pid"
  shows "\<exists>dm'. write_page dm pid data = Inr (True, dm') \<and> dm_inv dm' \<and> dm_frame dm dm' \<and>
    alloced_pgid dm' = alloced_pgid dm \<and> free_pgid dm' = free_pgid dm \<and> max_ava_pgid dm' = max_ava_pgid dm \<and>
    page_buf dm' = page_buf dm \<and> (\<forall>q. on_disk dm' q \<longleftrightarrow> on_disk dm q) \<and>
    (\<forall>a. 0 \<le> a \<and> a < PAGE_SIZE \<longrightarrow> disk_byte dm' pid a = data a) \<and>
    (\<forall>q a. on_disk dm q \<and> q \<noteq> pid \<and> 0 \<le> a \<and> a < PAGE_SIZE \<longrightarrow> disk_byte dm' q a = disk_byte dm q a)"
proof -
  note D = dm_invD [OF inv]
  let ?f = "db_file dm"
  have p: "0 \<le> pid" "(pid + 1) * PAGE_SIZE \<le> f_size ?f" using pid by (simp_all add: on_disk_def)
  define f' where "f' = file_write ?f (pid * PAGE_SIZE) data PAGE_SIZE"
  define dm' where "dm' = dm\<lparr>dm_files := (dm_files dm)(db_name dm \<mapsto> f')\<rparr>"
  have run: "write_page dm pid data = Inr (True, dm')"
    using D(1,2,3,5) page_addr_nonneg [OF p(1)]
      stream_write_ok [of "db_io dm" "db_name dm" "pid * PAGE_SIZE" "dm_files dm" ?f data PAGE_SIZE]
    by (simp add: write_page_def Let_def dm'_def f'_def)
  have f: "db_file dm' = f'" by (simp add: db_file_def dm'_def)
  have sz: "f_size f' = f_size ?f" using p(2) by (simp add: f'_def algebra_simps)
  have on: "on_disk dm' q \<longleftrightarrow> on_disk dm q" for q by (simp add: on_disk_def f sz)
  have inv': "dm_inv dm'"
    unfolding dm_inv_def
  proof (intro conjI)
    show "\<forall>q\<in>alloced_pgid dm'. on_disk dm' q" using on D(13) by (simp add: dm'_def)
    show "0 \<le> f_size (db_file dm')" "f_size (db_file dm') mod PAGE_SIZE = 0" using D(6,7) by (simp_all add: f sz)
    show "f_size (db_file dm') \<le> max_ava_pgid dm' * PAGE_SIZE" using D(8) unfolding f sz by (simp add: dm'_def)
    show "free_pgid dm' \<union> alloced_pgid dm' = {0..<max_ava_pgid dm'}" "free_pgid dm' \<inter> alloced_pgid dm' = {}"
      using D(11,12) by (simp_all add: dm'_def)
    show "max_alloced_pgid dm' = (if alloced_pgid dm' = {} then - 1 else Max (alloced_pgid dm'))"
      using D(14) by (simp add: dm'_def)
  qed (use D(1,2,4,5,9,10) in \<open>simp_all add: dm'_def\<close>)
  have at: "disk_byte dm' pid a = data a" if "0 \<le> a" "a < PAGE_SIZE" for a
    using that by (simp add: disk_byte_def f f'_def file_write_apply)
  have keep: "disk_byte dm' q a = disk_byte dm q a"
    if "on_disk dm q" "q \<noteq> pid" "0 \<le> a" "a < PAGE_SIZE" for q a
  proof -
    have "0 \<le> q * PAGE_SIZE + a" "q * PAGE_SIZE + a < f_size ?f"
      using that page_addr_nonneg [of q] by (auto simp: on_disk_def algebra_simps)
    moreover have "q * PAGE_SIZE + a < pid * PAGE_SIZE \<or> pid * PAGE_SIZE + PAGE_SIZE \<le> q * PAGE_SIZE + a"
      using page_disjoint [OF that(2-4)] by (auto simp: algebra_simps)
    ultimately show ?thesis unfolding disk_byte_def f f'_def by (intro file_write_apply(2)) auto
  qed
  have "dm_frame dm dm'" by (simp add: dm_frame_def dm'_def)
  then show ?thesis using run inv' at keep on by (intro exI [of _ dm']) (simp add: dm'_def)
qed

lemma read_page_spec:
  assumes inv: "dm_inv dm" and pid: "on_disk dm pid"
  shows "read_page dm pid dst = Inr (True, memcpy dst 0 (disk_byte dm pid) 0 PAGE_SIZE, dm)"
proof -
  note D = dm_invD [OF inv]
  have p: "0 \<le> pid" "(pid + 1) * PAGE_SIZE \<le> f_size (db_file dm)" using pid by (simp_all add: on_disk_def)
  have "stream_read (dm_files dm) (db_io dm) (pid * PAGE_SIZE) dst PAGE_SIZE =
      (PAGE_SIZE, memcpy dst 0 (f_bytes (db_file dm)) (pid * PAGE_SIZE) PAGE_SIZE, db_io dm)"
    using D(1,2,3) p page_addr_nonneg [OF p(1)] by (intro stream_read_ok) (auto simp: algebra_simps PAGE_SIZE_def)
  moreover have "memcpy dst 0 (f_bytes (db_file dm)) (pid * PAGE_SIZE) PAGE_SIZE =
      memcpy dst 0 (disk_byte dm pid) 0 PAGE_SIZE"
    by (rule ext) (simp add: memcpy_def disk_byte_def add.commute)
  ultimately show ?thesis using D(1,5) by (simp add: read_page_def Let_def)
qed



section \<open>Rebuilding the page ids\<close>

text \<open>The state after the scan has passed the first \<open>k\<close> pages, of which \<open>S\<close> tells the allocated ones.\<close>

definition scanned :: "(int \<Rightarrow> bool) \<Rightarrow> int \<Rightarrow> disk_manager \<Rightarrow> disk_manager" where
  "scanned S k dm =
    (let A = {q. 0 \<le> q \<and> q < k \<and> S q}
     in dm\<lparr>alloced_pgid := alloced_pgid dm \<union> A, free_pgid := free_pgid dm \<union> {q. 0 \<le> q \<and> q < k \<and> \<not> S q},
           max_alloced_pgid := (if A = {} then max_alloced_pgid dm else Max A)\<rparr>)"

lemma below_Suc:
  fixes k :: int
  assumes "0 \<le> k"
  shows "{q. 0 \<le> q \<and> q < k + 1 \<and> S q} = (if S k then insert k {q. 0 \<le> q \<and> q < k \<and> S q} else {q. 0 \<le> q \<and> q < k \<and> S q})"
  using assms by (auto simp: zle_add1_eq_le order_le_less)

lemma finite_below: "finite {q::int. 0 \<le> q \<and> q < k \<and> S q}"
  by (rule finite_subset [of _ "{0..<k}"]) auto

lemma scan_page_scanned:
  assumes "0 \<le> base" "S (base + int j) \<longleftrightarrow> tmp (int j * PAGE_SIZE) AND STATUS_EXIST \<noteq> 0"
  shows "scan_page tmp base (scanned S (base + int j) dm) j = scanned S (base + int j + 1) dm"
proof -
  let ?k = "base + int j" and ?A = "{q. 0 \<le> q \<and> q < base + int j \<and> S q}"
  have k: "0 \<le> ?k" using assms(1) by simp
  have "Max (insert ?k ?A) = ?k" by (rule Max_eqI) (auto simp: finite_below)
  then show ?thesis
    using assms(2) below_Suc [OF k, of S] below_Suc [OF k, of "\<lambda>q. \<not> S q"]
    by (auto simp: scan_page_def scanned_def Let_def)
qed

lemma scan_pages_scanned:
  assumes "0 \<le> base" "\<And>j. j < n \<Longrightarrow> S (base + int j) \<longleftrightarrow> tmp (int j * PAGE_SIZE) AND STATUS_EXIST \<noteq> 0"
  shows "foldl (scan_page tmp base) (scanned S base dm) [0..<n] = scanned S (base + int n) dm"
  using assms(2)
proof (induction n)
  case (Suc n)
  then show ?case using scan_page_scanned [OF assms(1), of S n tmp dm] by (simp add: ac_simps)
qed simp

lemma div_bounds:
  fixes x c :: int
  assumes "0 < c"
  shows "(x div c) * c \<le> x" "x < (x div c) * c + c"
  using pos_mod_sign [OF assms, of x] pos_mod_bound [OF assms, of x] div_mult_mod_eq [of x c] by linarith+

lemma div_unique_bounds:
  fixes x c q :: int
  assumes "q * c \<le> x" "x < q * c + c"
  shows "x div c = q"
  using assms by (intro int_div_pos_eq [of x c q "x - q * c"]) (simp_all add: mult.commute)

lemma scanned_fields [simp]:
  "dm_files (scanned S k dm) = dm_files dm" "db_io (scanned S k dm) = db_io dm" "db_name (scanned S k dm) = db_name dm"
  by (simp_all add: scanned_def Let_def)

lemma scanned_db_io: "(scanned S k dm)\<lparr>db_io := db_io dm\<rparr> = scanned S k dm"
  by (simp add: scanned_def Let_def)

lemma scan_db_scanned:
  assumes io: "st_open (db_io dm) = Some nm" "\<not> st_fail (db_io dm)" "dm_files dm nm = Some f"
    and S: "\<And>q. S q \<longleftrightarrow> f_bytes f (q * PAGE_SIZE) AND STATUS_EXIST \<noteq> 0"
  shows "0 \<le> i \<Longrightarrow> sz = f_size f - i * READ_DB_BUF_SZ \<Longrightarrow> 0 \<le> sz \<Longrightarrow> f_size f = pages * PAGE_SIZE \<Longrightarrow>
    n = nat ((sz + READ_DB_BUF_SZ - 1) div READ_DB_BUF_SZ) \<Longrightarrow>
    scan_db n i sz tmp pid (scanned S (i * READ_DB_PG_NUM) dm) =
      Inr (True, if n = 0 then pid else pages - 1, scanned S pages dm)"
proof (induction n arbitrary: i sz tmp pid)
  case 0
  then have "(sz + 41943039) div 41943040 \<le> 0" by (simp add: config_defs)
  then have "sz = 0" using 0 div_bounds(2) [of 41943040 "sz + 41943039"] by simp
  then have "pages = i * READ_DB_PG_NUM" using 0 by (simp add: config_defs)
  then show ?case by simp
next
  case (Suc n)
  have c: "READ_DB_BUF_SZ = 41943040" "READ_DB_PG_NUM = 10240" "PAGE_SIZE = 4096" by (simp_all add: config_defs)
  have "nat ((sz + 41943039) div 41943040) = Suc n" using Suc.prems(5) by (simp add: config_defs)
  then have "int (Suc n) = (sz + 41943039) div 41943040" by linarith
  then have n1: "41943040 * int n < sz" "sz \<le> 41943040 * int n + 41943040"
    using div_bounds [of 41943040 "sz + 41943039"] by simp_all
  then have pos: "0 < sz" by linarith
  define rs where "rs = (if READ_DB_BUF_SZ \<le> sz then READ_DB_BUF_SZ else sz)"
  define k where "k = rs div 4096"
  have rs: "0 < rs" "i * READ_DB_BUF_SZ + rs \<le> f_size f" "rs = 4096 * k"
  proof -
    show "0 < rs" "i * READ_DB_BUF_SZ + rs \<le> f_size f" using pos Suc.prems(2) by (auto simp: rs_def c)
    have "sz = 4096 * (pages - i * 10240)" using Suc.prems(2,4) unfolding c by simp
    then show "rs = 4096 * k" by (auto simp: rs_def k_def c)
  qed
  let ?tmp = "memcpy tmp 0 (f_bytes f) (i * READ_DB_BUF_SZ) rs"
  have rd: "stream_read (dm_files dm) (db_io dm) (i * READ_DB_BUF_SZ) tmp rs = (rs, ?tmp, db_io dm)"
    using io rs Suc.prems(1) by (intro stream_read_ok) (simp_all add: c)
  have pages: "nat ((rs + PAGE_SIZE - 1) div PAGE_SIZE) = nat k" "0 < k" using rs by (simp_all add: c)
  have st: "S (i * READ_DB_PG_NUM + int j) \<longleftrightarrow> ?tmp (int j * PAGE_SIZE) AND STATUS_EXIST \<noteq> 0" if "j < nat k" for j
    using that rs S [of "i * 10240 + int j"] by (simp add: memcpy_def algebra_simps c zless_nat_eq_int_zless)
  have fold: "foldl (scan_page ?tmp (i * READ_DB_PG_NUM)) (scanned S (i * READ_DB_PG_NUM) dm) [0..<nat k]
      = scanned S (i * READ_DB_PG_NUM + k) dm"
    using scan_pages_scanned [of "i * READ_DB_PG_NUM" "nat k" S ?tmp dm] st pages(2) Suc.prems(1) by (simp add: c)
  have step: "scan_db (Suc n) i sz tmp pid (scanned S (i * READ_DB_PG_NUM) dm) =
      scan_db n (i + 1) (sz - READ_DB_BUF_SZ) ?tmp (i * READ_DB_PG_NUM + k - 1) (scanned S (i * READ_DB_PG_NUM + k) dm)"
    using io(2) rd pages fold by (simp add: Let_def rs_def [symmetric] scanned_db_io)
  show ?case
  proof (cases "READ_DB_BUF_SZ \<le> sz")
    case True
    then have k: "k = 10240" by (simp add: k_def rs_def c)
    have "(sz - READ_DB_BUF_SZ + READ_DB_BUF_SZ - 1) div READ_DB_BUF_SZ = int n"
      using n1 by (intro div_unique_bounds) (simp_all add: c)
    then have n2: "n = nat ((sz - READ_DB_BUF_SZ + READ_DB_BUF_SZ - 1) div READ_DB_BUF_SZ)" by simp
    have "scan_db n (i + 1) (sz - READ_DB_BUF_SZ) ?tmp (i * READ_DB_PG_NUM + k - 1)
        (scanned S ((i + 1) * READ_DB_PG_NUM) dm) =
        Inr (True, if n = 0 then i * READ_DB_PG_NUM + k - 1 else pages - 1, scanned S pages dm)"
      by (rule Suc.IH [OF _ _ _ Suc.prems(4) n2]) (use Suc.prems(1,2) True in \<open>simp_all add: algebra_simps\<close>)
    moreover have "i * READ_DB_PG_NUM + k = pages" if "n = 0"
    proof -
      have "int n = 0" using that by simp
      then show ?thesis using n1 True Suc.prems(2,4) k unfolding c by linarith
    qed
    ultimately show ?thesis using step k by (simp add: algebra_simps c)
  next
    case False
    then have "n = 0" using n1 pos c by linarith
    moreover have "i * READ_DB_PG_NUM + k = pages"
      using False rs(3) Suc.prems(2,4) by (simp add: rs_def c)
    ultimately show ?thesis using step by simp
  qed
qed


lemma scanned_0: "scanned S 0 dm = dm"
proof -
  have e: "{q::int. 0 \<le> q \<and> q < 0 \<and> P q} = {}" for P by auto
  show ?thesis unfolding scanned_def Let_def e by simp
qed

lemma rebuild_pgids_spec:
  assumes io: "st_open (db_io dm) = Some (db_name dm)" "\<not> st_fail (db_io dm)" "dm_files dm (db_name dm) = Some f"
    and sz: "f_size f = pages * PAGE_SIZE" "0 \<le> pages" "pages \<le> max_ava_pgid dm"
    and fresh: "alloced_pgid dm = {}" "free_pgid dm = {}"
    and S: "\<And>q. S q \<longleftrightarrow> f_bytes f (q * PAGE_SIZE) AND STATUS_EXIST \<noteq> 0"
    and A: "A = {q. 0 \<le> q \<and> q < pages \<and> S q}"
  shows "rebuild_pgids pid0 tmp dm =
    Inr (dm\<lparr>alloced_pgid := A, free_pgid := {0..<max_ava_pgid dm} - A, dm_status := True,
            max_alloced_pgid := (if pages = 0 then - 1 else if A = {} then max_alloced_pgid dm else Max A)\<rparr>)"
proof (cases "pages = 0")
  case True
  have gs: "get_file_sz (dm_files dm) (db_io dm) = 0" using io sz True by (simp add: get_file_sz_def)
  have "A = {}" using A True by auto
  then show ?thesis using gs True fresh by (simp add: rebuild_pgids_def)
next
  case False
  have gs: "get_file_sz (dm_files dm) (db_io dm) = pages * PAGE_SIZE"
    using io sz by (simp add: get_file_sz_def)
  have p: "0 < pages" using False sz(2) by simp
  have "scanned S 0 dm = dm" by (rule scanned_0)
  moreover have "0 < (pages * PAGE_SIZE + READ_DB_BUF_SZ - 1) div READ_DB_BUF_SZ"
    using p by (simp add: config_defs pos_imp_zdiv_pos_iff)
  ultimately have run: "scan_db (nat ((pages * PAGE_SIZE + READ_DB_BUF_SZ - 1) div READ_DB_BUF_SZ)) 0 (pages * PAGE_SIZE) tmp pid0 dm
      = Inr (True, pages - 1, scanned S pages dm)"
    using scan_db_scanned [OF io S, of 0 "pages * PAGE_SIZE" pages _ tmp pid0] sz(1) page_addr_nonneg [OF sz(2)]
    by (simp only: mult_zero_left diff_zero) simp
  have nz: "pages * PAGE_SIZE \<noteq> 0" "pages * PAGE_SIZE \<noteq> - 1" using p by (auto simp: config_defs)
  have free: "{q. 0 \<le> q \<and> q < pages \<and> \<not> S q} \<union> {pages..<max_ava_pgid dm} = {0..<max_ava_pgid dm} - A"
    using A sz(2,3) by auto
  have sc: "scanned S pages dm = dm\<lparr>alloced_pgid := A, free_pgid := {q. 0 \<le> q \<and> q < pages \<and> \<not> S q},
      max_alloced_pgid := (if A = {} then max_alloced_pgid dm else Max A)\<rparr>"
    unfolding scanned_def Let_def fresh A by simp
  show ?thesis
    unfolding rebuild_pgids_def gs Let_def run using nz free False by (simp add: sc)
qed


section \<open>The meta data file\<close>

lemma fill_char_array_at:
  "get_bytes (fill_char_array s m a) a (int (length s)) = str_bytes s"
  "fill_char_array s m a (a + int (length s)) = 0"
proof -
  have "get_bytes (fill_char_array s m a) a (int (length s)) = get_bytes (put_bytes m a (str_bytes s)) a (int (length s))"
    by (rule get_bytes_cong) (simp add: fill_char_array_def)
  then show "get_bytes (fill_char_array s m a) a (int (length s)) = str_bytes s" by simp
qed (simp add: fill_char_array_def)

lemma fill_char_array_other [mem_simps]:
  "i < a \<or> a + int (length s) + 1 \<le> i \<Longrightarrow> fill_char_array s m a i = m i"
  by (auto simp: fill_char_array_def put_bytes_other)

lemma rd32_fill_other [mem_simps]:
  "c + 4 \<le> a \<or> a + int (length s) + 1 \<le> c \<Longrightarrow> rd32 (fill_char_array s m a) c = rd32 m c"
  by (rule rd32_cong) (auto simp: fill_char_array_other)

lemma read_cstring_cong:
  assumes "\<And>i. a \<le> i \<Longrightarrow> i < limit \<Longrightarrow> m i = m' i"
  shows "read_cstring m a limit = read_cstring m' a limit"
proof -
  have f: "find (\<lambda>k. m (a + int k) = 0) [0..<nat (limit - a)] = find (\<lambda>k. m' (a + int k) = 0) [0..<nat (limit - a)]"
    using assms by (intro find_cong_set) auto
  have "get_bytes m a (int k) = get_bytes m' a (int k)" if "k < nat (limit - a)" for k
    using that assms by (intro get_bytes_cong) auto
  note g = this
  show ?thesis
  proof (cases "find (\<lambda>k. m' (a + int k) = 0) [0..<nat (limit - a)]")
    case (Some k)
    then have "k < nat (limit - a)" by (simp add: find_upt_Some)
    with g Some show ?thesis by (simp add: read_cstring_def f)
  qed (simp add: read_cstring_def f)
qed

lemmas meta_at_defs = log_name_sz_at_def max_ava_at_def reserved_at_def OFFSET_T_SIZE_def PGID_T_SIZE_def

lemma meta_image_fields:
  fixes dm
  defines "a \<equiv> int (length (db_name dm))" and "b \<equiv> int (length (log_name dm))"
  assumes nm: "CHR 0x00 \<notin> set (db_name dm)" "CHR 0x00 \<notin> set (log_name dm)"
    and r: "in32 (max_ava_pgid dm)" "in32 (catalog_page_id dm)" "reserved_at a b + 128 \<le> sz" "sz \<le> 2147483647"
    and cp: "\<And>i. 0 \<le> i \<Longrightarrow> i < sz \<Longrightarrow> m' i = meta_image dm m i"
  shows "rd_buf m' sz 0 = Inr a" "read_cstring m' OFFSET_T_SIZE sz = Inr (db_name dm)"
    "rd_buf m' sz (log_name_sz_at a) = Inr b"
    "read_cstring m' (log_name_sz_at a + OFFSET_T_SIZE) sz = Inr (log_name dm)"
    "rd_buf m' sz (max_ava_at a b) = Inr (max_ava_pgid dm)"
    "rd_buf m' sz (max_ava_at a b + PGID_T_SIZE) = Inr (catalog_page_id dm)"
proof -
  have pos: "0 \<le> a" "0 \<le> b" by (simp_all add: a_def b_def)
  have rd: "rd_buf m' sz x = Inr (rd32 (meta_image dm m) x)" if "0 \<le> x" "x + 4 \<le> sz" for x
    using that cp by (auto simp: rd_buf_def intro!: rd32_cong)
  have im: "meta_image dm m = memset (wr32 (wr32 (fill_char_array (log_name dm) (wr32 (fill_char_array (db_name dm)
      (wr32 m 0 a) 4) (5 + a) b) (9 + a)) (10 + (a + b)) (max_ava_pgid dm)) (14 + (a + b)) (catalog_page_id dm)) (18 + (a + b)) 0 128"
    by (simp add: meta_image_def Let_def meta_at_defs a_def b_def)
  have len: "int (length (db_name dm)) = a" "int (length (log_name dm)) = b" by (simp_all add: a_def b_def)
  have ab: "in32 a" "in32 b" using r(3,4) pos by (simp_all add: in32_def meta_at_defs)
  have bnd: "a + b + 146 \<le> sz" using r(3) by (simp add: meta_at_defs)
  show "rd_buf m' sz 0 = Inr a" "rd_buf m' sz (log_name_sz_at a) = Inr b"
    "rd_buf m' sz (max_ava_at a b) = Inr (max_ava_pgid dm)"
    "rd_buf m' sz (max_ava_at a b + PGID_T_SIZE) = Inr (catalog_page_id dm)"
    using bnd pos ab r(1,2) by (simp_all add: rd im meta_at_defs mem_simps len)
  have str: "read_cstring m' x sz = Inr s"
    if "CHR 0x00 \<notin> set s" "0 \<le> x" "x + int (length s) < sz"
      "\<And>i. x \<le> i \<Longrightarrow> i \<le> x + int (length s) \<Longrightarrow> m' i = fill_char_array s n x i" for s x n
  proof (rule read_cstring_put [OF that(1,3)])
    show "m' (x + int (length s)) = 0" using that(4) fill_char_array_at(2) by simp
    have "get_bytes m' x (int (length s)) = get_bytes (fill_char_array s n x) x (int (length s))"
      by (rule get_bytes_cong) (simp add: that(4))
    then show "get_bytes m' x (int (length s)) = str_bytes s" by (simp add: fill_char_array_at)
  qed
  show "read_cstring m' OFFSET_T_SIZE sz = Inr (db_name dm)"
    using bnd pos by (intro str [where n = "wr32 m 0 a"] nm)
      (simp_all add: cp im mem_simps len OFFSET_T_SIZE_def)
  show "read_cstring m' (log_name_sz_at a + OFFSET_T_SIZE) sz = Inr (log_name dm)"
    using bnd pos
    by (intro str [where n = "wr32 (fill_char_array (db_name dm) (wr32 m 0 a) 4) (5 + a) b"] nm)
      (simp_all add: cp im mem_simps len meta_at_defs)
qed



section \<open>Create, use, close, open again\<close>

definition name_ok :: "string \<Rightarrow> bool" where
  "name_ok name \<longleftrightarrow> CHR 0x00 \<notin> set name \<and> 2 * int (length name) + 153 \<le> 512"

definition dm_live :: "string \<Rightarrow> disk_manager \<Rightarrow> bool" where
  "dm_live name dm \<longleftrightarrow>
    dm_inv dm \<and> dm_sync dm \<and> dm_status dm \<and>
    meta_name dm = name @ ''.mtd'' \<and> db_name dm = name @ ''.db'' \<and> log_name dm = name @ ''.log'' \<and>
    st_open (meta_io dm) = Some (meta_name dm) \<and> \<not> st_fail (meta_io dm) \<and> meta_buffer dm \<noteq> None \<and>
    buffer_size dm = 512 \<and> (\<exists>mf. dm_files dm (meta_name dm) = Some mf \<and> f_size mf \<le> 512) \<and>
    dm_files dm (log_name dm) \<noteq> None \<and> in32 (catalog_page_id dm) \<and> catalog_page_id dm \<in> alloced_pgid dm \<and>
    \<not> dm_deny dm (meta_name dm) \<and> \<not> dm_deny dm (db_name dm) \<and> \<not> dm_deny dm (log_name dm)"

lemma dm_live_frame:
  assumes "dm_live name dm" "dm_frame dm dm'" "dm_inv dm'" "dm_sync dm'" "catalog_page_id dm \<in> alloced_pgid dm'"
  shows "dm_live name dm'"
  using assms by (auto simp: dm_live_def dm_frame_def)

lemma name_ok_reserved:
  "name_ok name \<Longrightarrow>
   reserved_at (int (length (name @ ''.db''))) (int (length (name @ ''.log''))) + 128 \<le> 512"
  by (simp add: name_ok_def meta_at_defs)

lemma write_meta_data_spec:
  assumes "name_ok name" "db_name dm = name @ ''.db''" "log_name dm = name @ ''.log''"
    "meta_buffer dm = Some m" "buffer_size dm = 512" "st_open (meta_io dm) = Some nm" "\<not> st_fail (meta_io dm)"
    "dm_files dm nm = Some f"
  shows "write_meta_data dm = Inr (True, dm\<lparr>meta_buffer := Some (meta_image dm m),
    dm_files := (dm_files dm)(nm \<mapsto> file_write f 0 (meta_image dm m) 512)\<rparr>)"
  using assms name_ok_reserved [OF assms(1)]
  by (simp add: write_meta_data_def Let_def stream_write_ok [of _ nm _ _ f])

lemma from_scratch_spec:
  assumes ok: "name_ok name" and none: "files (name @ ''.mtd'') = None" "files (name @ ''.db'') = None" "files (name @ ''.log'') = None"
    and deny: "\<not> deny (name @ ''.mtd'')" "\<not> deny (name @ ''.db'')" "\<not> deny (name @ ''.log'')"
  shows "\<exists>dm. DiskManager files deny u pb buf name True = Inr dm \<and> dm_live name dm \<and>
    alloced_pgid dm = {0} \<and> free_pgid dm = {1..<100} \<and> catalog_page_id dm = 0 \<and> max_ava_pgid dm = 100 \<and>
    page_buf dm = pb(0 := STATUS_EXIST) \<and> (\<forall>pid. on_disk dm pid \<longleftrightarrow> pid = 0) \<and>
    (\<forall>a. 0 \<le> a \<and> a < PAGE_SIZE \<longrightarrow> disk_byte dm 0 a = (pb(0 := STATUS_EXIST)) a) \<and> dm_deny dm = deny"
proof -
  define fs where "fs = files(name @ ''.mtd'' \<mapsto> empty_file, name @ ''.db'' \<mapsto> empty_file, name @ ''.log'' \<mapsto> empty_file)"
  define d0 where "d0 = (dm_start files deny u pb name)\<lparr>
      meta_io := \<lparr>st_open = Some (name @ ''.mtd''), st_fail = False\<rparr>,
      db_io := \<lparr>st_open = Some (name @ ''.db''), st_fail = False\<rparr>,
      log_io := \<lparr>st_open = Some (name @ ''.log''), st_fail = False\<rparr>, dm_files := fs,
      max_ava_pgid := 100, max_alloced_pgid := - 1, free_pgid := {0..<100}, meta_buffer := Some buf, buffer_size := 512\<rparr>"
  have f0: "db_file d0 = empty_file" by (simp add: d0_def db_file_def dm_start_def fs_def)
  have inv0: "dm_inv d0"
    by (simp add: dm_inv_def f0) (simp add: d0_def dm_start_def fs_def empty_file_def in32_def PAGE_SIZE_def)
  have next0: "next_pgid d0 = 0"
    by (simp add: d0_def next_pgid_def) (intro Min_eqI, auto)
  have "free_pgid d0 \<noteq> {}" "alloced_pgid d0 = {}" "max_ava_pgid d0 = 100" by (simp_all add: d0_def dm_start_def)
  then obtain d1 where d1: "alloc_page d0 STATUS_EXIST = Inr (0, d1)" "dm_inv d1" "dm_frame d0 d1" "alloced_pgid d1 = {0}"
      "disk_byte d1 0 0 = STATUS_EXIST" "\<forall>pid. on_disk d1 pid \<longleftrightarrow> on_disk d0 pid \<or> pid = 0" and ava: "max_ava_pgid d1 = 100"
      and pb: "page_buf d1 = (page_buf d0)(0 := STATUS_EXIST)"
        "\<forall>a. 0 \<le> a \<and> a < PAGE_SIZE \<longrightarrow> disk_byte d1 0 a = ((page_buf d0)(0 := STATUS_EXIST)) a"
    using alloc_page_spec [OF inv0, of STATUS_EXIST, unfolded next0] by (auto simp: in32_def)
  have pb0: "page_buf d0 = pb" by (simp add: d0_def dm_start_def)
  have off: "\<not> on_disk d0 pid" for pid by (simp add: on_disk_def f0 empty_file_def PAGE_SIZE_def)
  then have sync: "dm_sync d1" using d1(4,5,6) by (auto simp: dm_sync_def STATUS_EXIST_def)
  let ?d2 = "d1\<lparr>catalog_page_id := 0\<rparr>"
  note F = d1(3) [unfolded dm_frame_def]
  have "dm_files d1 (name @ ''.mtd'') = Some empty_file"
    using F by (simp add: d0_def dm_start_def fs_def)
  then have wm: "write_meta_data ?d2 = Inr (True, ?d2\<lparr>meta_buffer := Some (meta_image ?d2 buf),
      dm_files := (dm_files d1)(name @ ''.mtd'' \<mapsto> file_write empty_file 0 (meta_image ?d2 buf) 512)\<rparr>)"
    using F write_meta_data_spec [OF ok, of ?d2 buf "name @ ''.mtd''" empty_file]
    by (simp add: d0_def dm_start_def)
  define d3 where "d3 = ?d2\<lparr>meta_buffer := Some (meta_image ?d2 buf), dm_status := True,
      dm_files := (dm_files d1)(name @ ''.mtd'' \<mapsto> file_write empty_file 0 (meta_image ?d2 buf) 512)\<rparr>"
  have run: "DiskManager files deny u pb buf name True = Inr d3"
    using none deny d1(1) wm
    by (simp add: DiskManager_def from_scratch_def check_inexistence_def open_file_def dm_start_def Let_def
        get_new_page_def d0_def fs_def d3_def fun_upd_twist)
  have nd: "db_name d1 = name @ ''.db''" using F by (simp add: d0_def dm_start_def)
  have f3: "db_file d3 = db_file d1" using nd by (simp add: db_file_def d3_def)
  have o3: "on_disk d3 pid = on_disk d1 pid" "disk_byte d3 pid a = disk_byte d1 pid a" for pid a
    by (simp_all add: on_disk_def disk_byte_def f3)
  have i3: "dm_inv d3" using d1(2) nd by (simp add: dm_inv_def f3 o3) (auto simp: d3_def)
  have s3: "dm_sync d3" using sync by (simp add: dm_sync_def o3) (simp add: d3_def)
  have "dm_live name d3"
    using i3 s3 F d1(4) deny by (simp add: dm_live_def) (simp add: d3_def d0_def dm_start_def fs_def in32_def empty_file_def)
  moreover have "free_pgid d1 = {1..<100}"
  proof -
    have "free_pgid d1 \<union> {0} = {0..<100}" "free_pgid d1 \<inter> {0} = {}"
      using dm_invD(11,12) [OF d1(2)] d1(4) ava by simp_all
    then have "q \<in> free_pgid d1 \<longleftrightarrow> q \<in> {0..<100} \<and> q \<noteq> 0" for q by blast
    then show ?thesis by (intro set_eqI) (simp only: atLeastLessThan_iff, arith)
  qed
  moreover have "page_buf d3 = pb(0 := STATUS_EXIST)" using pb(1) pb0 by (simp add: d3_def)
  moreover have "on_disk d3 pid \<longleftrightarrow> pid = 0" for pid using o3(1) d1(6) off by simp
  moreover have "disk_byte d3 0 a = (pb(0 := STATUS_EXIST)) a" if "0 \<le> a" "a < PAGE_SIZE" for a
    using o3(2) pb(2) pb0 that by simp
  moreover have "dm_deny d3 = deny" using F by (simp add: d3_def d0_def dm_start_def)
  ultimately show ?thesis using run d1(4) ava by (intro exI [of _ d3]) (simp add: d3_def)
qed


lemma disk_reopen:
  assumes live: "dm_live name dm" and ok: "name_ok name"
  shows "\<exists>dm1 dm2. shutdown dm = Inr dm1 \<and>
    DiskManager (dm_files dm1) (dm_deny dm) u pb buf name False = Inr dm2 \<and> dm_live name dm2 \<and>
    alloced_pgid dm2 = alloced_pgid dm \<and> free_pgid dm2 = free_pgid dm \<and> max_ava_pgid dm2 = max_ava_pgid dm \<and>
    max_alloced_pgid dm2 = max_alloced_pgid dm \<and> catalog_page_id dm2 = catalog_page_id dm \<and>
    (\<forall>pid a. disk_byte dm2 pid a = disk_byte dm pid a) \<and> (\<forall>pid. on_disk dm2 pid \<longleftrightarrow> on_disk dm pid) \<and>
    page_buf dm2 = pb \<and> dm_deny dm2 = dm_deny dm"
proof -
  note L = live [unfolded dm_live_def]
  note D = dm_invD [OF conjunct1 [OF L]]
  let ?mn = "name @ ''.mtd''" and ?dn = "name @ ''.db''" and ?ln = "name @ ''.log''"
  obtain m mf where m: "meta_buffer dm = Some m" and mf: "dm_files dm ?mn = Some mf" "f_size mf \<le> 512"
    using L by auto
  have cn: "CHR 0x00 \<notin> set name" using ok by (simp add: name_ok_def)
  define im where "im = meta_image dm m"
  define f' where "f' = file_write mf 0 im 512"
  define fs where "fs = (dm_files dm)(?mn \<mapsto> f')"
  have wm: "write_meta_data dm = Inr (True, dm\<lparr>meta_buffer := Some im, dm_files := fs\<rparr>)"
    using write_meta_data_spec [OF ok, of dm m ?mn mf] L m mf by (simp add: im_def f'_def fs_def)
  obtain dm1 where dm1: "shutdown dm = Inr dm1" "dm_files dm1 = fs"
    using wm L by (simp add: shutdown_def)
  let ?s = "dm_start fs (dm_deny dm) u pb name"
  let ?m' = "memcpy buf 0 (f_bytes f') 0 512"
  have sz: "f_size f' = 512" using mf by (simp add: f'_def)
  have cp: "?m' i = im i" if "0 \<le> i" "i < 512" for i
    using that by (simp add: memcpy_def f'_def file_write_def)
  have names: "fs ?mn = Some f'" "fs ?dn = Some (db_file dm)" "fs ?ln = dm_files dm ?ln"
    using D(3) L by (simp_all add: fs_def)
  let ?a = "int (length ?dn)" and ?b = "int (length ?ln)"
  have flds: "rd_buf ?m' 512 0 = Inr ?a" "read_cstring ?m' OFFSET_T_SIZE 512 = Inr ?dn"
      "rd_buf ?m' 512 (log_name_sz_at ?a) = Inr ?b" "read_cstring ?m' (log_name_sz_at ?a + OFFSET_T_SIZE) 512 = Inr ?ln"
      "rd_buf ?m' 512 (max_ava_at ?a ?b) = Inr (max_ava_pgid dm)"
      "rd_buf ?m' 512 (max_ava_at ?a ?b + PGID_T_SIZE) = Inr (catalog_page_id dm)"
    using meta_image_fields [of dm 512 ?m' m] L D(10) cn name_ok_reserved [OF ok] cp by (simp_all add: im_def)
  define s' where "s' = ?s\<lparr>meta_io := \<lparr>st_open = Some ?mn, st_fail = False\<rparr>, buffer_size := 512, meta_buffer := Some ?m',
      db_io := \<lparr>st_open = Some ?dn, st_fail = False\<rparr>, log_io := \<lparr>st_open = Some ?ln, st_fail = False\<rparr>,
      max_ava_pgid := max_ava_pgid dm, catalog_page_id := catalog_page_id dm\<rparr>"
  have rd: "stream_read fs \<lparr>st_open = Some ?mn, st_fail = False\<rparr> 0 buf 512
      = (512, ?m', \<lparr>st_open = Some ?mn, st_fail = False\<rparr>)"
    by (rule stream_read_ok) (use names sz in simp_all)
  obtain lf where free: "\<not> dm_deny dm ?mn" "\<not> dm_deny dm ?dn" "\<not> dm_deny dm ?ln" "dm_files dm ?ln = Some lf"
    using L by auto
  have mtd: "DiskManager fs (dm_deny dm) u pb buf name False = rebuild_pgids u buf s'"
    using free names sz rd flds
    by (simp add: DiskManager_def from_mtd_def Let_def dm_start_def open_file_def get_file_sz_def s'_def)
  define pages where "pages = f_size (db_file dm) div PAGE_SIZE"
  have pg: "f_size (db_file dm) = pages * PAGE_SIZE" "0 \<le> pages" "pages \<le> max_ava_pgid dm"
    using D(6,7,8) unfolding pages_def by (auto simp: PAGE_SIZE_def)
  have on: "on_disk dm q \<longleftrightarrow> 0 \<le> q \<and> q < pages" for q
    by (auto simp: on_disk_def pg(1) PAGE_SIZE_def)
  have A: "alloced_pgid dm = {q. 0 \<le> q \<and> q < pages \<and> f_bytes (db_file dm) (q * PAGE_SIZE) AND STATUS_EXIST \<noteq> 0}"
    using L D(13) on by (auto simp: dm_sync_def disk_byte_def)
  have ne: "alloced_pgid dm \<noteq> {}" and p0: "pages \<noteq> 0" using L A by auto
  define dm2 where "dm2 = s'\<lparr>alloced_pgid := alloced_pgid dm, free_pgid := {0..<max_ava_pgid dm} - alloced_pgid dm,
      dm_status := True, max_alloced_pgid := Max (alloced_pgid dm)\<rparr>"
  have s': "st_open (db_io s') = Some (db_name s')" "\<not> st_fail (db_io s')" "dm_files s' (db_name s') = Some (db_file dm)"
      "pages \<le> max_ava_pgid s'" "alloced_pgid s' = {}" "free_pgid s' = {}" "max_ava_pgid s' = max_ava_pgid dm"
    using names(2) pg(3) by (simp_all add: s'_def dm_start_def)
  have re: "rebuild_pgids u buf s' = Inr dm2"
    unfolding dm2_def
    using rebuild_pgids_spec [OF s'(1,2,3) pg(1,2) s'(4,5,6) refl A, of u buf] ne p0 s'(7) by simp
  have fr: "free_pgid dm = {0..<max_ava_pgid dm} - alloced_pgid dm" using D(11,12) by blast
  have f2: "db_file dm2 = db_file dm" using names by (simp add: db_file_def dm2_def s'_def dm_start_def)
  have o2: "on_disk dm2 q = on_disk dm q" "disk_byte dm2 q a = disk_byte dm q a" for q a
    by (simp_all add: on_disk_def disk_byte_def f2)
  have sub: "alloced_pgid dm \<subseteq> {0..<max_ava_pgid dm}" using D(11) by blast
  have i2: "dm_inv dm2"
    unfolding dm_inv_def f2
  proof (intro conjI)
    show "\<forall>pid\<in>alloced_pgid dm2. on_disk dm2 pid" using D(13) o2 by (simp add: dm2_def)
    show "free_pgid dm2 \<union> alloced_pgid dm2 = {0..<max_ava_pgid dm2}" "free_pgid dm2 \<inter> alloced_pgid dm2 = {}"
      using sub by (auto simp: dm2_def s'_def)
    show "dm_files dm2 (db_name dm2) \<noteq> None" using names by (simp add: dm2_def s'_def dm_start_def)
  qed (use D(6,7,8,9,10) ne in \<open>simp_all add: dm2_def s'_def dm_start_def\<close>)
  have "dm_sync dm2" using L by (simp add: dm_sync_def o2) (simp add: dm2_def)
  then have "dm_live name dm2"
    using i2 free names sz L by (simp add: dm_live_def) (simp add: dm2_def s'_def dm_start_def)
  moreover have "max_alloced_pgid dm = Max (alloced_pgid dm)" using D(14) ne by simp
  ultimately show ?thesis
    using dm1 mtd re fr o2 by (intro exI [of _ dm1] exI [of _ dm2]) (simp add: dm2_def s'_def dm_start_def)
qed

end
