(* ===== verification/Disk_Pages.thy ===== *)
theory Disk_Pages
  imports Disk_Manager
begin

unbundle bit_operations_syntax

text \<open>
  What the storage above relies on when it uses the disk manager: a list of page images in which free
  pages are holes.  The locale \<open>page_disk\<close> is that contract: an allocation fills the first hole, a
  write replaces one image, a free makes a hole, a read returns the image.  Its lemmas run whole
  sequences of operations; the interpretation discharges the laws for the disk manager.
\<close>

type_synonym page_image = "byte list"

fun put_first :: "'a \<Rightarrow> 'a option list \<Rightarrow> 'a option list" where
  "put_first b [] = [Some b]"
| "put_first b (None # xs) = Some b # xs"
| "put_first b (Some a # xs) = Some a # put_first b xs"

definition gap :: "'a option list \<Rightarrow> nat" where
  "gap xs = length (takeWhile (\<lambda>x. x \<noteq> None) xs)"

lemma gap_simps [simp]: "gap [] = 0" "gap (None # xs) = 0" "gap (Some a # xs) = Suc (gap xs)"
  by (simp_all add: gap_def)

lemma gap_le: "gap xs \<le> length xs"
  by (simp add: gap_def length_takeWhile_le)

lemma put_first_gap:
  "put_first b xs = (if gap xs < length xs then xs[gap xs := Some b] else xs @ [Some b])"
  by (induction b xs rule: put_first.induct) auto

lemma length_put_first: "length (put_first b xs) = max (length xs) (Suc (gap xs))"
  using gap_le [of xs] by (simp add: put_first_gap)

lemma gap_eqI:
  assumes "\<And>i. i < k \<Longrightarrow> i < length xs \<and> xs ! i \<noteq> None" "k < length xs \<Longrightarrow> xs ! k = None"
  shows "gap xs = k"
proof -
  have "takeWhile (\<lambda>x. x \<noteq> None) xs = take k xs"
    using assms by (intro takeWhile_eq_take_P_nth) auto
  moreover have "k \<le> length xs" using assms(1) [of "k - 1"] by (cases k) auto
  ultimately show ?thesis by (simp add: gap_def)
qed

datatype disk_op = AllocPage | FreePage int | WritePage int mem

definition disk_exec :: "('d \<Rightarrow> (int \<times> 'd) result) \<Rightarrow> ('d \<Rightarrow> int \<Rightarrow> (bool \<times> 'd) result) \<Rightarrow>
    ('d \<Rightarrow> int \<Rightarrow> mem \<Rightarrow> (bool \<times> 'd) result) \<Rightarrow> 'd \<Rightarrow> disk_op \<Rightarrow> 'd result" where
  "disk_exec alloc free wr d op =
    (case op of
       AllocPage \<Rightarrow> bindR (alloc d) (\<lambda>(_, d). Inr d)
     | FreePage p \<Rightarrow> bindR (free d p) (\<lambda>(_, d). Inr d)
     | WritePage p m \<Rightarrow> bindR (wr d p m) (\<lambda>(_, d). Inr d))"

fun disk_run :: "('d \<Rightarrow> (int \<times> 'd) result) \<Rightarrow> ('d \<Rightarrow> int \<Rightarrow> (bool \<times> 'd) result) \<Rightarrow>
    ('d \<Rightarrow> int \<Rightarrow> mem \<Rightarrow> (bool \<times> 'd) result) \<Rightarrow> 'd \<Rightarrow> disk_op list \<Rightarrow> 'd result" where
  "disk_run alloc free wr d [] = Inr d"
| "disk_run alloc free wr d (op # ops) = bindR (disk_exec alloc free wr d op) (\<lambda>d. disk_run alloc free wr d ops)"

text \<open>
  The specification.  An operation is in order when an allocation stays below the page number whose
  address no longer fits an \<^verbatim>\<open>int\<close>, a freed or written page is allocated, page 0 (the catalog) is not
  freed and a written image carries the status bit of a page in use.
\<close>

definition PAGE_LIMIT :: nat where
  "PAGE_LIMIT = 524288"

fun image_step :: "page_image \<Rightarrow> page_image option list \<Rightarrow> disk_op \<Rightarrow> page_image option list" where
  "image_step blank v AllocPage = put_first blank v"
| "image_step blank v (FreePage p) = v[nat p := None]"
| "image_step blank v (WritePage p m) = v[nat p := Some (get_bytes m 0 PAGE_SIZE)]"

fun op_ok :: "page_image option list \<Rightarrow> disk_op \<Rightarrow> bool" where
  "op_ok v AllocPage \<longleftrightarrow> gap v < PAGE_LIMIT"
| "op_ok v (FreePage p) \<longleftrightarrow> 0 < p \<and> nat p < length v \<and> v ! nat p \<noteq> None"
| "op_ok v (WritePage p m) \<longleftrightarrow> 0 \<le> p \<and> nat p < length v \<and> v ! nat p \<noteq> None \<and> m 0 AND STATUS_EXIST \<noteq> 0"

fun disk_ops_ok :: "page_image \<Rightarrow> page_image option list \<Rightarrow> disk_op list \<Rightarrow> bool" where
  "disk_ops_ok blank v [] \<longleftrightarrow> True"
| "disk_ops_ok blank v (op # ops) \<longleftrightarrow> op_ok v op \<and> disk_ops_ok blank (image_step blank v op) ops"

locale page_disk =
  fixes alloc :: "'d \<Rightarrow> (int \<times> 'd) result"
    and free :: "'d \<Rightarrow> int \<Rightarrow> (bool \<times> 'd) result"
    and wr :: "'d \<Rightarrow> int \<Rightarrow> mem \<Rightarrow> (bool \<times> 'd) result"
    and rd :: "'d \<Rightarrow> int \<Rightarrow> mem \<Rightarrow> (bool \<times> mem \<times> 'd) result"
    and live :: "'d \<Rightarrow> bool"
    and view :: "'d \<Rightarrow> page_image option list"
    and blank :: page_image
  assumes alloc_law: "live d \<Longrightarrow> op_ok (view d) AllocPage \<Longrightarrow>
      \<exists>d'. alloc d = Inr (int (gap (view d)), d') \<and> live d' \<and> view d' = image_step blank (view d) AllocPage"
    and free_law: "live d \<Longrightarrow> op_ok (view d) (FreePage p) \<Longrightarrow>
      \<exists>d'. free d p = Inr (True, d') \<and> live d' \<and> view d' = image_step blank (view d) (FreePage p)"
    and write_law: "live d \<Longrightarrow> op_ok (view d) (WritePage p m) \<Longrightarrow>
      \<exists>d'. wr d p m = Inr (True, d') \<and> live d' \<and> view d' = image_step blank (view d) (WritePage p m)"
    and read_law: "live d \<Longrightarrow> 0 \<le> p \<Longrightarrow> nat p < length (view d) \<Longrightarrow> view d ! nat p = Some im \<Longrightarrow>
      rd d p dst = Inr (True, put_bytes dst 0 im, d)"
begin

lemma exec_refines:
  "live d \<Longrightarrow> op_ok (view d) op \<Longrightarrow>
   \<exists>d'. disk_exec alloc free wr d op = Inr d' \<and> live d' \<and> view d' = image_step blank (view d) op"
  using alloc_law [of d] free_law [of d] write_law [of d] by (cases op) (fastforce simp: disk_exec_def)+

lemma run_refines:
  "live d \<Longrightarrow> disk_ops_ok blank (view d) ops \<Longrightarrow>
   \<exists>d'. disk_run alloc free wr d ops = Inr d' \<and> live d' \<and> view d' = foldl (image_step blank) (view d) ops"
proof (induction ops arbitrary: d)
  case (Cons op ops)
  then obtain d1 where d1: "disk_exec alloc free wr d op = Inr d1" "live d1" "view d1 = image_step blank (view d) op"
    using exec_refines [of d op] by auto
  then show ?case using Cons.IH [of d1] Cons.prems(2) by simp
qed simp

lemma read_after_write:
  assumes "live d" "op_ok (view d) (WritePage p m)"
  shows "\<exists>d'. wr d p m = Inr (True, d') \<and> rd d' p dst = Inr (True, put_bytes dst 0 (get_bytes m 0 PAGE_SIZE), d') \<and>
    (\<forall>q im. q \<noteq> p \<and> 0 \<le> q \<and> nat q < length (view d) \<and> view d ! nat q = Some im \<longrightarrow>
       rd d' q dst = Inr (True, put_bytes dst 0 im, d'))"
proof -
  obtain d' where d': "wr d p m = Inr (True, d')" "live d'" "view d' = (view d)[nat p := Some (get_bytes m 0 PAGE_SIZE)]"
    using write_law [OF assms] by auto
  have "rd d' p dst = Inr (True, put_bytes dst 0 (get_bytes m 0 PAGE_SIZE), d')"
    using assms(2) d' by (intro read_law) auto
  moreover have "rd d' q dst = Inr (True, put_bytes dst 0 im, d')"
    if "q \<noteq> p" "0 \<le> q" "nat q < length (view d)" "view d ! nat q = Some im" for q im
    using that assms(2) d' by (intro read_law) auto
  ultimately show ?thesis using d'(1) by blast
qed

end


section \<open>The disk manager is such a disk\<close>

definition n_pages :: "disk_manager \<Rightarrow> nat" where
  "n_pages dm = nat (f_size (db_file dm) div PAGE_SIZE)"

definition page_at :: "disk_manager \<Rightarrow> nat \<Rightarrow> page_image option" where
  "page_at dm i = (if int i \<in> alloced_pgid dm then Some (get_bytes (disk_byte dm (int i)) 0 PAGE_SIZE) else None)"

definition disk_view :: "disk_manager \<Rightarrow> page_image option list" where
  "disk_view dm = map (page_at dm) [0..<n_pages dm]"

definition blank_page :: "mem \<Rightarrow> page_image" where
  "blank_page pb = get_bytes (pb(0 := STATUS_EXIST)) 0 PAGE_SIZE"

definition disk_live :: "string \<Rightarrow> (string \<Rightarrow> bool) \<Rightarrow> mem \<Rightarrow> disk_manager \<Rightarrow> bool" where
  "disk_live name deny pb dm \<longleftrightarrow>
    dm_live name dm \<and> dm_deny dm = deny \<and> catalog_page_id dm = 0 \<and> n_pages dm \<le> PAGE_LIMIT \<and>
    (page_buf dm)(0 := STATUS_EXIST) = pb(0 := STATUS_EXIST)"

lemma on_disk_n_pages:
  assumes "dm_inv dm"
  shows "on_disk dm q \<longleftrightarrow> 0 \<le> q \<and> nat q < n_pages dm"
proof -
  define k where "k = f_size (db_file dm) div PAGE_SIZE"
  have k: "f_size (db_file dm) = k * PAGE_SIZE" "0 \<le> k"
    using dm_invD(6,7) [OF assms] minus_mod_eq_div_mult [of "f_size (db_file dm)" PAGE_SIZE]
    by (simp_all add: k_def pos_imp_zdiv_nonneg_iff)
  have "n_pages dm = nat k" by (simp add: n_pages_def k_def)
  moreover have "(q + 1) * PAGE_SIZE \<le> k * PAGE_SIZE \<longleftrightarrow> q < k" 
    by (simp only: mult_le_cancel_right_pos [OF PAGE_SIZE_pos] add1_zle_eq)
  ultimately show ?thesis using k by (auto simp: on_disk_def)
qed

lemma n_pages_cong:
  assumes "dm_inv dm" "dm_inv dm'" "\<And>q. on_disk dm' q \<longleftrightarrow> on_disk dm q"
  shows "n_pages dm' = n_pages dm"
proof -
  have "i < n_pages dm' \<longleftrightarrow> i < n_pages dm" for i
    using assms(3) [of "int i"] on_disk_n_pages [OF assms(1), of "int i"] on_disk_n_pages [OF assms(2), of "int i"] by simp
  from this [of "n_pages dm"] this [of "n_pages dm'"] show ?thesis by simp
qed

lemma disk_view_nth [simp]:
  "length (disk_view dm) = n_pages dm" "i < n_pages dm \<Longrightarrow> disk_view dm ! i = page_at dm i"
  by (simp_all add: disk_view_def)

lemma disk_view_eqI:
  "length v = n_pages dm \<Longrightarrow> (\<And>i. i < n_pages dm \<Longrightarrow> v ! i = page_at dm i) \<Longrightarrow> disk_view dm = v"
  by (rule nth_equalityI) simp_all

lemma page_at_keep:
  assumes "\<And>a. 0 \<le> a \<Longrightarrow> a < PAGE_SIZE \<Longrightarrow> disk_byte dm' (int i) a = disk_byte dm (int i) a"
    "int i \<in> alloced_pgid dm' \<longleftrightarrow> int i \<in> alloced_pgid dm"
  shows "page_at dm' i = page_at dm i"
  using assms by (auto simp: page_at_def intro!: get_bytes_cong)

lemma next_pgid_gap:
  assumes "dm_inv dm"
  shows "next_pgid dm = int (gap (disk_view dm))"
proof -
  note N = next_pgid_fresh [OF assms] and on = on_disk_n_pages [OF assms]
  have "gap (disk_view dm) = nat (next_pgid dm)"
  proof (rule gap_eqI)
    fix i assume "i < nat (next_pgid dm)"
    then have "int i \<in> alloced_pgid dm" using N by simp
    then show "i < length (disk_view dm) \<and> disk_view dm ! i \<noteq> None"
      using on [of "int i"] dm_invD(13) [OF assms] by (simp add: page_at_def)
  qed (use N in \<open>simp add: page_at_def\<close>)
  then show ?thesis using N(1) by simp
qed

lemma alloced_view:
  assumes "dm_inv dm" "0 \<le> p" "nat p < n_pages dm" "disk_view dm ! nat p \<noteq> None"
  shows "p \<in> alloced_pgid dm" "on_disk dm p"
  using assms on_disk_n_pages [OF assms(1), of p] by (auto simp: page_at_def split: if_splits)

lemma PAGE_LIMIT_addr: "0 \<le> p \<Longrightarrow> p < int PAGE_LIMIT \<Longrightarrow> in32 (p * PAGE_SIZE)"
  by (simp add: PAGE_LIMIT_def PAGE_SIZE_def in32_def)

lemma disk_live_parts:
  assumes "disk_live name deny pb dm"
  shows "dm_live name dm" "dm_inv dm" "dm_sync dm" "catalog_page_id dm = 0" "0 \<in> alloced_pgid dm"
    "n_pages dm \<le> PAGE_LIMIT" "(page_buf dm)(0 := STATUS_EXIST) = pb(0 := STATUS_EXIST)" "dm_deny dm = deny"
  using assms by (auto simp: disk_live_def dm_live_def)

lemma dm_sync_change:
  assumes "dm_sync dm" "\<And>q. on_disk dm' q \<Longrightarrow> on_disk dm q \<or> q = p"
    "\<And>q. on_disk dm q \<Longrightarrow> q \<noteq> p \<Longrightarrow> disk_byte dm' q 0 = disk_byte dm q 0"
    "\<And>q. q \<noteq> p \<Longrightarrow> q \<in> alloced_pgid dm' \<longleftrightarrow> q \<in> alloced_pgid dm"
    "disk_byte dm' p 0 AND STATUS_EXIST \<noteq> 0 \<longleftrightarrow> p \<in> alloced_pgid dm'"
  shows "dm_sync dm'"
  unfolding dm_sync_def
proof (intro allI impI)
  fix q assume "on_disk dm' q"
  then show "disk_byte dm' q 0 AND STATUS_EXIST \<noteq> 0 \<longleftrightarrow> q \<in> alloced_pgid dm'"
    using assms(1,5) assms(2-4) [of q] by (cases "q = p") (auto simp: dm_sync_def)
qed

lemma disk_alloc_law:
  assumes live: "disk_live name deny pb dm" and ok: "op_ok (disk_view dm) AllocPage"
  shows "\<exists>dm'. get_new_page dm = Inr (int (gap (disk_view dm)), dm') \<and> disk_live name deny pb dm' \<and>
    disk_view dm' = image_step (blank_page pb) (disk_view dm) AllocPage"
proof -
  note L = disk_live_parts [OF live]
  let ?g = "gap (disk_view dm)"
  have nx: "next_pgid dm = int ?g" by (rule next_pgid_gap [OF L(2)])
  have room: "in32 (2 * max_ava_pgid dm)" if "free_pgid dm = {}"
    using that ok nx by (simp add: next_pgid_def in32_def PAGE_LIMIT_def)
  have addr: "in32 (next_pgid dm * PAGE_SIZE)" using ok nx by (simp add: PAGE_LIMIT_addr)
  obtain dm' where A: "alloc_page dm STATUS_EXIST = Inr (int ?g, dm')" and i': "dm_inv dm'" and fr: "dm_frame dm dm'"
      and al: "alloced_pgid dm' = insert (int ?g) (alloced_pgid dm)"
      and b0: "disk_byte dm' (int ?g) 0 = STATUS_EXIST"
      and on: "\<forall>pid. on_disk dm' pid \<longleftrightarrow> on_disk dm pid \<or> pid = int ?g"
      and keep: "\<forall>pid a. on_disk dm pid \<and> pid \<noteq> int ?g \<and> 0 \<le> a \<and> a < PAGE_SIZE \<longrightarrow>
        disk_byte dm' pid a = disk_byte dm pid a"
      and pb: "page_buf dm' = (page_buf dm)(0 := STATUS_EXIST)"
      and new: "\<forall>a. 0 \<le> a \<and> a < PAGE_SIZE \<longrightarrow> disk_byte dm' (int ?g) a = ((page_buf dm)(0 := STATUS_EXIST)) a"
    using alloc_page_spec [OF L(2) room addr, of STATUS_EXIST] unfolding nx by blast
  have np: "n_pages dm' = max (n_pages dm) (Suc ?g)"
  proof -
    have "i < n_pages dm' \<longleftrightarrow> i < n_pages dm \<or> i = ?g" for i
      using on [rule_format, of "int i"] on_disk_n_pages [OF i', of "int i"] on_disk_n_pages [OF L(2), of "int i"] by simp
    from this [of "n_pages dm"] this [of "n_pages dm'"] this [of ?g] this [of "Suc ?g"] gap_le [of "disk_view dm"]
    show ?thesis by (auto simp: max_def)
  qed
  have sync: "dm_sync dm'"
    using on keep b0 al by (intro dm_sync_change [OF L(3), of dm' "int ?g"]) (auto simp: STATUS_EXIST_def)
  have at: "page_at dm' i = (if i = ?g then Some (blank_page pb) else page_at dm i)" if "i < n_pages dm \<or> i = ?g" for i
  proof (cases "i = ?g")
    case True
    then show ?thesis using al new L(7) by (auto simp: page_at_def blank_page_def intro!: get_bytes_cong)
  next
    case False
    then show ?thesis
      using that al keep on_disk_n_pages [OF L(2), of "int i"] by (simp, intro page_at_keep) auto
  qed
  have view: "disk_view dm' = image_step (blank_page pb) (disk_view dm) AllocPage"
    using np gap_le [of "disk_view dm"]
    by (intro disk_view_eqI) (auto simp: put_first_gap at nth_list_update nth_append less_Suc_eq)
  have "disk_live name deny pb dm'"
    using dm_live_frame [OF L(1) fr i' sync] L fr pb al np ok
    by (auto simp: disk_live_def dm_frame_def)
  then show ?thesis using A view by (simp add: get_new_page_def)
qed

lemma disk_free_law:
  assumes live: "disk_live name deny pb dm" and ok: "op_ok (disk_view dm) (FreePage p)"
  shows "\<exists>dm'. free_page dm p = Inr (True, dm') \<and> disk_live name deny pb dm' \<and>
    disk_view dm' = image_step (blank_page pb) (disk_view dm) (FreePage p)"
proof -
  note L = disk_live_parts [OF live]
  have p: "0 < p" "nat p < n_pages dm" "p \<in> alloced_pgid dm" "on_disk dm p"
    using ok alloced_view [OF L(2), of p] by auto
  have addr: "in32 (p * PAGE_SIZE)" using p L(6) by (intro PAGE_LIMIT_addr) auto
  obtain dm' where F: "free_page dm p = Inr (True, dm')" and i': "dm_inv dm'" and fr: "dm_frame dm dm'"
      and al: "alloced_pgid dm' = alloced_pgid dm - {p}" and b0: "disk_byte dm' p 0 = STATUS_FREE"
      and pb: "page_buf dm' = page_buf dm" and on: "\<forall>q. on_disk dm' q \<longleftrightarrow> on_disk dm q"
      and keep: "\<forall>q a. on_disk dm q \<and> q \<noteq> p \<and> 0 \<le> a \<and> a < PAGE_SIZE \<longrightarrow> disk_byte dm' q a = disk_byte dm q a"
    using free_page_spec [OF L(2) p(3) addr] by blast
  have np: "n_pages dm' = n_pages dm" using on by (intro n_pages_cong [OF L(2) i']) auto
  have sync: "dm_sync dm'"
    using on keep b0 al by (intro dm_sync_change [OF L(3), of dm' p]) (auto simp: STATUS_FREE_def STATUS_EXIST_def)
  have at: "page_at dm' i = (if i = nat p then None else page_at dm i)" if "i < n_pages dm" for i
  proof (cases "i = nat p")
    case True
    then show ?thesis using al p by (simp add: page_at_def)
  next
    case False
    then show ?thesis
      using that p al keep on_disk_n_pages [OF L(2), of "int i"] by (simp, intro page_at_keep) auto
  qed
  have view: "disk_view dm' = image_step (blank_page pb) (disk_view dm) (FreePage p)"
    using np p by (intro disk_view_eqI) (auto simp: at nth_list_update)
  have "disk_live name deny pb dm'"
    using dm_live_frame [OF L(1) fr i' sync] L fr pb al np p by (auto simp: disk_live_def dm_frame_def)
  then show ?thesis using F view by simp
qed

lemma disk_write_law:
  assumes live: "disk_live name deny pb dm" and ok: "op_ok (disk_view dm) (WritePage p m)"
  shows "\<exists>dm'. write_page dm p m = Inr (True, dm') \<and> disk_live name deny pb dm' \<and>
    disk_view dm' = image_step (blank_page pb) (disk_view dm) (WritePage p m)"
proof -
  note L = disk_live_parts [OF live]
  have p: "0 \<le> p" "nat p < n_pages dm" "p \<in> alloced_pgid dm" "on_disk dm p" "m 0 AND STATUS_EXIST \<noteq> 0"
    using ok alloced_view [OF L(2), of p] by auto
  obtain dm' where W: "write_page dm p m = Inr (True, dm')" and i': "dm_inv dm'" and fr: "dm_frame dm dm'"
      and al: "alloced_pgid dm' = alloced_pgid dm" and pb: "page_buf dm' = page_buf dm"
      and on: "\<forall>q. on_disk dm' q \<longleftrightarrow> on_disk dm q"
      and new: "\<forall>a. 0 \<le> a \<and> a < PAGE_SIZE \<longrightarrow> disk_byte dm' p a = m a"
      and keep: "\<forall>q a. on_disk dm q \<and> q \<noteq> p \<and> 0 \<le> a \<and> a < PAGE_SIZE \<longrightarrow> disk_byte dm' q a = disk_byte dm q a"
    using write_page_spec [OF L(2) p(4), of m] by blast
  have np: "n_pages dm' = n_pages dm" using on by (intro n_pages_cong [OF L(2) i']) auto
  have sync: "dm_sync dm'"
    using on keep new al p by (intro dm_sync_change [OF L(3), of dm' p]) auto
  have at: "page_at dm' i = (if i = nat p then Some (get_bytes m 0 PAGE_SIZE) else page_at dm i)"
    if "i < n_pages dm" for i
  proof (cases "i = nat p")
    case True
    then show ?thesis using al p new by (auto simp: page_at_def intro!: get_bytes_cong)
  next
    case False
    then show ?thesis
      using that p al keep on_disk_n_pages [OF L(2), of "int i"] by (simp, intro page_at_keep) auto
  qed
  have view: "disk_view dm' = image_step (blank_page pb) (disk_view dm) (WritePage p m)"
    using np p by (intro disk_view_eqI) (auto simp: at nth_list_update)
  have "disk_live name deny pb dm'"
    using dm_live_frame [OF L(1) fr i' sync] L fr pb al np by (auto simp: disk_live_def dm_frame_def)
  then show ?thesis using W view by simp
qed

lemma disk_read_law:
  assumes live: "disk_live name deny pb dm" and p: "0 \<le> p" "nat p < length (disk_view dm)" "disk_view dm ! nat p = Some im"
  shows "read_page dm p dst = Inr (True, put_bytes dst 0 im, dm)"
proof -
  note L = disk_live_parts [OF live]
  have "on_disk dm p" and im: "im = get_bytes (disk_byte dm p) 0 PAGE_SIZE"
    using p on_disk_n_pages [OF L(2), of p] by (auto simp: page_at_def split: if_splits)
  moreover have "memcpy dst 0 (disk_byte dm p) 0 PAGE_SIZE = put_bytes dst 0 im"
    by (rule ext) (auto simp: im memcpy_def put_bytes_def get_bytes_def nat_less_eq_zless less_imp_le [OF PAGE_SIZE_pos])
  ultimately show ?thesis using read_page_spec [OF L(2)] by simp
qed

interpretation dk: page_disk get_new_page free_page write_page read_page "disk_live name deny pb" disk_view "blank_page pb"
  for name deny pb
  by unfold_locales (rule disk_alloc_law disk_free_law disk_write_law disk_read_law; assumption)+

section \<open>Creating, running and restarting\<close>

definition dm_run :: "disk_manager \<Rightarrow> disk_op list \<Rightarrow> disk_manager result" where
  "dm_run = disk_run get_new_page free_page write_page"

lemma disk_create:
  assumes "name_ok name" "files (name @ ''.mtd'') = None" "files (name @ ''.db'') = None" "files (name @ ''.log'') = None"
    "\<not> deny (name @ ''.mtd'')" "\<not> deny (name @ ''.db'')" "\<not> deny (name @ ''.log'')"
  shows "\<exists>dm. DiskManager files deny u pb buf name True = Inr dm \<and> disk_live name deny pb dm \<and>
    disk_view dm = [Some (blank_page pb)]"
proof -
  obtain dm where dm: "DiskManager files deny u pb buf name True = Inr dm" "dm_live name dm" "alloced_pgid dm = {0}"
      "catalog_page_id dm = 0" "page_buf dm = pb(0 := STATUS_EXIST)" "\<forall>pid. on_disk dm pid \<longleftrightarrow> pid = 0"
      "\<forall>a. 0 \<le> a \<and> a < PAGE_SIZE \<longrightarrow> disk_byte dm 0 a = (pb(0 := STATUS_EXIST)) a" "dm_deny dm = deny"
    using from_scratch_spec [OF assms, of u pb buf] by blast
  have inv: "dm_inv dm" using dm(2) by (simp add: dm_live_def)
  have "i < n_pages dm \<longleftrightarrow> i = 0" for i
    using dm(6) on_disk_n_pages [OF inv, of "int i"] by simp
  from this [of 0] this [of 1] have np: "n_pages dm = 1" by simp
  have "page_at dm 0 = Some (blank_page pb)"
    using dm(3,7) by (auto simp: page_at_def blank_page_def intro!: get_bytes_cong)
  then have "disk_view dm = [Some (blank_page pb)]" by (simp add: disk_view_def np)
  moreover have "disk_live name deny pb dm" using dm(2,4,5,8) np by (simp add: disk_live_def PAGE_LIMIT_def)
  ultimately show ?thesis using dm(1) by blast
qed

lemma disk_restart:
  assumes live: "disk_live name deny pb dm" and ok: "name_ok name"
  shows "\<exists>dm1 dm2. shutdown dm = Inr dm1 \<and> DiskManager (dm_files dm1) deny u pb' buf name False = Inr dm2 \<and>
    disk_live name deny pb' dm2 \<and> disk_view dm2 = disk_view dm"
proof -
  note L = disk_live_parts [OF live]
  obtain dm1 dm2 where dm: "shutdown dm = Inr dm1" "DiskManager (dm_files dm1) deny u pb' buf name False = Inr dm2"
      "dm_live name dm2" "alloced_pgid dm2 = alloced_pgid dm" "catalog_page_id dm2 = catalog_page_id dm"
      "\<forall>pid a. disk_byte dm2 pid a = disk_byte dm pid a" "\<forall>pid. on_disk dm2 pid \<longleftrightarrow> on_disk dm pid" "page_buf dm2 = pb'" "dm_deny dm2 = deny"
    using disk_reopen [OF L(1) ok, of u pb' buf] unfolding L(8) by blast
  have i2: "dm_inv dm2" using dm(3) by (simp add: dm_live_def)
  have np: "n_pages dm2 = n_pages dm" using dm(7) by (intro n_pages_cong [OF L(2) i2]) auto
  have "page_at dm2 i = page_at dm i" for i using dm(4,6) by (intro page_at_keep) auto
  then have "disk_view dm2 = disk_view dm" by (simp add: disk_view_def np)
  moreover have "disk_live name deny pb' dm2" using dm(3,5,8,9) L(4,6) np by (simp add: disk_live_def)
  ultimately show ?thesis using dm(1,2) by blast
qed

lemma factory_ok:
  assumes "DiskManager (if c then remove_file (remove_file (remove_file files (name @ ''.mtd'')) (name @ ''.db'')) (name @ ''.log'')
      else files) deny u pb buf name c = Inr dm" "dm_live name dm"
    "\<not> deny (name @ ''.mtd'')" "\<not> deny (name @ ''.db'')" "\<not> deny (name @ ''.log'')"
  shows "create_DiskManager files deny u pb buf name c = Inr (Some dm, dm_files dm)"
  using assms dm_invD(3) [of dm] by (auto simp: create_DiskManager_def Let_def postfix_defs check_inexistence_def dm_live_def)



lemma read_page_short:
  assumes inv: "dm_inv dm" and p: "0 \<le> p" "\<not> on_disk dm p"
  shows "\<exists>dst'. read_page dm p dst = Inr (False, dst', dm\<lparr>db_io := (db_io dm)\<lparr>st_fail := True\<rparr>\<rparr>)"
proof -
  note D = dm_invD [OF inv]
  let ?g = "max 0 (min PAGE_SIZE (f_size (db_file dm) - p * PAGE_SIZE))"
  have g: "?g < PAGE_SIZE" using p by (simp add: on_disk_def algebra_simps)
  then have "stream_read (dm_files dm) (db_io dm) (p * PAGE_SIZE) dst PAGE_SIZE
      = (?g, memcpy dst 0 (f_bytes (db_file dm)) (p * PAGE_SIZE) ?g, (db_io dm)\<lparr>st_fail := True\<rparr>)"
    using D(1,2,3) page_addr_nonneg [OF p(1)] by (simp add: stream_read_def Let_def)
  with g obtain g dst' where "g < PAGE_SIZE" "stream_read (dm_files dm) (db_io dm) (p * PAGE_SIZE) dst PAGE_SIZE
      = (g, dst', (db_io dm)\<lparr>st_fail := True\<rparr>)" by blast
  then show ?thesis using D(1,5) by (simp add: read_page_def)
qed



definition full_disk :: disk_manager where
  "full_disk = (dm_start [''t.db'' \<mapsto> \<lparr>f_bytes = (\<lambda>_. 1), f_size = 524288 * PAGE_SIZE\<rparr>] (\<lambda>_. False) 0 (\<lambda>_. 0) ''t'')
    \<lparr>db_io := \<lparr>st_open = Some ''t.db'', st_fail = False\<rparr>, max_ava_pgid := 819200, max_alloced_pgid := 524287,
     alloced_pgid := {0..<524288}, free_pgid := {524288..<819200}\<rparr>"

lemma full_disk_inv: "dm_inv full_disk" "next_pgid full_disk = 524288" "max_ava_pgid full_disk = 819200"
proof -
  have f: "db_file full_disk = \<lparr>f_bytes = (\<lambda>_. 1), f_size = 524288 * PAGE_SIZE\<rparr>"
    by (simp add: full_disk_def db_file_def dm_start_def)
  have mx: "Max {0..<524288::int} = 524287" "Min {524288..<819200::int} = 524288"
    by (rule Max_eqI; simp) (rule Min_eqI; simp)
  have on: "\<forall>p\<in>{0..<524288}. on_disk full_disk p" by (simp add: on_disk_def f PAGE_SIZE_def)
  show "dm_inv full_disk"
    unfolding dm_inv_def f
  proof (intro conjI)
    show "\<forall>p\<in>alloced_pgid full_disk. on_disk full_disk p" using on by (simp add: full_disk_def)
    show "free_pgid full_disk \<union> alloced_pgid full_disk = {0..<max_ava_pgid full_disk}"
      by (simp add: full_disk_def) (rule set_eqI, simp, arith)
  qed (use mx in \<open>simp_all add: full_disk_def dm_start_def PAGE_SIZE_def in32_def\<close>)
  show "next_pgid full_disk = 524288" using mx by (simp add: full_disk_def next_pgid_def)
  show "max_ava_pgid full_disk = 819200" by (simp add: full_disk_def)
qed

text \<open>
  C11. \<^verbatim>\<open>alloc_page\<close> computes the address of the new page in an \<^verbatim>\<open>int\<close>: once page ids reach
  524288 the multiplication overflows, although \<^verbatim>\<open>write_page\<close> and \<^verbatim>\<open>read_page\<close> convert to
  \<^verbatim>\<open>long\<close> first and handle the same page.  Below that id an allocation succeeds and returns the
  smallest unused id.
\<close>

theorem alloc_page_address_range:
  assumes "dm_inv dm" "in32 (2 * max_ava_pgid dm)"
  shows "(next_pgid dm < 524288 \<longrightarrow> (\<exists>dm'. alloc_page dm flag = Inr (next_pgid dm, dm') \<and> dm_inv dm')) \<and>
    (524288 \<le> next_pgid dm \<longrightarrow> alloc_page dm flag = Inl UndefBehaviour) \<and>
    next_pgid dm \<notin> alloced_pgid dm \<and> (\<forall>q. 0 \<le> q \<and> q < next_pgid dm \<longrightarrow> q \<in> alloced_pgid dm)"
proof (intro conjI impI)
  note N = next_pgid_fresh [OF assms(1)]
  show "\<exists>dm'. alloc_page dm flag = Inr (next_pgid dm, dm') \<and> dm_inv dm'" if "next_pgid dm < 524288"
  proof -
    have "in32 (next_pgid dm * PAGE_SIZE)" using that N(1) by (simp add: in32_def PAGE_SIZE_def)
    from alloc_page_spec [OF assms(1) _ this, of flag] assms(2) show ?thesis by blast
  qed
  show "alloc_page dm flag = Inl UndefBehaviour" if big: "524288 \<le> next_pgid dm"
  proof -
    obtain d1 where d1: "refill_free dm = Inr d1" "dm_inv d1" "Min (free_pgid d1) = next_pgid dm"
        "d1 = dm\<lparr>max_ava_pgid := max_ava_pgid d1, free_pgid := free_pgid d1\<rparr>"
      using refill_free_spec [OF assms] by blast
    have "\<not> in32 (next_pgid dm * PAGE_SIZE)" using big by (simp add: in32_def PAGE_SIZE_def)
    then show ?thesis
      using dm_invD(1,4) [OF assms(1)] dm_invD(5) [OF d1(2)] d1(1,3) by (simp add: alloc_page_def Let_def int_product_def)
  qed
qed (use next_pgid_fresh [OF assms(1)] in auto)

theorem alloc_page_address_range_witness:
  "dm_inv full_disk \<and> in32 (2 * max_ava_pgid full_disk) \<and> alloc_page full_disk STATUS_EXIST = Inl UndefBehaviour"
  using alloc_page_address_range [OF full_disk_inv(1)] full_disk_inv by (simp add: in32_def)

end

