(* ===== verification/Clock_Replacer.thy ===== *)
theory Clock_Replacer
  imports Dawn_Prelude
begin

unbundle bit_operations_syntax

text \<open>
  The page replacement of \<^verbatim>\<open>src/src/include/buffer/replacer_abstract.h\<close> and
  \<^verbatim>\<open>src/src/buffer/clock_replacer.cpp\<close>: one flag per frame, a pointer that goes around, and the
  number of frames that may be evicted.  \<^verbatim>\<open>victim\<close> sleeps until another thread unpins a frame when there
  is none; seen from one thread that is \<^const>\<open>Blocked\<close>.  Its search loop has fuel for two rounds and one
  step, which \<open>victim_scan_ring\<close> shows to be enough.  An index outside the flags is undefined behaviour.
  The interface the buffer pool uses is the locale \<open>replacer\<close>.
\<close>

record clock_replacer =
  cr_flags :: "byte list"
  cr_pool :: int
  cr_ptr :: int
  cr_exit :: int

definition ClockReplacer :: "int \<Rightarrow> clock_replacer" where
  "ClockReplacer pool_size =
    \<lparr>cr_flags = replicate (nat pool_size) FRAME_NOT_EXIST, cr_pool = pool_size, cr_ptr = 0, cr_exit = 0\<rparr>"

definition frame_ok :: "clock_replacer \<Rightarrow> int \<Rightarrow> bool" where
  "frame_ok r f \<longleftrightarrow> 0 \<le> f \<and> nat f < length (cr_flags r)"

definition cr_pin :: "clock_replacer \<Rightarrow> int \<Rightarrow> clock_replacer result" where
  "cr_pin r f =
    (if \<not> frame_ok r f then Inl UndefBehaviour
     else if cr_flags r ! nat f \<noteq> FRAME_NOT_EXIST
     then Inr (r\<lparr>cr_flags := (cr_flags r)[nat f := FRAME_NOT_EXIST], cr_exit := cr_exit r - 1\<rparr>)
     else Inr r)"

definition cr_unpin :: "clock_replacer \<Rightarrow> int \<Rightarrow> clock_replacer result" where
  "cr_unpin r f =
    (if \<not> frame_ok r f then Inl UndefBehaviour
     else if cr_flags r ! nat f = FRAME_NOT_EXIST
     then Inr (r\<lparr>cr_flags := (cr_flags r)[nat f := FRAME_EXIST_TRUE], cr_exit := cr_exit r + 1\<rparr>)
     else Inr r)"

definition clock_pointer_to_next :: "clock_replacer \<Rightarrow> clock_replacer" where
  "clock_pointer_to_next r = r\<lparr>cr_ptr := (cr_ptr r + 1) mod cr_pool r\<rparr>"

fun victim_scan :: "nat \<Rightarrow> clock_replacer \<Rightarrow> (int \<times> clock_replacer) result" where
  "victim_scan 0 r = Inl OutOfFuel"
| "victim_scan (Suc n) r =
    (let p = cr_ptr r
     in if \<not> frame_ok r p then Inl UndefBehaviour
        else if cr_flags r ! nat p AND FRAME_EXIST_FALSE \<noteq> 0
        then Inr (p, clock_pointer_to_next
               (r\<lparr>cr_flags := (cr_flags r)[nat p := FRAME_NOT_EXIST], cr_exit := cr_exit r - 1\<rparr>))
        else if cr_flags r ! nat p AND FRAME_EXIST_TRUE \<noteq> 0
        then victim_scan n (clock_pointer_to_next (r\<lparr>cr_flags := (cr_flags r)[nat p := FRAME_EXIST_FALSE]\<rparr>))
        else victim_scan n (clock_pointer_to_next r))"

definition cr_victim :: "clock_replacer \<Rightarrow> (int \<times> clock_replacer) result" where
  "cr_victim r = (if cr_exit r > 0 then victim_scan (nat (2 * cr_pool r) + 1) r else Inl Blocked)"

definition cr_size :: "clock_replacer \<Rightarrow> int" where
  "cr_size r = cr_exit r"


section \<open>The interface\<close>

text \<open>As many victims in a row.\<close>

fun victims :: "('r \<Rightarrow> (int \<times> 'r) result) \<Rightarrow> nat \<Rightarrow> 'r \<Rightarrow> (int list \<times> 'r) result" where
  "victims victim 0 r = Inr ([], r)"
| "victims victim (Suc n) r =
    bindR (victim r) (\<lambda>(f, r). bindR (victims victim n r) (\<lambda>(fs, r). Inr (f # fs, r)))"

text \<open>
  What a replacer promises: it keeps a set of frames; \<open>pin\<close> takes a frame out, \<open>unpin\<close> puts it in,
  \<open>victim\<close> takes some frame out whenever there is one.
\<close>

locale replacer =
  fixes pin :: "'r \<Rightarrow> int \<Rightarrow> 'r result"
    and unpin :: "'r \<Rightarrow> int \<Rightarrow> 'r result"
    and victim :: "'r \<Rightarrow> (int \<times> 'r) result"
    and size :: "'r \<Rightarrow> int"
    and inv :: "'r \<Rightarrow> bool"
    and frames :: "'r \<Rightarrow> int"
    and evictable :: "'r \<Rightarrow> int set"
  assumes evictable_frames: "inv r \<Longrightarrow> evictable r \<subseteq> {0..<frames r}"
    and pin_law: "inv r \<Longrightarrow> 0 \<le> f \<Longrightarrow> f < frames r \<Longrightarrow>
      \<exists>r'. pin r f = Inr r' \<and> inv r' \<and> frames r' = frames r \<and> evictable r' = evictable r - {f}"
    and unpin_law: "inv r \<Longrightarrow> 0 \<le> f \<Longrightarrow> f < frames r \<Longrightarrow>
      \<exists>r'. unpin r f = Inr r' \<and> inv r' \<and> frames r' = frames r \<and> evictable r' = insert f (evictable r)"
    and victim_law: "inv r \<Longrightarrow> evictable r \<noteq> {} \<Longrightarrow>
      \<exists>f r'. victim r = Inr (f, r') \<and> f \<in> evictable r \<and> inv r' \<and> frames r' = frames r \<and> evictable r' = evictable r - {f}"
    and victim_blocked: "inv r \<Longrightarrow> evictable r = {} \<Longrightarrow> victim r = Inl Blocked"
    and size_law: "inv r \<Longrightarrow> size r = int (card (evictable r))"
begin

lemma finite_evictable: "inv r \<Longrightarrow> finite (evictable r)"
  using evictable_frames finite_subset by blast

lemma size_bounds: "inv r \<Longrightarrow> 0 \<le> frames r \<Longrightarrow> 0 \<le> size r \<and> size r \<le> frames r"
  using card_mono [OF _ evictable_frames [of r]] by (simp add: size_law)

text \<open>Asking for a victim again and again hands out every evictable frame once, then blocks.\<close>

lemma drain:
  assumes "inv r"
  shows "\<exists>fs r'. victims victim (card (evictable r)) r = Inr (fs, r') \<and> distinct fs \<and> set fs = evictable r \<and>
    inv r' \<and> victim r' = Inl Blocked"
  using assms
proof (induction "card (evictable r)" arbitrary: r)
  case 0
  then have "evictable r = {}" using finite_evictable [of r] by simp
  then show ?case using 0 victim_blocked [of r] by simp
next
  case (Suc n)
  then have "evictable r \<noteq> {}" by auto
  then obtain f r1 where v: "victim r = Inr (f, r1)" "f \<in> evictable r" "inv r1" "evictable r1 = evictable r - {f}"
    using victim_law Suc.prems by blast
  have n: "n = card (evictable r1)" using v(2,4) Suc.hyps(2) finite_evictable [OF Suc.prems] by simp
  from Suc.hyps(1) [OF this v(3)] obtain fs r' where
    ih: "victims victim n r1 = Inr (fs, r')" "distinct fs" "set fs = evictable r1" "inv r'" "victim r' = Inl Blocked"
    unfolding n by blast
  have "victims victim (Suc n) r = Inr (f # fs, r')" using v(1) ih(1) by simp
  moreover have "distinct (f # fs)" "set (f # fs) = evictable r" using v(2,4) ih(2,3) by auto
  ultimately show ?case unfolding Suc.hyps(2) [symmetric] using ih(4,5) by blast
qed

end


section \<open>The clock\<close>

definition evictable :: "clock_replacer \<Rightarrow> int set" where
  "evictable r = {f. 0 \<le> f \<and> f < cr_pool r \<and> cr_flags r ! nat f \<noteq> FRAME_NOT_EXIST}"

definition cr_inv :: "clock_replacer \<Rightarrow> bool" where
  "cr_inv r \<longleftrightarrow>
    0 < cr_pool r \<and> length (cr_flags r) = nat (cr_pool r) \<and> 0 \<le> cr_ptr r \<and> cr_ptr r < cr_pool r \<and>
    set (cr_flags r) \<subseteq> {FRAME_NOT_EXIST, FRAME_EXIST_TRUE, FRAME_EXIST_FALSE} \<and>
    cr_exit r = int (card (evictable r))"

lemmas frame_flags = FRAME_NOT_EXIST_def FRAME_EXIST_TRUE_def FRAME_EXIST_FALSE_def

lemma finite_evictable_clock [simp]: "finite (evictable r)"
  by (rule finite_subset [of _ "{0..<cr_pool r}"]) (auto simp: evictable_def)

lemma cr_inv_new: "0 < n \<Longrightarrow> cr_inv (ClockReplacer n) \<and> evictable (ClockReplacer n) = {}"
proof -
  assume n: "0 < n"
  then have e: "evictable (ClockReplacer n) = {}" by (auto simp: ClockReplacer_def evictable_def)
  moreover have "cr_inv (ClockReplacer n)"
    unfolding cr_inv_def e using n by (simp add: ClockReplacer_def set_replicate_conv_if)
  ultimately show ?thesis by simp
qed

text \<open>Setting one flag: what it does to the set of evictable frames.\<close>

lemma evictable_set_flag:
  assumes "cr_inv r" "0 \<le> f" "f < cr_pool r"
  shows "evictable (r\<lparr>cr_flags := (cr_flags r)[nat f := v]\<rparr>) =
    (if v = FRAME_NOT_EXIST then evictable r - {f} else insert f (evictable r))"
  using assms by (auto simp: evictable_def cr_inv_def nth_list_update)

lemma evictable_simps [simp]:
  "evictable (r\<lparr>cr_exit := e\<rparr>) = evictable r" "evictable (r\<lparr>cr_ptr := p\<rparr>) = evictable r"
  "evictable (r\<lparr>cr_flags := fl, cr_exit := e\<rparr>) = evictable (r\<lparr>cr_flags := fl\<rparr>)"
  "evictable (clock_pointer_to_next r) = evictable r"
  by (simp_all add: evictable_def clock_pointer_to_next_def)

lemma cr_inv_set_flag:
  assumes "cr_inv r" "0 \<le> f" "f < cr_pool r" "v \<in> {FRAME_NOT_EXIST, FRAME_EXIST_TRUE, FRAME_EXIST_FALSE}"
    "e = int (card (evictable (r\<lparr>cr_flags := (cr_flags r)[nat f := v]\<rparr>)))"
  shows "cr_inv (r\<lparr>cr_flags := (cr_flags r)[nat f := v], cr_exit := e\<rparr>)"
  using assms set_update_subset_insert [of "cr_flags r" "nat f" v] by (auto simp: cr_inv_def)

lemma cr_inv_next: "cr_inv r \<Longrightarrow> cr_inv (clock_pointer_to_next r)"
  by (auto simp: cr_inv_def clock_pointer_to_next_def evictable_def)

lemma frame_ok_inv: "cr_inv r \<Longrightarrow> frame_ok r f \<longleftrightarrow> 0 \<le> f \<and> f < cr_pool r"
  by (auto simp: cr_inv_def frame_ok_def)

lemma flag_cases:
  assumes "cr_inv r" "0 \<le> f" "f < cr_pool r"
  shows "cr_flags r ! nat f \<in> {FRAME_NOT_EXIST, FRAME_EXIST_TRUE, FRAME_EXIST_FALSE}"
proof -
  have "nat f < length (cr_flags r)" using assms by (simp add: cr_inv_def)
  from nth_mem [OF this] show ?thesis using assms(1) by (auto simp: cr_inv_def)
qed

lemma cr_pin_spec:
  assumes "cr_inv r" "0 \<le> f" "f < cr_pool r"
  shows "\<exists>r'. cr_pin r f = Inr r' \<and> cr_inv r' \<and> cr_pool r' = cr_pool r \<and> evictable r' = evictable r - {f}"
proof (cases "cr_flags r ! nat f = FRAME_NOT_EXIST")
  case True
  then have "f \<notin> evictable r" by (simp add: evictable_def)
  then show ?thesis using True assms by (simp add: cr_pin_def frame_ok_inv)
next
  case False
  then have f: "f \<in> evictable r" using assms by (simp add: evictable_def)
  let ?r = "r\<lparr>cr_flags := (cr_flags r)[nat f := FRAME_NOT_EXIST], cr_exit := cr_exit r - 1\<rparr>"
  have "int (card (evictable r - {f})) = cr_exit r - 1"
    using f card_Suc_Diff1 [OF finite_evictable_clock f] assms(1) by (simp add: cr_inv_def)
  then have "cr_inv ?r" using assms by (intro cr_inv_set_flag) (simp_all add: evictable_set_flag)
  then show ?thesis using False assms by (auto simp: cr_pin_def frame_ok_inv evictable_set_flag)
qed

lemma cr_unpin_spec:
  assumes "cr_inv r" "0 \<le> f" "f < cr_pool r"
  shows "\<exists>r'. cr_unpin r f = Inr r' \<and> cr_inv r' \<and> cr_pool r' = cr_pool r \<and> evictable r' = insert f (evictable r)"
proof (cases "cr_flags r ! nat f = FRAME_NOT_EXIST")
  case False
  then have "f \<in> evictable r" using assms by (simp add: evictable_def)
  then show ?thesis using False assms by (auto simp: cr_unpin_def frame_ok_inv)
next
  case True
  then have f: "f \<notin> evictable r" by (simp add: evictable_def)
  let ?r = "r\<lparr>cr_flags := (cr_flags r)[nat f := FRAME_EXIST_TRUE], cr_exit := cr_exit r + 1\<rparr>"
  have "FRAME_EXIST_TRUE \<noteq> FRAME_NOT_EXIST" by (simp add: frame_flags)
  moreover from this have "cr_inv ?r"
    using assms f by (intro cr_inv_set_flag) (simp_all add: evictable_set_flag cr_inv_def)
  ultimately show ?thesis using True assms by (simp add: cr_unpin_def frame_ok_inv evictable_set_flag)
qed


section \<open>The search for a victim\<close>

text \<open>
  The flags as the pointer meets them, and what the pointer does to a flag it passes.  Passing a frame
  moves its flag to the end of the ring.
\<close>

definition ring :: "clock_replacer \<Rightarrow> byte list" where
  "ring r = rotate (nat (cr_ptr r)) (cr_flags r)"

definition aged :: "byte \<Rightarrow> byte" where
  "aged v = (if v = FRAME_EXIST_TRUE then FRAME_EXIST_FALSE else v)"

lemma rotate_Suc_update:
  assumes "n < length xs"
  shows "rotate (Suc n mod length xs) (xs[n := v]) = tl (rotate n xs) @ [v]"
proof -
  have "rotate (Suc n) (xs[n := v]) = rotate1 (rotate n (xs[n := v]))" by simp
  also have "rotate n (xs[n := v]) = v # tl (rotate n xs)"
    using assms by (simp add: rotate_drop_take drop_update_swap Cons_nth_drop_Suc [symmetric] tl_append)
  finally show ?thesis by (metis length_list_update rotate1.simps(2) rotate_conv_mod)
qed

lemma next_ring:
  assumes "cr_inv r"
  shows "ring (clock_pointer_to_next (r\<lparr>cr_flags := (cr_flags r)[nat (cr_ptr r) := v], cr_exit := e\<rparr>)) = tl (ring r) @ [v]"
proof -
  have "nat ((cr_ptr r + 1) mod cr_pool r) = Suc (nat (cr_ptr r)) mod length (cr_flags r)"
    using assms by (simp add: cr_inv_def nat_mod_distrib nat_add_distrib)
  moreover have "nat (cr_ptr r) < length (cr_flags r)" using assms by (simp add: cr_inv_def)
  ultimately show ?thesis using rotate_Suc_update [of "nat (cr_ptr r)" "cr_flags r" v]
    by (simp add: ring_def clock_pointer_to_next_def)
qed

lemma ring_hd:
  assumes "cr_inv r"
  shows "ring r = cr_flags r ! nat (cr_ptr r) # tl (ring r)" "length (ring r) = nat (cr_pool r)"
proof -
  have p: "nat (cr_ptr r) < length (cr_flags r)" using assms by (simp add: cr_inv_def)
  then show "ring r = cr_flags r ! nat (cr_ptr r) # tl (ring r)"
    by (simp add: ring_def rotate_drop_take Cons_nth_drop_Suc [symmetric])
  show "length (ring r) = nat (cr_pool r)" using assms by (simp add: ring_def cr_inv_def)
qed

text \<open>A frame whose flag is not \<^const>\<open>FRAME_EXIST_FALSE\<close> is passed.\<close>

definition passed :: "clock_replacer \<Rightarrow> clock_replacer" where
  "passed r = clock_pointer_to_next (r\<lparr>cr_flags := (cr_flags r)[nat (cr_ptr r) := aged (cr_flags r ! nat (cr_ptr r))], cr_exit := cr_exit r\<rparr>)"

definition taken :: "clock_replacer \<Rightarrow> clock_replacer" where
  "taken r = clock_pointer_to_next (r\<lparr>cr_flags := (cr_flags r)[nat (cr_ptr r) := FRAME_NOT_EXIST], cr_exit := cr_exit r - 1\<rparr>)"

lemma victim_scan_step:
  assumes "cr_inv r"
  shows "cr_flags r ! nat (cr_ptr r) \<noteq> FRAME_EXIST_FALSE \<Longrightarrow> victim_scan (Suc n) r = victim_scan n (passed r)"
    "cr_flags r ! nat (cr_ptr r) = FRAME_EXIST_FALSE \<Longrightarrow> victim_scan (Suc n) r = Inr (cr_ptr r, taken r)"
proof -
  have p: "0 \<le> cr_ptr r" "cr_ptr r < cr_pool r" using assms by (simp_all add: cr_inv_def)
  note c = flag_cases [OF assms p]
  show "victim_scan (Suc n) r = victim_scan n (passed r)" if "cr_flags r ! nat (cr_ptr r) \<noteq> FRAME_EXIST_FALSE"
    using that c p assms list_update_id [of "cr_flags r" "nat (cr_ptr r)"]
    by (auto simp: Let_def frame_ok_inv passed_def aged_def frame_flags)
  show "victim_scan (Suc n) r = Inr (cr_ptr r, taken r)" if "cr_flags r ! nat (cr_ptr r) = FRAME_EXIST_FALSE"
    using that p assms by (simp add: Let_def frame_ok_inv taken_def frame_flags)
qed

lemma passed_inv:
  assumes "cr_inv r" "cr_flags r ! nat (cr_ptr r) \<noteq> FRAME_EXIST_FALSE"
  shows "cr_inv (passed r)" "evictable (passed r) = evictable r" "cr_pool (passed r) = cr_pool r"
    "cr_ptr (passed r) = (cr_ptr r + 1) mod cr_pool r" "cr_exit (passed r) = cr_exit r"
proof -
  have p: "0 \<le> cr_ptr r" "cr_ptr r < cr_pool r" "cr_exit r = int (card (evictable r))"
    using assms by (simp_all add: cr_inv_def)
  let ?v = "aged (cr_flags r ! nat (cr_ptr r))"
  have v: "?v = FRAME_NOT_EXIST \<longleftrightarrow> cr_ptr r \<notin> evictable r"
    using p by (auto simp: aged_def evictable_def frame_flags)
  have ev: "evictable (r\<lparr>cr_flags := (cr_flags r)[nat (cr_ptr r) := ?v]\<rparr>) = evictable r"
    using evictable_set_flag [OF assms(1) p(1,2), of ?v] v by auto
  show "evictable (passed r) = evictable r" by (simp add: passed_def ev)
  show "cr_inv (passed r)"
    using flag_cases [OF assms(1) p(1,2)] assms p ev
    unfolding passed_def by (intro cr_inv_next cr_inv_set_flag) (auto simp: aged_def)
qed (simp_all add: passed_def clock_pointer_to_next_def)

lemma taken_inv:
  assumes "cr_inv r" "cr_flags r ! nat (cr_ptr r) = FRAME_EXIST_FALSE"
  shows "cr_ptr r \<in> evictable r" "cr_inv (taken r)" "evictable (taken r) = evictable r - {cr_ptr r}"
    "cr_pool (taken r) = cr_pool r"
proof -
  have p: "0 \<le> cr_ptr r" "cr_ptr r < cr_pool r" "cr_exit r = int (card (evictable r))"
    using assms by (simp_all add: cr_inv_def)
  show f: "cr_ptr r \<in> evictable r" using assms(2) p by (simp add: evictable_def frame_flags)
  have ev: "evictable (r\<lparr>cr_flags := (cr_flags r)[nat (cr_ptr r) := FRAME_NOT_EXIST]\<rparr>) = evictable r - {cr_ptr r}"
    using evictable_set_flag [OF assms(1) p(1,2)] by simp
  then show "evictable (taken r) = evictable r - {cr_ptr r}" by (simp add: taken_def)
  have "int (card (evictable r - {cr_ptr r})) = cr_exit r - 1"
    using card_Suc_Diff1 [OF finite_evictable_clock f] p(3) by simp
  then show "cr_inv (taken r)"
    unfolding taken_def using assms(1) p ev by (intro cr_inv_next cr_inv_set_flag) simp_all
qed (simp_all add: taken_def clock_pointer_to_next_def)


lemma scan_skip:
  assumes "cr_inv r" "ring r = as @ bs" "FRAME_EXIST_FALSE \<notin> set as"
  shows "\<exists>r'. (\<forall>n. victim_scan (length as + n) r = victim_scan n r') \<and> cr_inv r' \<and> ring r' = bs @ map aged as \<and>
    evictable r' = evictable r \<and> cr_pool r' = cr_pool r \<and> cr_ptr r' = (cr_ptr r + int (length as)) mod cr_pool r"
  using assms
proof (induction as arbitrary: r bs)
  case Nil
  then show ?case by (intro exI [of _ r]) (simp add: cr_inv_def)
next
  case (Cons a as)
  have a: "cr_flags r ! nat (cr_ptr r) = a" "tl (ring r) = as @ bs"
    using ring_hd(1) [OF Cons.prems(1)] Cons.prems(2) by simp_all
  then have ne: "cr_flags r ! nat (cr_ptr r) \<noteq> FRAME_EXIST_FALSE" using Cons.prems(3) by auto
  note pi = passed_inv [OF Cons.prems(1) ne]
  have "ring (passed r) = as @ (bs @ [aged a])" unfolding passed_def next_ring [OF Cons.prems(1)] a by simp
  from Cons.IH [OF pi(1) this] Cons.prems(3) obtain r' where r':
    "\<forall>n. victim_scan (length as + n) (passed r) = victim_scan n r'" "cr_inv r'"
    "ring r' = (bs @ [aged a]) @ map aged as" "evictable r' = evictable r" "cr_pool r' = cr_pool r"
    "cr_ptr r' = ((cr_ptr r + 1) mod cr_pool r + int (length as)) mod cr_pool r"
    unfolding pi by auto
  have "cr_ptr r' = (cr_ptr r + int (length (a # as))) mod cr_pool r"
    using r'(6) by (simp add: mod_simps algebra_simps)
  moreover have "victim_scan (length (a # as) + n) r = victim_scan n r'" for n
    using victim_scan_step(1) [OF Cons.prems(1) ne] r'(1) by simp
  ultimately show ?case using r'(2-5) by (intro exI [of _ r']) simp
qed

lemma scan_hit:
  assumes "cr_inv r" "ring r = as @ FRAME_EXIST_FALSE # bs" "FRAME_EXIST_FALSE \<notin> set as" "length as < n"
  shows "\<exists>r'. victim_scan n r = Inr ((cr_ptr r + int (length as)) mod cr_pool r, r') \<and> cr_inv r' \<and>
    (cr_ptr r + int (length as)) mod cr_pool r \<in> evictable r \<and>
    evictable r' = evictable r - {(cr_ptr r + int (length as)) mod cr_pool r} \<and> cr_pool r' = cr_pool r"
proof -
  obtain r1 where r1: "\<forall>n. victim_scan (length as + n) r = victim_scan n r1" "cr_inv r1"
      "ring r1 = (FRAME_EXIST_FALSE # bs) @ map aged as" "evictable r1 = evictable r" "cr_pool r1 = cr_pool r"
      "cr_ptr r1 = (cr_ptr r + int (length as)) mod cr_pool r"
    using scan_skip [OF assms(1-3)] by blast
  obtain m where m: "n = length as + Suc m" using assms(4) less_imp_Suc_add by force
  have hd: "cr_flags r1 ! nat (cr_ptr r1) = FRAME_EXIST_FALSE" using ring_hd(1) [OF r1(2)] r1(3) by simp
  have "victim_scan n r = Inr (cr_ptr r1, taken r1)"
    unfolding m r1(1) [rule_format] by (rule victim_scan_step(2) [OF r1(2) hd])
  then show ?thesis using taken_inv [OF r1(2) hd] r1(4-6) by auto
qed

text \<open>How far the pointer goes: to the first frame without a second chance, else to the first frame there is.\<close>

definition clock_distance :: "clock_replacer \<Rightarrow> nat" where
  "clock_distance r =
    (let v = (if FRAME_EXIST_FALSE \<in> set (ring r) then FRAME_EXIST_FALSE else FRAME_EXIST_TRUE)
     in length (takeWhile (\<lambda>x. x \<noteq> v) (ring r)))"

definition clock_choice :: "clock_replacer \<Rightarrow> int" where
  "clock_choice r = (cr_ptr r + int (clock_distance r)) mod cr_pool r"

lemma takeWhile_first: "x \<notin> set as \<Longrightarrow> takeWhile (\<lambda>y. y \<noteq> x) (as @ x # bs) = as"
  by (induction as) auto

lemma evictable_ring:
  assumes "cr_inv r" "evictable r \<noteq> {}"
  shows "FRAME_EXIST_FALSE \<in> set (ring r) \<or> FRAME_EXIST_TRUE \<in> set (ring r)"
proof -
  obtain f where f: "0 \<le> f" "f < cr_pool r" "cr_flags r ! nat f \<noteq> FRAME_NOT_EXIST"
    using assms(2) by (auto simp: evictable_def)
  have "nat f < length (cr_flags r)" using f assms(1) by (simp add: cr_inv_def)
  from nth_mem [OF this] flag_cases [OF assms(1) f(1,2)] f(3) show ?thesis by (auto simp: ring_def)
qed

lemma victim_scan_ring:
  assumes inv: "cr_inv r" and ne: "evictable r \<noteq> {}"
  shows "\<exists>r'. cr_victim r = Inr (clock_choice r, r') \<and> cr_inv r' \<and> clock_choice r \<in> evictable r \<and>
    evictable r' = evictable r - {clock_choice r} \<and> cr_pool r' = cr_pool r"
proof -
  let ?n = "nat (2 * cr_pool r) + 1"
  have pool: "length (ring r) = nat (cr_pool r)" "0 < cr_pool r" "0 \<le> cr_ptr r" "cr_ptr r < cr_pool r"
    using ring_hd(2) [OF inv] inv by (simp_all add: cr_inv_def)
  have ex: "0 < cr_exit r" using inv ne by (simp add: cr_inv_def card_gt_0_iff)
  show ?thesis
  proof (cases "FRAME_EXIST_FALSE \<in> set (ring r)")
    case True
    then obtain as bs where ab: "ring r = as @ FRAME_EXIST_FALSE # bs" "FRAME_EXIST_FALSE \<notin> set as"
      using split_list_first by fast
    have "length as < ?n" using arg_cong [OF ab(1), of length] pool by simp
    from scan_hit [OF inv ab this] show ?thesis
      using True ex ab by (simp add: cr_victim_def clock_choice_def clock_distance_def takeWhile_first)
  next
    case False
    obtain r1 where r1: "\<forall>n. victim_scan (length (ring r) + n) r = victim_scan n r1" "cr_inv r1"
        "ring r1 = map aged (ring r)" "evictable r1 = evictable r" "cr_pool r1 = cr_pool r" "cr_ptr r1 = cr_ptr r"
      using scan_skip [OF inv, of "ring r" "[]"] False pool by auto
    obtain as bs where ab: "ring r = as @ FRAME_EXIST_TRUE # bs" "FRAME_EXIST_TRUE \<notin> set as"
      using False evictable_ring [OF inv ne] split_list_first by fast
    have r1': "ring r1 = map aged as @ FRAME_EXIST_FALSE # map aged bs" by (simp add: r1(3) ab aged_def)
    have none: "FRAME_EXIST_FALSE \<notin> set (map aged as)" using ab False by (auto simp: aged_def)
    obtain m where m: "?n = length (ring r) + m" "length (map aged as) < m"
      using arg_cong [OF ab(1), of length] pool by (intro that [of "nat (cr_pool r) + 1"]) auto
    have "cr_victim r = victim_scan m r1" using ex m(1) r1(1) by (simp add: cr_victim_def)
    moreover have "clock_choice r = (cr_ptr r1 + int (length (map aged as))) mod cr_pool r1"
      using False ab r1(5,6) by (simp add: clock_choice_def clock_distance_def takeWhile_first)
    ultimately show ?thesis using scan_hit [OF r1(2) r1' none m(2)] r1(4,5) by simp
  qed
qed

lemma cr_victim_blocked: "cr_inv r \<Longrightarrow> evictable r = {} \<Longrightarrow> cr_victim r = Inl Blocked"
  by (simp add: cr_victim_def cr_inv_def)

lemma evictable_within: "evictable r \<subseteq> {0..<cr_pool r}"
  by (auto simp: evictable_def)

lemma cr_size_card: "cr_inv r \<Longrightarrow> cr_size r = int (card (evictable r))"
  by (simp add: cr_size_def cr_inv_def)

interpretation cr: replacer cr_pin cr_unpin cr_victim cr_size cr_inv cr_pool evictable
proof unfold_locales
  show "\<exists>f r'. cr_victim r = Inr (f, r') \<and> f \<in> evictable r \<and> cr_inv r' \<and> cr_pool r' = cr_pool r \<and> evictable r' = evictable r - {f}"
    if "cr_inv r" "evictable r \<noteq> {}" for r
    using victim_scan_ring [OF that] by blast
qed (rule evictable_within cr_pin_spec cr_unpin_spec cr_victim_blocked cr_size_card; assumption)+

text \<open>
  C15. As long as some frame is unpinned, \<^verbatim>\<open>victim\<close> returns within two rounds: the first frame from the clock pointer on that
  has already lost its second chance, or, when every unpinned frame still has it, the first of them.
  Exactly that frame leaves the replacer.
\<close>

theorem victim_second_chance:
  assumes "cr_inv r" "evictable r \<noteq> {}"
  shows "\<exists>r'. cr_victim r = Inr (clock_choice r, r') \<and> cr_inv r' \<and> clock_choice r \<in> evictable r \<and>
    evictable r' = evictable r - {clock_choice r}"
  using victim_scan_ring [OF assms] by blast

theorem victim_second_chance_witness:
  "\<exists>r r'. bindR (cr_unpin (ClockReplacer 3) 1) (\<lambda>r. cr_unpin r 2) = Inr r \<and> cr_victim r = Inr (1, r') \<and> evictable r' = {2}"
proof -
  let ?r = "\<lparr>cr_flags = [1, 2, 2], cr_pool = 3, cr_ptr = 0, cr_exit = 2\<rparr>"
  have run: "bindR (cr_unpin (ClockReplacer 3) 1) (\<lambda>r. cr_unpin r 2) = Inr ?r"
    by (simp add: cr_unpin_def ClockReplacer_def frame_ok_def frame_flags numeral_eq_Suc)
  have ev: "evictable ?r = {1, 2}"
  proof (rule set_eqI)
    fix f :: int
    consider "f < 0" | "f = 0" | "f = 1" | "f = 2" | "3 \<le> f" by linarith
    then show "f \<in> evictable ?r \<longleftrightarrow> f \<in> {1, 2}" by cases (simp_all add: evictable_def frame_flags)
  qed
  have "cr_inv ?r" by (simp add: cr_inv_def ev frame_flags)
  moreover have "clock_choice ?r = 1"
    by (simp add: clock_choice_def clock_distance_def ring_def frame_flags)
  ultimately have "\<exists>r'. cr_victim ?r = Inr (1, r') \<and> evictable r' = {1, 2} - {1}"
    using victim_second_chance [of ?r] ev by auto
  then show ?thesis using run by auto
qed

text \<open>
  C16. Asked again and again, the clock hands out every evictable frame exactly once; then \<^verbatim>\<open>victim\<close> waits
  until another thread unpins a frame.
\<close>

theorem clock_drains:
  assumes "cr_inv r"
  shows "\<exists>fs r'. victims cr_victim (nat (cr_size r)) r = Inr (fs, r') \<and> distinct fs \<and> set fs = evictable r \<and>
    cr_size r' = 0 \<and> cr_victim r' = Inl Blocked"
proof -
  obtain fs r' where "victims cr_victim (card (evictable r)) r = Inr (fs, r')" "distinct fs" "set fs = evictable r"
      "cr_inv r'" "cr_victim r' = Inl Blocked"
    using cr.drain [OF assms] by blast
  moreover from this have "evictable r' = {}" using cr.victim_law [of r'] by auto
  ultimately show ?thesis using cr.size_law [OF assms] cr.size_law [of r'] by auto
qed

theorem clock_drains_witness:
  "\<exists>fs r'. victims cr_victim (nat (cr_size (ClockReplacer 3))) (ClockReplacer 3) = Inr (fs, r') \<and> fs = [] \<and>
    cr_victim r' = Inl Blocked"
  using clock_drains [of "ClockReplacer 3"] cr_inv_new [of 3] by auto

end
