(* ===== verification/Binary64.thy ===== *)
theory Binary64
  imports Complex_Main "HOL-Library.Log_Nat" Dawn_Prelude
begin

unbundle bit_operations_syntax

text \<open>
  The type \<^verbatim>\<open>double\<close> behind \<^verbatim>\<open>decimal_t\<close>: IEEE 754 binary64 bit patterns, their comparisons, and
  the four arithmetic operations as the exact rational result rounded to nearest, ties to even.
\<close>

type_synonym decimal_t = "64 word"

definition dbl_neg :: "decimal_t \<Rightarrow> bool" where
  "dbl_neg w \<longleftrightarrow> bit w 63"

definition dbl_mag :: "decimal_t \<Rightarrow> int" where
  "dbl_mag w = uint (take_bit 63 w)"

definition dbl_inf_mag :: int where
  "dbl_inf_mag = 0x7ff0000000000000"

definition dbl_is_nan :: "decimal_t \<Rightarrow> bool" where
  "dbl_is_nan w \<longleftrightarrow> dbl_inf_mag < dbl_mag w"

definition dbl_is_inf :: "decimal_t \<Rightarrow> bool" where
  "dbl_is_inf w \<longleftrightarrow> dbl_mag w = dbl_inf_mag"

definition dbl_nan :: decimal_t where
  "dbl_nan = 0x7ff8000000000000"

definition dbl_signed :: "bool \<Rightarrow> int \<Rightarrow> decimal_t" where
  "dbl_signed neg mag = (if neg then word_of_int mag OR push_bit 63 1 else word_of_int mag)"

text \<open>The order key: magnitudes are ordered as integers, the sign flips them, both zeros are 0.\<close>

definition dbl_key :: "decimal_t \<Rightarrow> int" where
  "dbl_key w = (if dbl_neg w then - dbl_mag w else dbl_mag w)"

definition dbl_lt :: "decimal_t \<Rightarrow> decimal_t \<Rightarrow> bool" where
  "dbl_lt a b \<longleftrightarrow> \<not> dbl_is_nan a \<and> \<not> dbl_is_nan b \<and> dbl_key a < dbl_key b"

definition dbl_le :: "decimal_t \<Rightarrow> decimal_t \<Rightarrow> bool" where
  "dbl_le a b \<longleftrightarrow> \<not> dbl_is_nan a \<and> \<not> dbl_is_nan b \<and> dbl_key a \<le> dbl_key b"

definition dbl_eq :: "decimal_t \<Rightarrow> decimal_t \<Rightarrow> bool" where
  "dbl_eq a b \<longleftrightarrow> \<not> dbl_is_nan a \<and> \<not> dbl_is_nan b \<and> dbl_key a = dbl_key b"

text \<open>The rational a finite pattern stands for, and the rounding back.\<close>

definition pow2r :: "int \<Rightarrow> rat" where
  "pow2r e = (if 0 \<le> e then 2 ^ nat e else 1 / 2 ^ nat (- e))"

definition dbl_rat :: "decimal_t \<Rightarrow> rat" where
  "dbl_rat w =
    (let e = dbl_mag w div 2 ^ 52; f = dbl_mag w mod 2 ^ 52;
         m = (if e = 0 then of_int f * pow2r (- 1074) else of_int (2 ^ 52 + f) * pow2r (e - 1075))
     in if dbl_neg w then - m else m)"

definition round_even :: "rat \<Rightarrow> int" where
  "round_even x =
    (let f = \<lfloor>x\<rfloor>; r = x - of_int f
     in if r < 1 / 2 then f else if 1 / 2 < r then f + 1 else if even f then f else f + 1)"

definition rat_log2 :: "rat \<Rightarrow> int" where
  "rat_log2 q =
    (let (n, d) = quotient_of q; e = int (floorlog 2 (nat n)) - int (floorlog 2 (nat d))
     in if pow2r e \<le> q then e else e - 1)"

definition dbl_round :: "bool \<Rightarrow> rat \<Rightarrow> decimal_t" where
  "dbl_round neg q =
    (if q = 0 then dbl_signed neg 0
     else let e = max (- 1022) (rat_log2 q);
              mag = (e + 1022) * 2 ^ 52 + round_even (q / pow2r (e - 52))
          in dbl_signed neg (min mag dbl_inf_mag))"

definition dbl_add :: "decimal_t \<Rightarrow> decimal_t \<Rightarrow> decimal_t" where
  "dbl_add a b =
    (if dbl_is_nan a \<or> dbl_is_nan b then dbl_nan
     else if dbl_is_inf a then (if dbl_is_inf b \<and> dbl_neg a \<noteq> dbl_neg b then dbl_nan else a)
     else if dbl_is_inf b then b
     else let q = dbl_rat a + dbl_rat b
          in if q = 0 then dbl_signed (dbl_neg a \<and> dbl_neg b) 0
             else dbl_round (q < 0) \<bar>q\<bar>)"

definition dbl_minus :: "decimal_t \<Rightarrow> decimal_t \<Rightarrow> decimal_t" where
  "dbl_minus a b = (if dbl_is_nan b then dbl_nan else dbl_add a (b XOR push_bit 63 1))"

definition dbl_mult :: "decimal_t \<Rightarrow> decimal_t \<Rightarrow> decimal_t" where
  "dbl_mult a b =
    (let neg = (dbl_neg a \<noteq> dbl_neg b)
     in if dbl_is_nan a \<or> dbl_is_nan b then dbl_nan
        else if dbl_is_inf a then (if dbl_mag b = 0 then dbl_nan else dbl_signed neg dbl_inf_mag)
        else if dbl_is_inf b then (if dbl_mag a = 0 then dbl_nan else dbl_signed neg dbl_inf_mag)
        else dbl_round neg \<bar>dbl_rat a * dbl_rat b\<bar>)"

definition dbl_divide :: "decimal_t \<Rightarrow> decimal_t \<Rightarrow> decimal_t" where
  "dbl_divide a b =
    (let neg = (dbl_neg a \<noteq> dbl_neg b)
     in if dbl_is_nan a \<or> dbl_is_nan b then dbl_nan
        else if dbl_is_inf a then (if dbl_is_inf b then dbl_nan else dbl_signed neg dbl_inf_mag)
        else if dbl_is_inf b then dbl_signed neg 0
        else if dbl_mag b = 0 then (if dbl_mag a = 0 then dbl_nan else dbl_signed neg dbl_inf_mag)
        else dbl_round neg \<bar>dbl_rat a / dbl_rat b\<bar>)"

definition dbl_of_int :: "int \<Rightarrow> decimal_t" where
  "dbl_of_int i = dbl_round (i < 0) \<bar>of_int i\<bar>"


section \<open>Order laws\<close>

lemma dbl_lt_irrefl: "\<not> dbl_lt a a"
  by (simp add: dbl_lt_def)

lemma dbl_lt_trans: "dbl_lt a b \<Longrightarrow> dbl_lt b c \<Longrightarrow> dbl_lt a c"
  by (simp add: dbl_lt_def)

lemma dbl_trichotomy:
  "\<not> dbl_is_nan a \<Longrightarrow> \<not> dbl_is_nan b \<Longrightarrow> dbl_lt a b \<or> dbl_eq a b \<or> dbl_lt b a"
  by (auto simp: dbl_lt_def dbl_eq_def)

lemma dbl_le_iff: "dbl_le a b \<longleftrightarrow> dbl_lt a b \<or> dbl_eq a b"
  by (auto simp: dbl_le_def dbl_lt_def dbl_eq_def)

end
