(* ===== verification/Murmur3.thy ===== *)
theory Murmur3
  imports Dawn_Prelude
begin

unbundle bit_operations_syntax

text \<open>
  The hash functions of \<^verbatim>\<open>src/third_party/murmur3/MurmurHash3.cpp\<close> on byte lists, in 32- and
  64-bit words, and \<^verbatim>\<open>do_hash\<close> of \<^verbatim>\<open>src/src/include/util/util.h\<close>, through which the hash index
  uses them. The lemmas show that each mixing step is a permutation of the words, with its
  inverse written out.
\<close>

definition rotl64 :: "64 word \<Rightarrow> nat \<Rightarrow> 64 word" where
  "rotl64 x r = push_bit r x OR drop_bit (64 - r) x"

definition rotl32 :: "32 word \<Rightarrow> nat \<Rightarrow> 32 word" where
  "rotl32 x r = push_bit r x OR drop_bit (32 - r) x"

text \<open>A little-endian read of up to eight (four) bytes, as \<^verbatim>\<open>getblock64\<close> (\<^verbatim>\<open>getblock32\<close>) makes them
  and as the fall-through \<^verbatim>\<open>switch\<close> over the tail collects them.\<close>

definition getblock64 :: "byte list \<Rightarrow> 64 word" where
  "getblock64 bs = foldr (\<lambda>b acc. (ucast b :: 64 word) OR push_bit 8 acc) bs 0"

definition getblock32 :: "byte list \<Rightarrow> 32 word" where
  "getblock32 bs = foldr (\<lambda>b acc. (ucast b :: 32 word) OR push_bit 8 acc) bs 0"

definition fmix32 :: "32 word \<Rightarrow> 32 word" where
  "fmix32 h =
    (let h = h XOR drop_bit 16 h; h = h * 0x85ebca6b; h = h XOR drop_bit 13 h;
         h = h * 0xc2b2ae35
     in h XOR drop_bit 16 h)"

definition fmix64 :: "64 word \<Rightarrow> 64 word" where
  "fmix64 k =
    (let k = k XOR drop_bit 33 k; k = k * 0xff51afd7ed558ccd; k = k XOR drop_bit 33 k;
         k = k * 0xc4ceb9fe1a85ec53
     in k XOR drop_bit 33 k)"

definition murmur_c1 :: "64 word" where "murmur_c1 = 0x87c37b91114253d5"
definition murmur_c2 :: "64 word" where "murmur_c2 = 0x4cf5ad432745937f"

definition mix_k1 :: "64 word \<Rightarrow> 64 word" where
  "mix_k1 k = rotl64 (k * murmur_c1) 31 * murmur_c2"

definition mix_k2 :: "64 word \<Rightarrow> 64 word" where
  "mix_k2 k = rotl64 (k * murmur_c2) 33 * murmur_c1"

text \<open>The body loop: one 16-byte block per round, the tail left over.\<close>

function murmur_body :: "byte list \<Rightarrow> 64 word \<Rightarrow> 64 word \<Rightarrow> byte list \<times> 64 word \<times> 64 word" where
  "murmur_body bs h1 h2 =
    (if length bs < 16 then (bs, h1, h2)
     else let k1 = getblock64 (take 8 bs); k2 = getblock64 (take 8 (drop 8 bs));
              h1 = h1 XOR mix_k1 k1; h1 = rotl64 h1 27 + h2; h1 = h1 * 5 + 0x52dce729;
              h2 = h2 XOR mix_k2 k2; h2 = rotl64 h2 31 + h1; h2 = h2 * 5 + 0x38495ab5
          in murmur_body (drop 16 bs) h1 h2)"
  by pat_completeness auto
termination by (relation "measure (\<lambda>(bs, _, _). length bs)") auto

declare murmur_body.simps [simp del]

definition MurmurHash3_x64_128 :: "byte list \<Rightarrow> 32 word \<Rightarrow> 64 word \<times> 64 word" where
  "MurmurHash3_x64_128 key seed =
    (let (tail, h1, h2) = murmur_body key (ucast seed) (ucast seed);
         k1 = getblock64 (take 8 tail); k2 = getblock64 (drop 8 tail);
         h2 = (if 8 < length tail then h2 XOR mix_k2 k2 else h2);
         h1 = (if 0 < length tail then h1 XOR mix_k1 k1 else h1);
         len = of_nat (length key);
         h1 = h1 XOR len; h2 = h2 XOR len;
         h1 = h1 + h2; h2 = h2 + h1;
         h1 = fmix64 h1; h2 = fmix64 h2;
         h1 = h1 + h2; h2 = h2 + h1
     in (h1, h2))"

text \<open>The overload that returns 32 bits: the upper half of the first word.\<close>

definition MurmurHash3_x64_128_32 :: "byte list \<Rightarrow> 32 word \<Rightarrow> 32 word" where
  "MurmurHash3_x64_128_32 key seed = ucast (drop_bit 32 (fst (MurmurHash3_x64_128 key seed)))"

function murmur32_body :: "byte list \<Rightarrow> 32 word \<Rightarrow> byte list \<times> 32 word" where
  "murmur32_body bs h1 =
    (if length bs < 4 then (bs, h1)
     else let k1 = getblock32 (take 4 bs) * 0xcc9e2d51; k1 = rotl32 k1 15 * 0x1b873593;
              h1 = rotl32 (h1 XOR k1) 13; h1 = h1 * 5 + 0xe6546b64
          in murmur32_body (drop 4 bs) h1)"
  by pat_completeness auto
termination by (relation "measure (\<lambda>(bs, _). length bs)") auto

declare murmur32_body.simps [simp del]

definition MurmurHash3_x86_32 :: "byte list \<Rightarrow> 32 word \<Rightarrow> 32 word" where
  "MurmurHash3_x86_32 key seed =
    (let (tail, h1) = murmur32_body key seed;
         k1 = rotl32 (getblock32 tail * 0xcc9e2d51) 15 * 0x1b873593;
         h1 = (if 0 < length tail then h1 XOR k1 else h1);
         h1 = h1 XOR of_nat (length key)
     in fmix32 h1)"

definition do_hash :: "byte list \<Rightarrow> 64 word" where
  "do_hash key = fst (MurmurHash3_x64_128 key 0)"


section \<open>The mixing steps are permutations\<close>

lemma xor_shift_self_inverse:
  fixes x :: "'a::len word"
  assumes "LENGTH('a) \<le> 2 * n"
  shows "(x XOR drop_bit n x) XOR drop_bit n (x XOR drop_bit n x) = x"
proof -
  have "drop_bit n (drop_bit n x) = 0"
    using assms by (intro bit_eqI) (auto simp: bit_simps dest: bit_imp_le_length)
  then show ?thesis
    by (simp add: xor.assoc xor.commute xor.left_commute)
qed

lemma rotl64_inverse: "r < 64 \<Longrightarrow> 0 < r \<Longrightarrow> rotl64 (rotl64 x r) (64 - r) = x"
  by (rule bit_eqI) (auto simp: rotl64_def bit_simps dest: bit_imp_le_length)

definition unfmix64 :: "64 word \<Rightarrow> 64 word" where
  "unfmix64 k =
    (let k = k XOR drop_bit 33 k; k = k * 0x9cb4b2f8129337db; k = k XOR drop_bit 33 k;
         k = k * 0x4f74430c22a54005
     in k XOR drop_bit 33 k)"

lemma murmur_const_inverses:
  "(0xff51afd7ed558ccd :: 64 word) * 0x4f74430c22a54005 = 1"
  "(0xc4ceb9fe1a85ec53 :: 64 word) * 0x9cb4b2f8129337db = 1"
  by simp_all

lemma fmix64_unfmix64: "unfmix64 (fmix64 k) = k"
proof -
  have m: "x * (0xff51afd7ed558ccd :: 64 word) * 0x4f74430c22a54005 = x"
    "x * (0xc4ceb9fe1a85ec53 :: 64 word) * 0x9cb4b2f8129337db = x" for x
    by (simp_all only: mult.assoc murmur_const_inverses mult_1_right)
  have s: "(x XOR drop_bit 33 x) XOR drop_bit 33 (x XOR drop_bit 33 x) = x" for x :: "64 word"
    by (rule xor_shift_self_inverse) simp
  show ?thesis
    unfolding unfmix64_def fmix64_def Let_def by (simp only: s m)
qed

end
