(* ===== verification/Values.thy ===== *)
theory Values
  imports Binary64 Murmur3
begin

text \<open>
  The data types of \<^verbatim>\<open>src/src/include/data\<close>: \<^verbatim>\<open>TypeId\<close>, \<^verbatim>\<open>CmpResult\<close>, \<^verbatim>\<open>Value\<close> and the operations of
  the four \<^verbatim>\<open>Type\<close> singletons \<^verbatim>\<open>Boolean\<close>, \<^verbatim>\<open>Integer\<close>, \<^verbatim>\<open>Decimal\<close> and \<^verbatim>\<open>Char\<close>.

  A \<^verbatim>\<open>Value\<close> is a tagged union; reading a member that is not the stored one, calling an
  operation of the type \<^verbatim>\<open>kInvalid\<close> (index -1 of the singleton array) and overflowing an
  \<^verbatim>\<open>integer_t\<close> are undefined behaviour. A character value holds its whole buffer,
  \<^verbatim>\<open>str_len_ + 1\<close> bytes with the final zero.
\<close>

datatype TypeId = kInvalid | kBoolean | kInteger | kDecimal | kChar

datatype CmpResult = kTrue | kFalse

datatype ComparisonType =
  kEqual | kNotEqual | kLessThan | kLessThanOrEqual | kGreaterThan | kGreaterThanOrEqual

datatype AggregationType = kCountAggregate | kSumAggregate | kMinAggregate | kMaxAggregate

datatype "value" =
    VInvalid
  | VBoolean bool
  | VInteger int
  | VDecimal decimal_t
  | VChar "byte list"

definition type_to_string :: "TypeId \<Rightarrow> string" where
  "type_to_string t =
    (case t of kInvalid \<Rightarrow> ''kInvalid'' | kBoolean \<Rightarrow> ''kBoolean'' | kInteger \<Rightarrow> ''kInteger''
     | kDecimal \<Rightarrow> ''kDecimal'' | kChar \<Rightarrow> ''kChar'')"

definition get_type_size :: "TypeId \<Rightarrow> int" where
  "get_type_size t =
    (case t of kBoolean \<Rightarrow> BOOLEAN_T_SIZE | kInteger \<Rightarrow> INTEGER_T_SIZE
     | kDecimal \<Rightarrow> DECIMAL_T_SIZE | _ \<Rightarrow> - 1)"

fun get_type_id :: "value \<Rightarrow> TypeId" where
  "get_type_id VInvalid = kInvalid"
| "get_type_id (VBoolean _) = kBoolean"
| "get_type_id (VInteger _) = kInteger"
| "get_type_id (VDecimal _) = kDecimal"
| "get_type_id (VChar _) = kChar"

text \<open>The string a zero-terminated buffer holds.\<close>

definition c_str :: "byte list \<Rightarrow> byte list" where
  "c_str bs = takeWhile (\<lambda>b. b \<noteq> 0) bs"

section \<open>Constructors\<close>

definition construct_cmp :: "CmpResult \<Rightarrow> value" where
  "construct_cmp r = VBoolean (r = kTrue)"

definition construct_char :: "byte list \<Rightarrow> value" where
  "construct_char bs = VChar (bs @ [0])"

definition value_of_cstring :: "byte list \<Rightarrow> value" where
  "value_of_cstring bs = construct_char (c_str bs)"

text \<open>Little-endian encodings of the scalar members.\<close>

definition int_bytes :: "int \<Rightarrow> byte list" where
  "int_bytes i = [word_of_int i, word_of_int (i div 256), word_of_int (i div 65536),
                  word_of_int (i div 16777216)]"

definition bytes_int :: "byte list \<Rightarrow> int" where
  "bytes_int bs = rd32 (put_bytes (\<lambda>_. 0) 0 bs) 0"

definition dbl_bytes :: "decimal_t \<Rightarrow> byte list" where
  "dbl_bytes w = map (\<lambda>k. ucast (drop_bit (8 * k) w)) [0..<8]"

definition bytes_dbl :: "byte list \<Rightarrow> decimal_t" where
  "bytes_dbl bs = getblock64 (take 8 bs)"

text \<open>What \<^verbatim>\<open>serialize_to\<close> writes at its destination.\<close>

fun serialize_to :: "value \<Rightarrow> byte list result" where
  "serialize_to (VBoolean b) = Inr [if b then 1 else 0]"
| "serialize_to (VInteger i) = Inr (int_bytes i)"
| "serialize_to (VDecimal d) = Inr (dbl_bytes d)"
| "serialize_to (VChar buf) = Inr (c_str buf @ [0])"
| "serialize_to VInvalid = Inl UndefBehaviour"

text \<open>
  The constructor \<^verbatim>\<open>Value(char*, TypeId, size_t_)\<close>: for characters the buffer of
  \<^verbatim>\<open>str_size + 1\<close> zeros takes the source string and its terminator; a longer string is written
  past the buffer.
\<close>

definition value_from :: "byte list \<Rightarrow> TypeId \<Rightarrow> int \<Rightarrow> value result" where
  "value_from src t str_size =
    (case t of
       kBoolean \<Rightarrow> Inr (VBoolean (hd src \<noteq> 0))
     | kInteger \<Rightarrow> Inr (VInteger (bytes_int src))
     | kDecimal \<Rightarrow> Inr (VDecimal (bytes_dbl src))
     | kChar \<Rightarrow>
         (if 0 \<notin> set src \<or> str_size < int (length (c_str src)) then Inl UndefBehaviour
          else Inr (VChar (c_str src @ replicate (nat (str_size + 1) - length (c_str src)) 0)))
     | kInvalid \<Rightarrow> Inl UndefBehaviour)"

definition get_char_size :: "value \<Rightarrow> int" where
  "get_char_size v = (case v of VChar buf \<Rightarrow> int (length buf) - 1 | _ \<Rightarrow> - 1)"


section \<open>Equality, order, hash\<close>

fun value_eq :: "value \<Rightarrow> value \<Rightarrow> bool" where
  "value_eq (VInteger a) (VInteger b) = (a = b)"
| "value_eq (VBoolean a) (VBoolean b) = (a = b)"
| "value_eq (VDecimal a) (VDecimal b) = dbl_eq a b"
| "value_eq (VChar a) (VChar b) = (c_str a = c_str b)"
| "value_eq _ _ = False"

text \<open>\<^verbatim>\<open>operator!=\<close> also answers false on values of different types.\<close>

fun value_neq :: "value \<Rightarrow> value \<Rightarrow> bool" where
  "value_neq (VInteger a) (VInteger b) = (a \<noteq> b)"
| "value_neq (VBoolean a) (VBoolean b) = (a \<noteq> b)"
| "value_neq (VDecimal a) (VDecimal b) = (\<not> dbl_eq a b)"
| "value_neq (VChar a) (VChar b) = (c_str a \<noteq> c_str b)"
| "value_neq _ _ = False"

text \<open>\<^verbatim>\<open>std::string::compare\<close>: bytes as unsigned characters, a proper prefix is smaller.\<close>

fun string_less :: "byte list \<Rightarrow> byte list \<Rightarrow> bool" where
  "string_less [] [] = False"
| "string_less [] (_ # _) = True"
| "string_less (_ # _) [] = False"
| "string_less (a # as) (b # bs) = (uint a < uint b \<or> (a = b \<and> string_less as bs))"

fun value_less :: "value \<Rightarrow> value \<Rightarrow> bool" where
  "value_less (VInteger a) (VInteger b) = (a < b)"
| "value_less (VDecimal a) (VDecimal b) = dbl_lt a b"
| "value_less (VChar a) (VChar b) = string_less (c_str a) (c_str b)"
| "value_less _ _ = False"

fun get_hash_value :: "value \<Rightarrow> 64 word" where
  "get_hash_value (VBoolean b) = do_hash [if b then 1 else 0]"
| "get_hash_value (VInteger i) = do_hash (int_bytes i)"
| "get_hash_value (VDecimal d) = do_hash (dbl_bytes d)"
| "get_hash_value (VChar buf) = do_hash (butlast buf)"
| "get_hash_value VInvalid = 0"

definition checked32 :: "int \<Rightarrow> int result" where
  "checked32 i = (if in32 i then Inr i else Inl UndefBehaviour)"

fun value_incr :: "value \<Rightarrow> value result" where
  "value_incr (VInteger i) = bindR (checked32 (i + 1)) (\<lambda>i. Inr (VInteger i))"
| "value_incr (VDecimal d) = Inr (VDecimal (dbl_add d (dbl_of_int 1)))"
| "value_incr v = Inr v"


section \<open>The Type singletons\<close>

fun get_integer :: "value \<Rightarrow> int result" where
  "get_integer (VInteger i) = Inr i"
| "get_integer _ = Inl UndefBehaviour"

fun get_boolean :: "value \<Rightarrow> bool result" where
  "get_boolean (VBoolean b) = Inr b"
| "get_boolean _ = Inl UndefBehaviour"

fun get_decimal :: "value \<Rightarrow> decimal_t result" where
  "get_decimal (VDecimal d) = Inr d"
| "get_decimal _ = Inl UndefBehaviour"

definition cmp_result :: "bool \<Rightarrow> CmpResult" where
  "cmp_result b = (if b then kTrue else kFalse)"

definition integer_cmp :: "(int \<Rightarrow> int \<Rightarrow> bool) \<Rightarrow> value \<Rightarrow> value \<Rightarrow> CmpResult result" where
  "integer_cmp p l r =
    bindR (get_integer l) (\<lambda>a. bindR (get_integer r) (\<lambda>b. Inr (cmp_result (p a b))))"

definition decimal_cmp :: "(decimal_t \<Rightarrow> decimal_t \<Rightarrow> bool) \<Rightarrow> value \<Rightarrow> value \<Rightarrow> CmpResult result" where
  "decimal_cmp p l r =
    bindR (get_decimal l) (\<lambda>a. bindR (get_decimal r) (\<lambda>b. Inr (cmp_result (p a b))))"

definition boolean_cmp :: "(bool \<Rightarrow> bool \<Rightarrow> bool) \<Rightarrow> value \<Rightarrow> value \<Rightarrow> CmpResult result" where
  "boolean_cmp p l r =
    bindR (get_boolean l) (\<lambda>a. bindR (get_boolean r) (\<lambda>b. Inr (cmp_result (p a b))))"

definition cmp_less :: "TypeId \<Rightarrow> value \<Rightarrow> value \<Rightarrow> CmpResult result" where
  "cmp_less t l r =
    (case t of kBoolean \<Rightarrow> Inr kFalse | kInteger \<Rightarrow> integer_cmp (<) l r
     | kDecimal \<Rightarrow> decimal_cmp dbl_lt l r | kChar \<Rightarrow> Inr kFalse | kInvalid \<Rightarrow> Inl UndefBehaviour)"

definition cmp_less_and_eq :: "TypeId \<Rightarrow> value \<Rightarrow> value \<Rightarrow> CmpResult result" where
  "cmp_less_and_eq t l r =
    (case t of kBoolean \<Rightarrow> Inr kFalse | kInteger \<Rightarrow> integer_cmp (\<le>) l r
     | kDecimal \<Rightarrow> decimal_cmp dbl_le l r | kChar \<Rightarrow> Inr kFalse | kInvalid \<Rightarrow> Inl UndefBehaviour)"

definition cmp_eq :: "TypeId \<Rightarrow> value \<Rightarrow> value \<Rightarrow> CmpResult result" where
  "cmp_eq t l r =
    (case t of kBoolean \<Rightarrow> boolean_cmp (=) l r | kInteger \<Rightarrow> integer_cmp (=) l r
     | kDecimal \<Rightarrow> decimal_cmp dbl_eq l r | kChar \<Rightarrow> Inr kFalse | kInvalid \<Rightarrow> Inl UndefBehaviour)"

definition cmp_not_eq :: "TypeId \<Rightarrow> value \<Rightarrow> value \<Rightarrow> CmpResult result" where
  "cmp_not_eq t l r =
    (case t of kBoolean \<Rightarrow> boolean_cmp (\<noteq>) l r | kInteger \<Rightarrow> integer_cmp (\<noteq>) l r
     | kDecimal \<Rightarrow> decimal_cmp (\<lambda>a b. \<not> dbl_eq a b) l r | kChar \<Rightarrow> Inr kFalse
     | kInvalid \<Rightarrow> Inl UndefBehaviour)"

definition cmp_greater :: "TypeId \<Rightarrow> value \<Rightarrow> value \<Rightarrow> CmpResult result" where
  "cmp_greater t l r =
    (case t of kBoolean \<Rightarrow> Inr kFalse | kInteger \<Rightarrow> integer_cmp (>) l r
     | kDecimal \<Rightarrow> decimal_cmp (\<lambda>a b. dbl_lt b a) l r | kChar \<Rightarrow> Inr kFalse
     | kInvalid \<Rightarrow> Inl UndefBehaviour)"

definition cmp_greater_and_eq :: "TypeId \<Rightarrow> value \<Rightarrow> value \<Rightarrow> CmpResult result" where
  "cmp_greater_and_eq t l r =
    (case t of kBoolean \<Rightarrow> Inr kFalse | kInteger \<Rightarrow> integer_cmp (\<ge>) l r
     | kDecimal \<Rightarrow> decimal_cmp (\<lambda>a b. dbl_le b a) l r | kChar \<Rightarrow> Inr kFalse
     | kInvalid \<Rightarrow> Inl UndefBehaviour)"

definition integer_op :: "(int \<Rightarrow> int \<Rightarrow> int result) \<Rightarrow> value \<Rightarrow> value \<Rightarrow> value result" where
  "integer_op f l r =
    bindR (get_integer l) (\<lambda>a. bindR (get_integer r) (\<lambda>b. bindR (f a b) (\<lambda>i. Inr (VInteger i))))"

definition decimal_op :: "(decimal_t \<Rightarrow> decimal_t \<Rightarrow> decimal_t) \<Rightarrow> value \<Rightarrow> value \<Rightarrow> value result" where
  "decimal_op f l r =
    bindR (get_decimal l) (\<lambda>a. bindR (get_decimal r) (\<lambda>b. Inr (VDecimal (f a b))))"

definition trunc_div :: "int \<Rightarrow> int \<Rightarrow> int" where
  "trunc_div a b = sgn a * sgn b * (\<bar>a\<bar> div \<bar>b\<bar>)"

text \<open>The arithmetic of \<^verbatim>\<open>Boolean\<close> and \<^verbatim>\<open>Char\<close> returns the invalid value.\<close>

definition type_op :: "(int \<Rightarrow> int \<Rightarrow> int result) \<Rightarrow> (decimal_t \<Rightarrow> decimal_t \<Rightarrow> decimal_t) \<Rightarrow>
    TypeId \<Rightarrow> value \<Rightarrow> value \<Rightarrow> value result" where
  "type_op fi fd t l r =
    (case t of kBoolean \<Rightarrow> Inr VInvalid | kInteger \<Rightarrow> integer_op fi l r
     | kDecimal \<Rightarrow> decimal_op fd l r | kChar \<Rightarrow> Inr VInvalid | kInvalid \<Rightarrow> Inl UndefBehaviour)"

definition value_minus :: "TypeId \<Rightarrow> value \<Rightarrow> value \<Rightarrow> value result" where
  "value_minus = type_op (\<lambda>a b. checked32 (a - b)) dbl_minus"

definition value_add :: "TypeId \<Rightarrow> value \<Rightarrow> value \<Rightarrow> value result" where
  "value_add = type_op (\<lambda>a b. checked32 (a + b)) dbl_add"

definition value_multiply :: "TypeId \<Rightarrow> value \<Rightarrow> value \<Rightarrow> value result" where
  "value_multiply = type_op (\<lambda>a b. checked32 (a * b)) dbl_mult"

definition value_divide :: "TypeId \<Rightarrow> value \<Rightarrow> value \<Rightarrow> value result" where
  "value_divide =
    type_op (\<lambda>a b. if b = 0 then Inl UndefBehaviour else checked32 (trunc_div a b)) dbl_divide"

definition value_min :: "TypeId \<Rightarrow> value \<Rightarrow> value \<Rightarrow> value result" where
  "value_min = type_op (\<lambda>a b. Inr (if b < a then b else a)) (\<lambda>a b. if dbl_lt b a then b else a)"

definition value_max :: "TypeId \<Rightarrow> value \<Rightarrow> value \<Rightarrow> value result" where
  "value_max = type_op (\<lambda>a b. Inr (if a < b then b else a)) (\<lambda>a b. if dbl_lt a b then b else a)"


section \<open>Encode and decode\<close>

lemma length_int_bytes [simp]: "length (int_bytes i) = 4"
  by (simp add: int_bytes_def)

lemma length_dbl_bytes [simp]: "length (dbl_bytes d) = 8"
  by (simp add: dbl_bytes_def)

lemma wr32_put_bytes: "wr32 m a i = put_bytes m a (int_bytes i)"
proof
  fix x
  have "x = a \<or> x = a + 1 \<or> x = a + 2 \<or> x = a + 3 \<or> x < a \<or> a + 4 \<le> x" by arith
  then show "wr32 m a i x = put_bytes m a (int_bytes i) x"
    by (auto simp: wr32_def put_bytes_def int_bytes_def)
qed

lemma bytes_int_bytes [simp]: "in32 i \<Longrightarrow> bytes_int (int_bytes i) = i"
  by (simp add: bytes_int_def wr32_put_bytes [symmetric])

lemma low_byte_split: "(ucast (ucast x :: 8 word) :: 64 word) OR push_bit 8 (drop_bit 8 x) = x"
proof (rule bit_eqI)
  fix n
  show "bit ((ucast (ucast x :: 8 word) :: 64 word) OR push_bit 8 (drop_bit 8 x)) n \<longleftrightarrow> bit x n"
    by (cases "n < 8") (auto simp: bit_simps dest: bit_imp_le_length)
qed

lemma getblock64_suffix:
  assumes "k \<le> 8"
  shows "getblock64 (map (\<lambda>k. ucast (drop_bit (8 * k) d)) [k..<8]) = drop_bit (8 * k) d"
  using assms
proof (induction k rule: inc_induct)
  case base
  show ?case by (rule bit_eqI) (auto simp: getblock64_def bit_simps dest: bit_imp_le_length)
next
  case (step k)
  have "getblock64 (map (\<lambda>k. ucast (drop_bit (8 * k) d)) [k..<8])
      = ucast (ucast (drop_bit (8 * k) d) :: 8 word) OR push_bit 8 (drop_bit 8 (drop_bit (8 * k) d))"
    using step by (simp add: upt_conv_Cons getblock64_def add.commute)
  then show ?case by (simp only: low_byte_split)
qed

lemma bytes_dbl_bytes [simp]: "bytes_dbl (dbl_bytes d) = d"
  using getblock64_suffix [of 0 d] by (simp add: bytes_dbl_def dbl_bytes_def)

lemma c_str_append_zero: "c_str (c_str buf @ 0 # bs) = c_str buf"
  by (induction buf) (simp_all add: c_str_def)

lemma c_str_no_zero: "0 \<notin> set (c_str bs)"
  by (auto simp: c_str_def dest: set_takeWhileD)

end
