(* ===== verification/Schema_Tuple.thy ===== *)
theory Schema_Tuple
  imports Values
begin

text \<open>
  \<^verbatim>\<open>Column\<close>, \<^verbatim>\<open>Schema\<close>, \<^verbatim>\<open>RID\<close> and \<^verbatim>\<open>Tuple\<close> of \<^verbatim>\<open>src/src/include/table\<close> and \<^verbatim>\<open>src/src/table\<close>. A tuple is a byte
  block whose layout the schema gives; the lemmas show that the schemas the code builds tile
  the block without gap or overlap, and that reading a column of a freshly built tuple gives
  the value stored there.

  Memory that the code allocates without initialising it is an argument \<open>junk\<close>: the byte at a
  given position of a given allocation.
\<close>

type_synonym junk = "nat \<Rightarrow> nat \<Rightarrow> byte"

section \<open>Columns and schemas\<close>

record column =
  col_type :: TypeId
  col_name :: string
  col_offset :: int
  col_fixed_length :: int
  col_char_length :: int

definition column_type_size :: "TypeId \<Rightarrow> int" where
  "column_type_size t =
    (case t of kInvalid \<Rightarrow> - 1 | kBoolean \<Rightarrow> BOOLEAN_T_SIZE | kInteger \<Rightarrow> INTEGER_T_SIZE
     | kChar \<Rightarrow> 0 | kDecimal \<Rightarrow> DECIMAL_T_SIZE)"

text \<open>The constructor for the fixed-size types. It leaves \<^verbatim>\<open>char_length_\<close> uninitialised, for which
  0 stands: no code reads it in a column of these types, and none calls this constructor with
  \<^verbatim>\<open>kChar\<close>.\<close>

definition Column_fixed :: "TypeId \<Rightarrow> string \<Rightarrow> int \<Rightarrow> column" where
  "Column_fixed t name off =
    \<lparr>col_type = t, col_name = name, col_offset = off, col_fixed_length = column_type_size t,
     col_char_length = 0\<rparr>"

definition Column_char :: "string \<Rightarrow> int \<Rightarrow> int \<Rightarrow> column" where
  "Column_char name off len =
    \<lparr>col_type = kChar, col_name = name, col_offset = off, col_fixed_length = PTR_SIZE,
     col_char_length = len\<rparr>"

definition get_data_size :: "column \<Rightarrow> int" where
  "get_data_size c = (if col_type c \<noteq> kChar then col_fixed_length c else col_char_length c)"

definition is_columns_equal :: "column \<Rightarrow> column \<Rightarrow> bool" where
  "is_columns_equal c1 c2 \<longleftrightarrow>
    col_type c1 = col_type c2 \<and> col_name c1 = col_name c2 \<and>
    col_offset c1 = col_offset c2 \<and> get_data_size c1 = get_data_size c2"

record schema =
  sch_columns :: "column list"
  sch_length :: int
  sch_key_idx :: int

definition mk_Schema :: "column list \<Rightarrow> schema" where
  "mk_Schema cols = \<lparr>sch_columns = cols, sch_length = sum_list (map get_data_size cols), sch_key_idx = 0\<rparr>"

definition get_tuple_size :: "schema \<Rightarrow> int" where
  "get_tuple_size s = sch_length s"

definition get_column_num :: "schema \<Rightarrow> int" where
  "get_column_num s = int (length (sch_columns s))"

definition get_column :: "schema \<Rightarrow> int \<Rightarrow> column result" where
  "get_column s i =
    (if 0 \<le> i \<and> i < get_column_num s then Inr (sch_columns s ! nat i) else Inl UndefBehaviour)"

definition get_column_idx :: "schema \<Rightarrow> string \<Rightarrow> int" where
  "get_column_idx s name =
    (case find (\<lambda>i. col_name (sch_columns s ! i) = name) [0..<length (sch_columns s)] of
       Some i \<Rightarrow> int i | None \<Rightarrow> - 1)"

definition get_key_idx :: "schema \<Rightarrow> int" where
  "get_key_idx s = sch_key_idx s"

definition set_key_idx :: "schema \<Rightarrow> int \<Rightarrow> schema" where
  "set_key_idx s k = s\<lparr>sch_key_idx := k\<rparr>"

text \<open>The loop of \<^verbatim>\<open>create_table_schema\<close>; running out of character lengths reads past the vector.\<close>

fun schema_columns :: "TypeId list \<Rightarrow> string list \<Rightarrow> int list \<Rightarrow> int \<Rightarrow> column list result" where
  "schema_columns (kChar # ts) (n # ns) (l # ls) off =
     bindR (schema_columns ts ns ls (off + l)) (\<lambda>cs. Inr (Column_char n off l # cs))"
| "schema_columns (kChar # ts) (n # ns) [] off = Inl UndefBehaviour"
| "schema_columns (t # ts) (n # ns) ls off =
     bindR (schema_columns ts ns ls (off + get_type_size t)) (\<lambda>cs. Inr (Column_fixed t n off # cs))"
| "schema_columns _ _ _ _ = Inr []"

definition create_table_schema :: "TypeId list \<Rightarrow> string list \<Rightarrow> int list \<Rightarrow> schema option result" where
  "create_table_schema types names char_len =
    (if length types \<noteq> length names then Inr None
     else bindR (schema_columns types names char_len 0) (\<lambda>cols. Inr (Some (mk_Schema cols))))"

definition is_table_schemas_equal :: "schema \<Rightarrow> schema \<Rightarrow> bool" where
  "is_table_schemas_equal s1 s2 \<longleftrightarrow>
    length (sch_columns s1) = length (sch_columns s2) \<and> get_tuple_size s1 = get_tuple_size s2 \<and>
    list_all2 is_columns_equal (sch_columns s1) (sch_columns s2)"


section \<open>Tuples\<close>

record rid =
  rid_page :: int
  rid_slot :: int

definition RID :: "int \<Rightarrow> int \<Rightarrow> rid" where
  "RID p s = \<lparr>rid_page = p, rid_slot = s\<rparr>"

definition invalid_rid :: rid where
  "invalid_rid = RID INVALID_PAGE_ID INVALID_SLOT_NUM"

record tuple =
  tp_allocated :: bool
  tp_rid :: rid
  tp_size :: int
  tp_data :: "byte list"

definition Tuple_default :: tuple where
  "Tuple_default = \<lparr>tp_allocated = False, tp_rid = invalid_rid, tp_size = - 1, tp_data = []\<rparr>"

definition Tuple_sized :: "junk \<Rightarrow> rid \<Rightarrow> int \<Rightarrow> tuple" where
  "Tuple_sized junk r sz =
    (if 0 < sz then \<lparr>tp_allocated = True, tp_rid = r, tp_size = sz, tp_data = map (junk 0) [0..<nat sz]\<rparr>
     else \<lparr>tp_allocated = False, tp_rid = r, tp_size = sz, tp_data = []\<rparr>)"

definition put_slice :: "'a list \<Rightarrow> nat \<Rightarrow> 'a list \<Rightarrow> 'a list" where
  "put_slice xs off bs = take off xs @ bs @ drop (off + length bs) xs"

definition get_slice :: "'a list \<Rightarrow> nat \<Rightarrow> nat \<Rightarrow> 'a list" where
  "get_slice xs off n = take n (drop off xs)"

text \<open>Writing inside the tuple's block; outside it the behaviour is undefined.\<close>

definition tuple_store :: "tuple \<Rightarrow> int \<Rightarrow> byte list \<Rightarrow> tuple result" where
  "tuple_store t off bs =
    (if 0 \<le> off \<and> off + int (length bs) \<le> int (length (tp_data t))
     then Inr (t\<lparr>tp_data := put_slice (tp_data t) (nat off) bs\<rparr>) else Inl UndefBehaviour)"

definition tuple_load :: "tuple \<Rightarrow> int \<Rightarrow> int \<Rightarrow> byte list result" where
  "tuple_load t off n =
    (if tp_allocated t \<and> 0 \<le> off \<and> 0 \<le> n \<and> off + n \<le> int (length (tp_data t))
     then Inr (get_slice (tp_data t) (nat off) (nat n)) else Inl UndefBehaviour)"

definition get_value :: "tuple \<Rightarrow> schema \<Rightarrow> int \<Rightarrow> value result" where
  "get_value t s idx =
    bindR (get_column s idx) (\<lambda>col.
      if col_type col = kChar
      then bindR (tuple_load t (col_offset col) (get_data_size col)) (\<lambda>bs.
             value_from (bs @ [0]) kChar (get_data_size col))
      else bindR (tuple_load t (col_offset col) (get_type_size (col_type col))) (\<lambda>bs.
             value_from bs (col_type col) (- 1)))"

text \<open>
  \<^verbatim>\<open>set_value\<close> sends a character column through a temporary of \<^verbatim>\<open>str_size + 1\<close> bytes, of which the
  value fills the front; the rest of it is whatever the stack held.
\<close>

definition set_value :: "(nat \<Rightarrow> byte) \<Rightarrow> tuple \<Rightarrow> schema \<Rightarrow> value \<Rightarrow> int \<Rightarrow> tuple result" where
  "set_value junk t s v idx =
    bindR (get_column s idx) (\<lambda>col. bindR (serialize_to v) (\<lambda>bs.
      if col_type col = kChar
      then (let n = get_data_size col
            in if n < 0 \<or> n + 1 < int (length bs) then Inl UndefBehaviour
               else tuple_store t (col_offset col)
                      (take (nat n) (bs @ map junk [length bs..<nat n])))
      else tuple_store t (col_offset col) bs))"

fun tuple_init_loop :: "junk \<Rightarrow> value list \<Rightarrow> schema \<Rightarrow> nat \<Rightarrow> nat \<Rightarrow> tuple \<Rightarrow> tuple result" where
  "tuple_init_loop junk vs s 0 i t = Inr t"
| "tuple_init_loop junk vs s (Suc n) i t =
     (if i < length vs
      then bindR (set_value (junk (Suc i)) t s (vs ! i) (int i))
             (\<lambda>t. tuple_init_loop junk vs s n (Suc i) t)
      else Inl UndefBehaviour)"

definition tuple_init :: "junk \<Rightarrow> value list \<Rightarrow> schema \<Rightarrow> rid \<Rightarrow> tuple result" where
  "tuple_init junk vs s r =
    tuple_init_loop junk vs s (nat (get_column_num s)) 0
      \<lparr>tp_allocated = True, tp_rid = r, tp_size = get_tuple_size s,
       tp_data = map (junk 0) [0..<nat (get_tuple_size s)]\<rparr>"

definition reconstruct :: "junk \<Rightarrow> tuple \<Rightarrow> value list \<Rightarrow> schema \<Rightarrow> tuple result" where
  "reconstruct junk t vs s = tuple_init junk vs s (tp_rid t)"

definition tuple_eq :: "tuple \<Rightarrow> tuple \<Rightarrow> bool" where
  "tuple_eq t1 t2 \<longleftrightarrow>
    tp_allocated t1 = tp_allocated t2 \<and> tp_size t1 = tp_size t2 \<and>
    (tp_allocated t1 \<longrightarrow> take (nat (tp_size t1)) (tp_data t1) = take (nat (tp_size t1)) (tp_data t2))"

definition tuple_is_equal :: "tuple \<Rightarrow> tuple \<Rightarrow> bool" where
  "tuple_is_equal t1 t2 \<longleftrightarrow> tuple_eq t1 t2 \<and> tp_rid t1 = tp_rid t2"


section \<open>Byte lists\<close>

lemma length_put_slice [simp]: "off + length bs \<le> length xs \<Longrightarrow> length (put_slice xs off bs) = length xs"
  by (simp add: put_slice_def)

lemma get_put_slice [simp]:
  "off \<le> length xs \<Longrightarrow> n = length bs \<Longrightarrow> get_slice (put_slice xs off bs) off n = bs"
  by (simp add: get_slice_def put_slice_def)

lemma get_put_slice_other:
  assumes "off + length bs \<le> length xs" "o2 + n \<le> off \<or> off + length bs \<le> o2"
  shows "get_slice (put_slice xs off bs) o2 n = get_slice xs o2 n"
  using assms(2)
proof
  assume "o2 + n \<le> off"
  then show ?thesis using assms(1) by (auto simp: get_slice_def put_slice_def drop_take)
next
  assume "off + length bs \<le> o2"
  then show ?thesis using assms(1)
    by (simp add: get_slice_def put_slice_def drop_append min_absorb2)
qed


section \<open>Layout of the schemas the code builds\<close>

text \<open>Each column starts where the previous one ends and the schema's length is the end of the last.\<close>

fun cols_tile :: "column list \<Rightarrow> int \<Rightarrow> int \<Rightarrow> bool" where
  "cols_tile [] off end_off = (off = end_off)"
| "cols_tile (c # cs) off end_off =
     (col_offset c = off \<and> 0 \<le> get_data_size c \<and> cols_tile cs (off + get_data_size c) end_off)"

definition wf_schema :: "schema \<Rightarrow> bool" where
  "wf_schema s \<longleftrightarrow>
    cols_tile (sch_columns s) 0 (sch_length s) \<and>
    list_all (\<lambda>c. col_type c = kChar \<or>
                  (col_type c \<noteq> kInvalid \<and> get_data_size c = get_type_size (col_type c)))
      (sch_columns s)"

lemma cols_tile_length:
  "cols_tile cs off e \<Longrightarrow> e = off + sum_list (map get_data_size cs)"
  by (induction cs arbitrary: off) force+

lemma cols_tile_mono: "cols_tile cs off e \<Longrightarrow> off \<le> e"
  by (induction cs arbitrary: off) force+

lemma cols_tile_nth:
  assumes "cols_tile cs off e" "i < length cs"
  shows "off \<le> col_offset (cs ! i)" "0 \<le> get_data_size (cs ! i)"
    "col_offset (cs ! i) + get_data_size (cs ! i) \<le> e"
  using assms
proof (induction cs arbitrary: off i)
  case (Cons c cs)
  { case 1 then show ?case using Cons.IH(1) by (cases i) force+ }
  { case 2 then show ?case using Cons.IH(2) by (cases i) force+ }
  { case 3 then show ?case using Cons.IH(3) cols_tile_mono by (cases i) force+ }
qed auto

lemma cols_tile_disjoint:
  assumes "cols_tile cs off e" "i < j" "j < length cs"
  shows "col_offset (cs ! i) + get_data_size (cs ! i) \<le> col_offset (cs ! j)"
  using assms
proof (induction cs arbitrary: off i j)
  case (Cons c cs)
  show ?case
  proof (cases i)
    case 0
    with Cons.prems cols_tile_nth(1) [of cs "off + get_data_size c" e "j - 1"] show ?thesis
      by (cases j) auto
  next
    case (Suc k)
    with Cons.prems Cons.IH [of "off + get_data_size c" k "j - 1"] show ?thesis
      by (cases j) auto
  qed
qed auto


definition wf_types :: "TypeId list \<Rightarrow> int list \<Rightarrow> bool" where
  "wf_types ts ls \<longleftrightarrow>
    kInvalid \<notin> set ts \<and> length (filter (\<lambda>t. t = kChar) ts) \<le> length ls \<and> list_all (\<lambda>l. 0 \<le> l) ls"

lemma get_data_size_simps [simp]:
  "get_data_size (Column_char n off l) = l"
  "t \<noteq> kChar \<Longrightarrow> get_data_size (Column_fixed t n off) = column_type_size t"
  "col_offset (Column_char n off l) = off"
  "col_offset (Column_fixed t n off) = off"
  "col_type (Column_char n off l) = kChar"
  "col_type (Column_fixed t n off) = t"
  by (simp_all add: get_data_size_def Column_char_def Column_fixed_def)

lemma column_type_size_eq: "t \<noteq> kChar \<Longrightarrow> column_type_size t = get_type_size t"
  by (cases t) (simp_all add: column_type_size_def get_type_size_def)

lemma get_type_size_nonneg: "t \<noteq> kChar \<Longrightarrow> t \<noteq> kInvalid \<Longrightarrow> 0 \<le> get_type_size t"
  by (cases t) (simp_all add: get_type_size_def config_defs)

lemma schema_columns_tile:
  assumes "length ts = length ns" "wf_types ts ls"
  shows "\<exists>cs. schema_columns ts ns ls off = Inr cs \<and> length cs = length ts \<and>
      map col_type cs = ts \<and> cols_tile cs off (off + sum_list (map get_data_size cs)) \<and>
      list_all (\<lambda>c. col_type c = kChar \<or>
        (col_type c \<noteq> kInvalid \<and> get_data_size c = get_type_size (col_type c))) cs"
  using assms
proof (induction ts arbitrary: ns ls off)
  case Nil
  then show ?case by simp
next
  case (Cons t ts)
  then obtain n ns' where ns: "ns = n # ns'" by (cases ns) auto
  show ?case
  proof (cases "t = kChar")
    case True
    with Cons.prems obtain l ls' where ls: "ls = l # ls'" by (cases ls) (auto simp: wf_types_def)
    have "wf_types ts ls'" using Cons.prems True ls by (simp add: wf_types_def)
    with Cons.IH [of ns' ls' "off + l"] Cons.prems ns ls True show ?thesis
      by (auto simp: wf_types_def add.assoc)
  next
    case False
    then have eq: "schema_columns (t # ts) ns ls off =
        bindR (schema_columns ts ns' ls (off + get_type_size t)) (\<lambda>cs. Inr (Column_fixed t n off # cs))"
      using ns by (cases t) simp_all
    have "wf_types ts ls" "t \<noteq> kInvalid" using Cons.prems False by (auto simp: wf_types_def)
    with Cons.IH [of ns' ls "off + get_type_size t"] Cons.prems ns
    obtain cs where "schema_columns ts ns' ls (off + get_type_size t) = Inr cs" "length cs = length ts"
        "map col_type cs = ts"
        "cols_tile cs (off + get_type_size t) (off + get_type_size t + sum_list (map get_data_size cs))"
        "list_all (\<lambda>c. col_type c = kChar \<or>
          (col_type c \<noteq> kInvalid \<and> get_data_size c = get_type_size (col_type c))) cs"
      by auto
    then show ?thesis
      using False \<open>t \<noteq> kInvalid\<close> unfolding eq
      by (intro exI [of _ "Column_fixed t n off # cs"])
        (simp add: column_type_size_eq get_type_size_nonneg add.assoc)
  qed
qed

lemma create_table_schema_wf:
  assumes "length ts = length ns" "wf_types ts ls"
  obtains s where "create_table_schema ts ns ls = Inr (Some s)" "wf_schema s"
    "length (sch_columns s) = length ts" "map col_type (sch_columns s) = ts" "get_key_idx s = 0"
proof -
  obtain cs where cs: "schema_columns ts ns ls 0 = Inr cs" "length cs = length ts"
      "map col_type cs = ts" "cols_tile cs 0 (sum_list (map get_data_size cs))"
      "list_all (\<lambda>c. col_type c = kChar \<or>
        (col_type c \<noteq> kInvalid \<and> get_data_size c = get_type_size (col_type c))) cs"
    using schema_columns_tile [OF assms, of 0] by auto
  have "create_table_schema ts ns ls = Inr (Some (mk_Schema cs))"
    using cs(1) assms(1) by (simp add: create_table_schema_def)
  moreover have "wf_schema (mk_Schema cs)"
    using cs by (simp add: wf_schema_def mk_Schema_def)
  ultimately show ?thesis
    using cs that by (simp add: mk_Schema_def get_key_idx_def)
qed


section \<open>Store and load of column values\<close>

text \<open>A value a column can hold, and what comes back of it: characters are padded with zeros.\<close>

fun value_fits :: "column \<Rightarrow> value \<Rightarrow> bool" where
  "value_fits c (VBoolean b) = (col_type c = kBoolean)"
| "value_fits c (VInteger i) = (col_type c = kInteger \<and> in32 i)"
| "value_fits c (VDecimal d) = (col_type c = kDecimal)"
| "value_fits c (VChar buf) = (col_type c = kChar \<and> int (length (c_str buf)) \<le> get_data_size c)"
| "value_fits c VInvalid = False"

fun stored_value :: "column \<Rightarrow> value \<Rightarrow> value" where
  "stored_value c (VChar buf) =
     VChar (c_str buf @ replicate (nat (get_data_size c + 1) - length (c_str buf)) 0)"
| "stored_value c v = v"

fun col_bytes :: "(nat \<Rightarrow> byte) \<Rightarrow> column \<Rightarrow> value \<Rightarrow> byte list" where
  "col_bytes junk c (VBoolean b) = [if b then 1 else 0]"
| "col_bytes junk c (VInteger i) = int_bytes i"
| "col_bytes junk c (VDecimal d) = dbl_bytes d"
| "col_bytes junk c (VChar buf) =
     take (nat (get_data_size c))
       (c_str buf @ 0 # map junk [Suc (length (c_str buf))..<nat (get_data_size c)])"
| "col_bytes junk c VInvalid = []"

definition col_decode :: "column \<Rightarrow> byte list \<Rightarrow> value result" where
  "col_decode c bs =
    (if col_type c = kChar then value_from (bs @ [0]) kChar (get_data_size c)
     else value_from bs (col_type c) (- 1))"

lemma c_str_take_zero:
  assumes "length (c_str buf) \<le> n"
  shows "c_str (take n (c_str buf @ 0 # rest) @ [0]) = c_str buf"
proof -
  have "\<exists>tl. take n (c_str buf @ 0 # rest) @ [0] = c_str buf @ 0 # tl"
    using assms by (cases "n - length (c_str buf)") auto
  then show ?thesis by (metis c_str_append_zero)
qed

lemma length_col_bytes:
  "wf_schema s \<Longrightarrow> c \<in> set (sch_columns s) \<Longrightarrow> value_fits c v \<Longrightarrow>
   length (col_bytes junk c v) = nat (get_data_size c)"
  by (cases v) (auto simp: wf_schema_def list_all_iff get_type_size_def config_defs)

lemma col_decode_bytes:
  assumes "value_fits c v"
  shows "col_decode c (col_bytes junk c v) = Inr (stored_value c v)"
proof (cases v)
  case (VChar buf)
  let ?rest = "map junk [Suc (length (c_str buf))..<nat (get_data_size c)]"
  have len: "length (c_str buf) \<le> nat (get_data_size c)" using assms VChar by auto
  show ?thesis
    using assms VChar c_str_take_zero [OF len, of ?rest]
    by (auto simp: col_decode_def value_from_def)
qed (use assms in \<open>auto simp: col_decode_def value_from_def\<close>)

lemma get_column_nth: "i < length (sch_columns s) \<Longrightarrow> get_column s (int i) = Inr (sch_columns s ! i)"
  by (simp add: get_column_def get_column_num_def)

lemma wf_schema_nth:
  assumes "wf_schema s" "i < length (sch_columns s)"
  shows "0 \<le> col_offset (sch_columns s ! i)" "0 \<le> get_data_size (sch_columns s ! i)"
    "col_offset (sch_columns s ! i) + get_data_size (sch_columns s ! i) \<le> sch_length s"
    "col_type (sch_columns s ! i) \<noteq> kChar \<Longrightarrow>
       get_data_size (sch_columns s ! i) = get_type_size (col_type (sch_columns s ! i))"
  using assms cols_tile_nth [of "sch_columns s" 0 "sch_length s" i]
  by (auto simp: wf_schema_def list_all_length)

definition tuple_of :: "schema \<Rightarrow> tuple \<Rightarrow> bool" where
  "tuple_of s t \<longleftrightarrow> tp_allocated t \<and> tp_size t = get_tuple_size s \<and>
    int (length (tp_data t)) = get_tuple_size s"

lemma set_value_eq:
  assumes "wf_schema s" "i < length (sch_columns s)" "tuple_of s t" "value_fits (sch_columns s ! i) v"
  shows "set_value junk t s v (int i) =
    Inr (t\<lparr>tp_data := put_slice (tp_data t) (nat (col_offset (sch_columns s ! i)))
                         (col_bytes junk (sch_columns s ! i) v)\<rparr>)"
proof -
  let ?c = "sch_columns s ! i"
  have l: "int (length (col_bytes junk ?c v)) = get_data_size ?c"
    using length_col_bytes [OF assms(1) nth_mem [OF assms(2)] assms(4)]
      wf_schema_nth(2) [OF assms(1,2)] by simp
  have st: "tuple_store t (col_offset ?c) (col_bytes junk ?c v)
      = Inr (t\<lparr>tp_data := put_slice (tp_data t) (nat (col_offset ?c)) (col_bytes junk ?c v)\<rparr>)"
    using l wf_schema_nth(1,3) [OF assms(1,2)] assms(3)
    by (simp add: tuple_store_def tuple_of_def get_tuple_size_def)
  show ?thesis
    using assms(4) st wf_schema_nth(2) [OF assms(1,2)]
    by (cases v) (auto simp: set_value_def get_column_nth [OF assms(2)] Let_def)
qed

lemma get_value_decode:
  assumes "wf_schema s" "i < length (sch_columns s)" "tuple_of s t"
  shows "get_value t s (int i) =
    col_decode (sch_columns s ! i)
      (get_slice (tp_data t) (nat (col_offset (sch_columns s ! i))) (nat (get_data_size (sch_columns s ! i))))"
  using assms(3) wf_schema_nth [OF assms(1,2)]
  by (auto simp: get_value_def get_column_nth [OF assms(2)] tuple_load_def tuple_of_def
      get_tuple_size_def col_decode_def)

lemma tuple_init_loop_spec:
  assumes wf: "wf_schema s"
    and fits: "\<forall>i < length (sch_columns s). value_fits (sch_columns s ! i) (vs ! i)"
    and len: "length vs = length (sch_columns s)"
    and t: "tuple_of s t"
    and k: "k + n = length (sch_columns s)"
    and pre: "\<forall>i < k. get_value t s (int i) = Inr (stored_value (sch_columns s ! i) (vs ! i))"
  shows "\<exists>t'. tuple_init_loop junk vs s n k t = Inr t' \<and> tuple_of s t' \<and> tp_rid t' = tp_rid t \<and>
    (\<forall>i < length (sch_columns s). get_value t' s (int i) = Inr (stored_value (sch_columns s ! i) (vs ! i)))"
  using t k pre
proof (induction n arbitrary: k t)
  case 0
  then show ?case by auto
next
  case (Suc n)
  let ?c = "sch_columns s ! k" and ?cs = "sch_columns s"
  have kl: "k < length ?cs" using Suc.prems(2) by simp
  let ?bs = "col_bytes (junk (Suc k)) ?c (vs ! k)"
  define t1 where "t1 = t\<lparr>tp_data := put_slice (tp_data t) (nat (col_offset ?c)) ?bs\<rparr>"
  have fk: "value_fits ?c (vs ! k)" using fits kl by blast
  have sv: "set_value (junk (Suc k)) t s (vs ! k) (int k) = Inr t1"
    unfolding t1_def by (rule set_value_eq [OF wf kl Suc.prems(1) fk])
  have lb: "length ?bs = nat (get_data_size ?c)"
    by (rule length_col_bytes [OF wf nth_mem [OF kl] fk])
  note wk = wf_schema_nth [OF wf kl]
  have tl: "int (length (tp_data t)) = sch_length s"
    using Suc.prems(1) by (simp add: tuple_of_def get_tuple_size_def)
  have room: "nat (col_offset ?c) + length ?bs \<le> length (tp_data t)" using lb wk tl by linarith
  have t1: "tuple_of s t1"
    using Suc.prems(1) room by (simp add: t1_def tuple_of_def)
  have "get_value t1 s (int i) = Inr (stored_value (?cs ! i) (vs ! i))" if i: "i < Suc k" for i
  proof (cases "i = k")
    case True
    then show ?thesis
      using get_value_decode [OF wf kl t1] lb room col_decode_bytes [OF fk] by (simp add: t1_def)
  next
    case False
    then have il: "i < k" "i < length ?cs" using i kl by auto
    note wi = wf_schema_nth [OF wf il(2)]
    have "col_offset (?cs ! i) + get_data_size (?cs ! i) \<le> col_offset ?c"
      using cols_tile_disjoint [OF _ il(1) kl] wf by (auto simp: wf_schema_def)
    then have "nat (col_offset (?cs ! i)) + nat (get_data_size (?cs ! i)) \<le> nat (col_offset ?c)"
      using wi by linarith
    then have "get_value t1 s (int i) = get_value t s (int i)"
      using get_value_decode [OF wf il(2)] t1 Suc.prems(1) room
      by (simp add: t1_def get_put_slice_other)
    then show ?thesis using Suc.prems(3) il by simp
  qed
  then obtain t' where "tuple_init_loop junk vs s n (Suc k) t1 = Inr t'" "tuple_of s t'"
      "tp_rid t' = tp_rid t1"
      "\<forall>i < length ?cs. get_value t' s (int i) = Inr (stored_value (?cs ! i) (vs ! i))"
    using Suc.IH [of t1 "Suc k"] t1 Suc.prems(2) by auto
  then show ?case using sv kl len by (auto simp: t1_def)
qed

lemma tuple_init_spec:
  assumes "wf_schema s"
    and "length vs = length (sch_columns s)"
    and "\<forall>i < length (sch_columns s). value_fits (sch_columns s ! i) (vs ! i)"
  shows "\<exists>t. tuple_init junk vs s r = Inr t \<and> tuple_of s t \<and> tp_rid t = r \<and>
    (\<forall>i < length vs. get_value t s (int i) = Inr (stored_value (sch_columns s ! i) (vs ! i)))"
proof -
  have "0 \<le> sch_length s"
    using assms(1) cols_tile_mono by (auto simp: wf_schema_def)
  then have "tuple_of s \<lparr>tp_allocated = True, tp_rid = r, tp_size = get_tuple_size s,
       tp_data = map (junk 0) [0..<nat (get_tuple_size s)]\<rparr>"
    by (simp add: tuple_of_def get_tuple_size_def)
  from tuple_init_loop_spec [OF assms(1,3,2) this, of 0 "length (sch_columns s)" junk] show ?thesis
    using assms(2) by (simp add: tuple_init_def get_column_num_def)
qed

text \<open>A value that fits reads back equal, under the equality the code itself uses.\<close>

lemma value_eq_stored:
  assumes "value_fits c v" "\<And>d. v = VDecimal d \<Longrightarrow> \<not> dbl_is_nan d"
  shows "value_eq v (stored_value c v)"
  using assms
proof (cases v)
  case (VChar buf)
  have "c_str (c_str buf @ replicate k 0) = c_str buf" if "0 < k" for k
    using that c_str_append_zero [of buf] by (cases k) simp_all
  moreover have "0 < nat (get_data_size c + 1) - length (c_str buf)"
    using assms VChar by auto
  ultimately show ?thesis using VChar by simp
qed (auto simp: dbl_eq_def)


section \<open>Properties\<close>



end
