(* ===== verification/Page.thy ===== *)
theory Page
  imports Dawn_Prelude RW_Latch Schema_Tuple
begin

text \<open>
  The page object of \<^verbatim>\<open>src/src/include/storage/page/page.h\<close>: the in-memory fields and the 4096
  bytes of data.  The data of a page is a byte memory of which only the addresses from 0 up to
  \<^const>\<open>PAGE_SIZE\<close> mean anything; \<open>in_page\<close> is the bound every access of the code has to respect, and
  an access outside it is undefined behaviour.  \<^verbatim>\<open>lsn_\<close> is not initialised by the constructors, so
  its first value is an argument of them.
\<close>

record page =
  pg_id :: int
  pg_pin :: int
  pg_dirty :: bool
  pg_lsn :: int
  pg_latch :: rwlatch
  pg_data :: mem

definition in_page :: "int \<Rightarrow> int \<Rightarrow> bool" where
  "in_page a n \<longleftrightarrow> 0 \<le> a \<and> 0 \<le> n \<and> a + n \<le> PAGE_SIZE"

definition Page_default :: "int \<Rightarrow> page" where
  "Page_default lsn0 =
    \<lparr>pg_id = INVALID_PAGE_ID, pg_pin = 0, pg_dirty = False, pg_lsn = lsn0, pg_latch = new_latch,
     pg_data = memset (\<lambda>_. 0) 0 0 PAGE_SIZE\<rparr>"

definition Page_of :: "int \<Rightarrow> int \<Rightarrow> mem option \<Rightarrow> page" where
  "Page_of lsn0 pid data_src =
    (let d = memset (\<lambda>_. 0) 0 0 PAGE_SIZE;
         d = (case data_src of None \<Rightarrow> d | Some src \<Rightarrow> memcpy d 0 src 0 PAGE_SIZE);
         d = d(0 := STATUS_EXIST);
         d = wr32 d LSN_OFFSET (- 1);
         d = wr32 d PAGE_ID_OFFSET pid
     in \<lparr>pg_id = pid, pg_pin = 0, pg_dirty = False, pg_lsn = lsn0, pg_latch = new_latch, pg_data = d\<rparr>)"

definition page_w_lock :: "page \<Rightarrow> page result" where
  "page_w_lock p = bindR (w_lock (pg_latch p)) (\<lambda>l. Inr (p\<lparr>pg_latch := l\<rparr>))"

definition page_w_unlock :: "page \<Rightarrow> page" where
  "page_w_unlock p = p\<lparr>pg_latch := w_unlock (pg_latch p)\<rparr>"

definition page_r_lock :: "page \<Rightarrow> page result" where
  "page_r_lock p = bindR (r_lock (pg_latch p)) (\<lambda>l. Inr (p\<lparr>pg_latch := l\<rparr>))"

definition page_r_unlock :: "page \<Rightarrow> page" where
  "page_r_unlock p = p\<lparr>pg_latch := r_unlock (pg_latch p)\<rparr>"

definition add_pin_count :: "page \<Rightarrow> page" where
  "add_pin_count p = p\<lparr>pg_pin := pg_pin p + 1\<rparr>"

definition decrease_pin_count :: "page \<Rightarrow> page" where
  "decrease_pin_count p = p\<lparr>pg_pin := pg_pin p - 1\<rparr>"

definition set_pin_count_zero :: "page \<Rightarrow> page" where
  "set_pin_count_zero p = p\<lparr>pg_pin := 0\<rparr>"

definition set_is_dirty :: "bool \<Rightarrow> page \<Rightarrow> page" where
  "set_is_dirty d p = p\<lparr>pg_dirty := d\<rparr>"

definition set_page_id :: "int \<Rightarrow> page \<Rightarrow> page" where
  "set_page_id pid p = p\<lparr>pg_data := wr32 (pg_data p) PAGE_ID_OFFSET pid, pg_id := pid\<rparr>"

definition set_lsn :: "int \<Rightarrow> page \<Rightarrow> page" where
  "set_lsn lsn p = p\<lparr>pg_data := wr32 (pg_data p) LSN_OFFSET lsn, pg_lsn := lsn\<rparr>"

definition set_status :: "page \<Rightarrow> page" where
  "set_status p = p\<lparr>pg_data := (pg_data p)(STATUS_OFFSET := STATUS_EXIST)\<rparr>"

lemmas page_op_defs =
  add_pin_count_def decrease_pin_count_def set_pin_count_zero_def set_is_dirty_def
  set_page_id_def set_lsn_def set_status_def


section \<open>The payload\<close>

text \<open>The header operations leave every byte behind the common header alone.\<close>

definition same_payload :: "mem \<Rightarrow> mem \<Rightarrow> bool" where
  "same_payload m m' \<longleftrightarrow> (\<forall>a. COM_PG_HEADER_SZ \<le> a \<and> a < PAGE_SIZE \<longrightarrow> m a = m' a)"

lemma same_payload_refl [simp]: "same_payload m m"
  by (simp add: same_payload_def)

lemma same_payload_sym: "same_payload m m' \<Longrightarrow> same_payload m' m"
  by (simp add: same_payload_def)

lemma same_payload_trans: "same_payload m m' \<Longrightarrow> same_payload m' m'' \<Longrightarrow> same_payload m m''"
  by (simp add: same_payload_def)

lemma header_ops_payload [simp]:
  "same_payload (pg_data (set_page_id pid p)) (pg_data p)"
  "same_payload (pg_data (set_lsn lsn p)) (pg_data p)"
  "same_payload (pg_data (set_status p)) (pg_data p)"
  by (auto simp: same_payload_def set_page_id_def set_lsn_def set_status_def wr32_def config_defs)

lemma same_payload_rd32:
  "same_payload m m' \<Longrightarrow> COM_PG_HEADER_SZ \<le> a \<Longrightarrow> a + 4 \<le> PAGE_SIZE \<Longrightarrow> rd32 m a = rd32 m' a"
  by (rule rd32_cong) (simp add: same_payload_def)

lemma same_payload_get_bytes:
  "same_payload m m' \<Longrightarrow> COM_PG_HEADER_SZ \<le> a \<Longrightarrow> a + n \<le> PAGE_SIZE \<Longrightarrow>
   get_bytes m a n = get_bytes m' a n"
  by (rule get_bytes_cong) (simp add: same_payload_def)

lemma Page_of_header:
  assumes "in32 pid"
  shows "pg_data (Page_of lsn0 pid src) STATUS_OFFSET = STATUS_EXIST"
    "rd32 (pg_data (Page_of lsn0 pid src)) LSN_OFFSET = - 1"
    "rd32 (pg_data (Page_of lsn0 pid src)) PAGE_ID_OFFSET = pid"
  using assms
  by (simp_all add: Page_of_def Let_def config_defs rd32_wr32_other rd32_wr32_same wr32_other)

end
