(* ===== verification/Buffer_Pool.thy ===== *)
theory Buffer_Pool
  imports Disk_Pages Clock_Replacer Page
begin

text \<open>
  The buffer pool of \<^verbatim>\<open>src/src/include/buffer/buffer_pool_manager.h\<close> and
  \<^verbatim>\<open>src/src/buffer/buffer_pool_manager.cpp\<close>: an array of pages (frames), the list of free frames, the
  map from page ids to frames, the replacer and the disk manager below.  A \<^verbatim>\<open>Page*\<close> is the number of its
  frame and a null pointer is None.  Both latches, of the pool and of every page, are part of the
  state, so a path that forgets to release one is visible.  The loop that waits for a free frame has
  fuel for one eviction per frame.  The map is a \<^verbatim>\<open>std::unordered_map\<close>; the order in which
  \<^verbatim>\<open>flush_all\<close> walks it is an argument.
\<close>

record bpm =
  bp_disk :: disk_manager
  bp_pages :: "page list"
  bp_pool :: int
  bp_avail :: int
  bp_alloced :: int
  bp_free :: "int list"
  bp_map :: "int \<rightharpoonup> int"
  bp_replacer :: clock_replacer
  bp_latch :: rwlatch

definition BufferPoolManager :: "int \<Rightarrow> disk_manager \<Rightarrow> int \<Rightarrow> bpm" where
  "BufferPoolManager lsn0 dm pool_size =
    \<lparr>bp_disk = dm, bp_pages = replicate (nat pool_size) (Page_default lsn0), bp_pool = pool_size,
     bp_avail = (pool_size div 5) * 4, bp_alloced = 0, bp_free = map int [0..<nat pool_size],
     bp_map = Map.empty, bp_replacer = ClockReplacer pool_size, bp_latch = new_latch\<rparr>"

definition with_page :: "bpm \<Rightarrow> int \<Rightarrow> (page \<Rightarrow> page result) \<Rightarrow> bpm result" where
  "with_page b f g =
    (if f < 0 \<or> length (bp_pages b) \<le> nat f then Inl UndefBehaviour
     else bindR (g (bp_pages b ! nat f)) (\<lambda>p. Inr (b\<lparr>bp_pages := (bp_pages b)[nat f := p]\<rparr>)))"

definition get_frame_id :: "bpm \<Rightarrow> int \<Rightarrow> int" where
  "get_frame_id b pid = (case bp_map b pid of None \<Rightarrow> - 1 | Some f \<Rightarrow> f)"

definition evict_page :: "bpm \<Rightarrow> int \<Rightarrow> int \<Rightarrow> bpm result" where
  "evict_page b pid f =
    bindR (with_page b f page_w_lock) (\<lambda>b. bindR (w_lock (bp_latch b)) (\<lambda>l.
      if bp_map b pid = None
      then bindR (with_page b f (\<lambda>p. Inr (page_w_unlock p))) (\<lambda>b. Inr (b\<lparr>bp_latch := w_unlock l\<rparr>))
      else bindR (with_page b f (\<lambda>p. Inr (set_page_id INVALID_PAGE_ID p))) (\<lambda>b.
        let b = b\<lparr>bp_map := (bp_map b)(pid := None), bp_free := bp_free b @ [f], bp_latch := w_unlock l\<rparr>;
            p = bp_pages b ! nat f
        in bindR (if pg_dirty p
                  then bindR (write_page (bp_disk b) pid (pg_data p)) (\<lambda>(_, d). Inr (b\<lparr>bp_disk := d\<rparr>))
                  else Inr b) (\<lambda>b. with_page b f (\<lambda>p. Inr (page_w_unlock p))))))"

text \<open>\<^verbatim>\<open>while (free_list_.empty())\<close> of \<^verbatim>\<open>alloc_page\<close> and \<^verbatim>\<open>get_page\<close>, entered and left with the pool latched.\<close>

fun ensure_free :: "nat \<Rightarrow> bpm \<Rightarrow> bpm result" where
  "ensure_free 0 b = Inl OutOfFuel"
| "ensure_free (Suc n) b =
    (if bp_free b \<noteq> [] then Inr b
     else
       let b = b\<lparr>bp_latch := w_unlock (bp_latch b)\<rparr>
       in bindR (cr_victim (bp_replacer b)) (\<lambda>(f, r).
            let b = b\<lparr>bp_replacer := r\<rparr>
            in if f < 0 \<or> length (bp_pages b) \<le> nat f then Inl UndefBehaviour
               else bindR (evict_page b (pg_id (bp_pages b ! nat f)) f) (\<lambda>b.
                      bindR (w_lock (bp_latch b)) (\<lambda>l. ensure_free n (b\<lparr>bp_latch := l\<rparr>)))))"

definition wait_for_frame :: "bpm \<Rightarrow> bpm result" where
  "wait_for_frame b = ensure_free (length (bp_pages b) + 2) b"

definition bpm_alloc_page :: "bpm \<Rightarrow> byte \<Rightarrow> (int \<times> bpm) result" where
  "bpm_alloc_page b flag =
    bindR (alloc_page (bp_disk b) flag) (\<lambda>(pid, d).
    let b = b\<lparr>bp_disk := d\<rparr>
    in bindR (w_lock (bp_latch b)) (\<lambda>l. bindR (wait_for_frame (b\<lparr>bp_latch := l\<rparr>)) (\<lambda>b.
       let f = hd (bp_free b);
           b = b\<lparr>bp_free := tl (bp_free b),
                 bp_map := (if bp_map b pid = None then (bp_map b)(pid \<mapsto> f) else bp_map b),
                 bp_latch := w_unlock (bp_latch b)\<rparr>
       in bindR (with_page b f (\<lambda>p. bindR (page_w_lock p) (\<lambda>p.
            Inr (page_w_unlock (set_status (set_page_id pid (set_lsn (- 1)
                  (add_pin_count (set_pin_count_zero (set_is_dirty True p)))))))))) (\<lambda>b. Inr (f, b)))))"

definition new_page :: "bpm \<Rightarrow> (int \<times> bpm) result" where
  "new_page b = bpm_alloc_page b STATUS_EXIST"

definition new_tmp_page :: "bpm \<Rightarrow> (int \<times> bpm) result" where
  "new_tmp_page b = bpm_alloc_page b STATUS_TMP"

definition unpin_page :: "bpm \<Rightarrow> int \<Rightarrow> bool \<Rightarrow> bpm result" where
  "unpin_page b pid dirty =
    bindR (w_lock (bp_latch b)) (\<lambda>l.
      case bp_map b pid of
        None \<Rightarrow> Inr (b\<lparr>bp_latch := w_unlock l\<rparr>)
      | Some f \<Rightarrow>
          bindR (with_page b f (\<lambda>p. bindR (page_w_lock p) (\<lambda>p.
             Inr (decrease_pin_count (if dirty then set_is_dirty dirty p else p))))) (\<lambda>b.
          let pin = pg_pin (bp_pages b ! nat f)
          in bindR (if pin = 0
                    then bindR (cr_unpin (bp_replacer b) f) (\<lambda>r. Inr (b\<lparr>bp_replacer := r\<rparr>))
                    else Inr b) (\<lambda>b.
             bindR (with_page b f (\<lambda>p. Inr (page_w_unlock p))) (\<lambda>b. Inr (b\<lparr>bp_latch := w_unlock l\<rparr>)))))"

definition flush_page :: "bpm \<Rightarrow> int \<Rightarrow> (bool \<times> bpm) result" where
  "flush_page b pid =
    bindR (r_lock (bp_latch b)) (\<lambda>l.
      let f = get_frame_id b pid;
          b = b\<lparr>bp_latch := r_unlock l\<rparr>
      in if f = - 1 then Inr (False, b)
         else bindR (with_page b f page_w_lock) (\<lambda>b.
           bindR (write_page (bp_disk b) pid (pg_data (bp_pages b ! nat f))) (\<lambda>(ok, d).
             let b = b\<lparr>bp_disk := d\<rparr>
             in bindR (with_page b f (\<lambda>p. Inr (page_w_unlock (if ok then set_is_dirty False p else p)))) (\<lambda>b.
                  Inr (ok, b)))))"

fun flush_list :: "int list \<Rightarrow> bpm \<Rightarrow> bool \<Rightarrow> (bool \<times> bpm) result" where
  "flush_list [] b ok = Inr (ok, b)"
| "flush_list (pid # pids) b ok =
    bindR (flush_page b pid) (\<lambda>(good, b). flush_list pids b (if good then ok else False))"

definition flush_all :: "int list \<Rightarrow> bpm \<Rightarrow> (bool \<times> bpm) result" where
  "flush_all order b =
    bindR (r_lock (bp_latch b)) (\<lambda>l.
      bindR (flush_list order (b\<lparr>bp_latch := l\<rparr>) True) (\<lambda>(ok, b).
        Inr (ok, b\<lparr>bp_latch := r_unlock (bp_latch b)\<rparr>)))"

definition get_page :: "bpm \<Rightarrow> int \<Rightarrow> (int option \<times> bpm) result" where
  "get_page b pid =
    (if pid \<le> INVALID_PAGE_ID then Inr (None, b)
     else bindR (w_lock (bp_latch b)) (\<lambda>l.
       case bp_map b pid of
         Some f \<Rightarrow>
           bindR (with_page b f (\<lambda>p. Inr (add_pin_count p))) (\<lambda>b.
           bindR (cr_pin (bp_replacer b) f) (\<lambda>r.
             Inr (Some f, b\<lparr>bp_replacer := r, bp_latch := w_unlock l\<rparr>)))
       | None \<Rightarrow>
           bindR (wait_for_frame (b\<lparr>bp_latch := l\<rparr>)) (\<lambda>b.
           let f = hd (bp_free b)
           in if f < 0 \<or> length (bp_pages b) \<le> nat f then Inl UndefBehaviour
              else bindR (read_page (bp_disk b) pid (pg_data (bp_pages b ! nat f))) (\<lambda>(ok, data, d).
                let b = b\<lparr>bp_disk := d, bp_pages := (bp_pages b)[nat f := (bp_pages b ! nat f)\<lparr>pg_data := data\<rparr>]\<rparr>
                in if \<not> ok then Inr (None, b)
                   else if data STATUS_OFFSET \<noteq> STATUS_EXIST
                   then Inr (None, b\<lparr>bp_latch := w_unlock (bp_latch b)\<rparr>)
                   else bindR (with_page b f (\<lambda>p. bindR (page_w_lock p) (\<lambda>p.
                          Inr (page_w_unlock (add_pin_count (set_pin_count_zero (set_lsn (- 1)
                                (set_page_id pid (set_is_dirty False p))))))))) (\<lambda>b.
                        Inr (Some f, b\<lparr>bp_map := (bp_map b)(pid \<mapsto> f), bp_free := tl (bp_free b),
                                       bp_latch := w_unlock (bp_latch b)\<rparr>))))))"

definition delete_page :: "bpm \<Rightarrow> int \<Rightarrow> (bool \<times> bpm) result" where
  "delete_page b pid =
    bindR (w_lock (bp_latch b)) (\<lambda>l.
      case bp_map b pid of
        None \<Rightarrow> bindR (free_page (bp_disk b) pid) (\<lambda>(_, d). Inr (True, b\<lparr>bp_latch := w_unlock l, bp_disk := d\<rparr>))
      | Some f \<Rightarrow>
          if f < 0 \<or> length (bp_pages b) \<le> nat f then Inl UndefBehaviour
          else if pg_pin (bp_pages b ! nat f) \<noteq> 0 then Inr (False, b\<lparr>bp_latch := w_unlock l\<rparr>)
          else bindR (with_page b f (\<lambda>p. bindR (page_w_lock p) (\<lambda>p.
                 Inr (page_w_unlock (set_page_id INVALID_PAGE_ID p))))) (\<lambda>b.
               let b = b\<lparr>bp_free := bp_free b @ [f], bp_map := (bp_map b)(pid := None), bp_latch := w_unlock l\<rparr>
               in bindR (free_page (bp_disk b) pid) (\<lambda>(_, d). Inr (True, b\<lparr>bp_disk := d\<rparr>))))"

text \<open>The pages handed to executors; waiting for them is \<^const>\<open>Blocked\<close>.\<close>

definition get_threshold_page :: "bpm \<Rightarrow> (int \<times> bpm) result" where
  "get_threshold_page b =
    bindR (w_lock (bp_latch b)) (\<lambda>l.
      let alloc_num = bp_avail b div 2
      in if alloc_num + bp_alloced b > bp_avail b then Inl Blocked
         else Inr (alloc_num, b\<lparr>bp_latch := w_unlock l\<rparr>))"

definition return_threshold_page :: "bpm \<Rightarrow> int \<Rightarrow> bpm result" where
  "return_threshold_page b n =
    bindR (w_lock (bp_latch b)) (\<lambda>l. Inr (b\<lparr>bp_alloced := wrap32 (bp_alloced b - n), bp_latch := w_unlock l\<rparr>))"

end
