(* ===== verification/Buffer_Pool_Inv.thy ===== *)
theory Buffer_Pool_Inv
  imports Buffer_Pool
begin

text \<open>
  The buffer pool as a cache.  \<open>bp_core\<close> says how frames, free list, map, replacer and disk agree;
  \<open>pool_view\<close> is what the pool is a cache of: the payload (everything behind the common header) of every
  allocated page, in its frame when it has one and on the disk otherwise.  \<open>pool_same\<close> is what an operation
  may not disturb: the contents of all pages, the frames of pinned pages, and what is still to be written.
\<close>

abbreviation frame_of :: "bpm \<Rightarrow> int \<Rightarrow> page" where
  "frame_of b f \<equiv> bp_pages b ! nat f"

definition payload :: "mem \<Rightarrow> byte list" where
  "payload m = get_bytes m COM_PG_HEADER_SZ (PAGE_SIZE - COM_PG_HEADER_SZ)"

definition page_mem :: "bpm \<Rightarrow> int \<Rightarrow> mem" where
  "page_mem b p = (case bp_map b p of Some f \<Rightarrow> pg_data (frame_of b f) | None \<Rightarrow> disk_byte (bp_disk b) p)"

definition pool_view :: "bpm \<Rightarrow> int \<rightharpoonup> byte list" where
  "pool_view b p = (if p \<in> alloced_pgid (bp_disk b) then Some (payload (page_mem b p)) else None)"

definition pins :: "bpm \<Rightarrow> int \<Rightarrow> int" where
  "pins b p = (case bp_map b p of Some f \<Rightarrow> pg_pin (frame_of b f) | None \<Rightarrow> 0)"

definition saved :: "bpm \<Rightarrow> int \<Rightarrow> bool" where
  "saved b p \<longleftrightarrow> (case bp_map b p of
     Some f \<Rightarrow> pg_dirty (frame_of b f) \<or> same_payload (pg_data (frame_of b f)) (disk_byte (bp_disk b) p)
   | None \<Rightarrow> True)"

definition frame_inv :: "bpm \<Rightarrow> int \<Rightarrow> int \<Rightarrow> bool" where
  "frame_inv b p f \<longleftrightarrow>
    0 \<le> f \<and> f < bp_pool b \<and> p \<in> alloced_pgid (bp_disk b) \<and> pg_id (frame_of b f) = p \<and> 0 \<le> pg_pin (frame_of b f) \<and>
    pg_data (frame_of b f) STATUS_OFFSET = STATUS_EXIST \<and>
    (f \<in> evictable (bp_replacer b) \<longleftrightarrow> pg_pin (frame_of b f) = 0) \<and>
    (\<not> pg_dirty (frame_of b f) \<longrightarrow> disk_byte (bp_disk b) p STATUS_OFFSET = STATUS_EXIST) \<and>
    (pg_pin (frame_of b f) = 0 \<longrightarrow> saved b p)"

definition bp_core :: "bpm \<Rightarrow> bool" where
  "bp_core b \<longleftrightarrow>
    dm_inv (bp_disk b) \<and> cr_inv (bp_replacer b) \<and> cr_pool (bp_replacer b) = bp_pool b \<and>
    length (bp_pages b) = nat (bp_pool b) \<and> (\<forall>pg\<in>set (bp_pages b). pg_latch pg = new_latch) \<and>
    distinct (bp_free b) \<and> set (bp_free b) \<union> ran (bp_map b) = {0..<bp_pool b} \<and>
    set (bp_free b) \<inter> ran (bp_map b) = {} \<and> inj_on (bp_map b) (dom (bp_map b)) \<and>
    set (bp_free b) \<inter> evictable (bp_replacer b) = {} \<and>
    (\<forall>p f. bp_map b p = Some f \<longrightarrow> frame_inv b p f) \<and>
    (\<forall>p\<in>alloced_pgid (bp_disk b). bp_map b p = None \<longrightarrow> disk_byte (bp_disk b) p STATUS_OFFSET = STATUS_EXIST)"

definition bp_inv :: "bpm \<Rightarrow> bool" where
  "bp_inv b \<longleftrightarrow> bp_core b \<and> bp_latch b = new_latch"

definition pool_same :: "bpm \<Rightarrow> bpm \<Rightarrow> bool" where
  "pool_same b b' \<longleftrightarrow>
    alloced_pgid (bp_disk b') = alloced_pgid (bp_disk b) \<and> dm_frame (bp_disk b) (bp_disk b') \<and>
    pool_view b' = pool_view b \<and> pins b' = pins b \<and> bp_pool b' = bp_pool b \<and>
    (\<forall>p f. bp_map b p = Some f \<and> 0 < pg_pin (frame_of b f) \<longrightarrow> bp_map b' p = Some f \<and> frame_of b' f = frame_of b f) \<and>
    (\<forall>p. saved b p \<longrightarrow> saved b' p)"

lemma payload_eq: "payload m = payload m' \<longleftrightarrow> same_payload m m'"
proof
  assume "payload m = payload m'"
  then have "m (COM_PG_HEADER_SZ + int k) = m' (COM_PG_HEADER_SZ + int k)" if "k < nat (PAGE_SIZE - COM_PG_HEADER_SZ)" for k
    using that unfolding payload_def get_bytes_def map_eq_conv by simp
  note eq = this
  have "m a = m' a" if "COM_PG_HEADER_SZ \<le> a" "a < PAGE_SIZE" for a
    using eq [of "nat (a - COM_PG_HEADER_SZ)"] that by simp
  then show "same_payload m m'" by (simp add: same_payload_def)
next
  assume "same_payload m m'"
  then show "payload m = payload m'" by (auto simp: payload_def same_payload_def intro!: get_bytes_cong)
qed

lemma bp_coreD:
  assumes "bp_core b"
  shows "dm_inv (bp_disk b)" "cr_inv (bp_replacer b)" "cr_pool (bp_replacer b) = bp_pool b"
    "length (bp_pages b) = nat (bp_pool b)" "\<And>f. 0 \<le> f \<Longrightarrow> f < bp_pool b \<Longrightarrow> pg_latch (frame_of b f) = new_latch"
    "distinct (bp_free b)" "set (bp_free b) \<union> ran (bp_map b) = {0..<bp_pool b}"
    "set (bp_free b) \<inter> ran (bp_map b) = {}" "set (bp_free b) \<inter> evictable (bp_replacer b) = {}"
    "\<And>p q f. bp_map b p = Some f \<Longrightarrow> bp_map b q = Some f \<Longrightarrow> p = q"
    "\<And>p f. bp_map b p = Some f \<Longrightarrow> frame_inv b p f"
    "\<And>p. p \<in> alloced_pgid (bp_disk b) \<Longrightarrow> bp_map b p = None \<Longrightarrow> disk_byte (bp_disk b) p STATUS_OFFSET = STATUS_EXIST"
proof -
  show "p = q" if "bp_map b p = Some f" "bp_map b q = Some f" for p q f
    using assms that unfolding bp_core_def by (metis domI inj_onD)
  show "pg_latch (frame_of b f) = new_latch" if "0 \<le> f" "f < bp_pool b" for f
    using assms that unfolding bp_core_def by (simp add: nat_less_eq_zless)
qed (use assms in \<open>auto simp: bp_core_def\<close>)

lemma pool_same_refl [simp]: "pool_same b b"
  by (simp add: pool_same_def)

lemma pool_same_trans: "pool_same a b \<Longrightarrow> pool_same b c \<Longrightarrow> pool_same a c"
  unfolding pool_same_def using dm_frame_trans [of "bp_disk a" "bp_disk b" "bp_disk c"] by (intro conjI allI impI) (simp_all, metis+)

text \<open>The view does not depend on the latch, the replacer and the free list.\<close>

lemma view_cong:
  assumes "bp_disk b' = bp_disk b" "bp_pages b' = bp_pages b" "bp_map b' = bp_map b"
  shows "pool_view b' = pool_view b" "pins b' = pins b" "saved b' = saved b" "page_mem b' = page_mem b"
  using assms by (auto simp: fun_eq_iff pool_view_def page_mem_def pins_def saved_def split: option.split)

lemma latch_irrelevant [simp]:
  "pool_view (b\<lparr>bp_latch := l\<rparr>) = pool_view b" "pins (b\<lparr>bp_latch := l\<rparr>) = pins b"
  "saved (b\<lparr>bp_latch := l\<rparr>) = saved b" "bp_core (b\<lparr>bp_latch := l\<rparr>) = bp_core b"
  "pool_same a (b\<lparr>bp_latch := l\<rparr>) = pool_same a b" "pool_same (b\<lparr>bp_latch := l\<rparr>) c = pool_same b c"
proof -
  show v: "pool_view (b\<lparr>bp_latch := l\<rparr>) = pool_view b" "pins (b\<lparr>bp_latch := l\<rparr>) = pins b"
    "saved (b\<lparr>bp_latch := l\<rparr>) = saved b" by (rule view_cong; simp)+
  show "bp_core (b\<lparr>bp_latch := l\<rparr>) = bp_core b"
    unfolding bp_core_def frame_inv_def v by simp
  show "pool_same a (b\<lparr>bp_latch := l\<rparr>) = pool_same a b" "pool_same (b\<lparr>bp_latch := l\<rparr>) c = pool_same b c"
    unfolding pool_same_def v by simp_all
qed

lemma free_frame_range: "bp_core b \<Longrightarrow> f \<in> set (bp_free b) \<Longrightarrow> 0 \<le> f \<and> f < bp_pool b"
  using bp_coreD(7) [of b] by auto

lemma mapped_range: "bp_core b \<Longrightarrow> bp_map b p = Some f \<Longrightarrow> 0 \<le> f \<and> f < bp_pool b"
  using bp_coreD(11) [of b] by (auto simp: frame_inv_def)

lemma evictable_mapped:
  assumes "bp_core b" "f \<in> evictable (bp_replacer b)"
  obtains p where "bp_map b p = Some f" "pg_id (frame_of b f) = p" "pg_pin (frame_of b f) = 0" "saved b p"
proof -
  have "f \<in> {0..<bp_pool b}" using evictable_within [of "bp_replacer b"] assms bp_coreD(3) [OF assms(1)] by auto
  then have "f \<in> ran (bp_map b)" using bp_coreD(7,9) [OF assms(1)] assms(2) by blast
  then obtain p where p: "bp_map b p = Some f" by (auto simp: ran_def)
  with bp_coreD(11) [OF assms(1) p] assms(2) show thesis by (intro that [of p]) (auto simp: frame_inv_def)
qed


section \<open>Changing one page and one frame\<close>

definition elsewhere :: "bpm \<Rightarrow> bpm \<Rightarrow> int \<Rightarrow> int \<Rightarrow> bool" where
  "elsewhere b b' p f \<longleftrightarrow>
    bp_pool b' = bp_pool b \<and> length (bp_pages b') = length (bp_pages b) \<and> dm_frame (bp_disk b) (bp_disk b') \<and>
    (\<forall>q. q \<noteq> p \<longrightarrow> bp_map b' q = bp_map b q \<and> (q \<in> alloced_pgid (bp_disk b') \<longleftrightarrow> q \<in> alloced_pgid (bp_disk b))) \<and>
    (\<forall>g. 0 \<le> g \<and> g < bp_pool b \<and> g \<noteq> f \<longrightarrow> frame_of b' g = frame_of b g \<and>
       (g \<in> evictable (bp_replacer b') \<longleftrightarrow> g \<in> evictable (bp_replacer b))) \<and>
    (\<forall>q a. q \<in> alloced_pgid (bp_disk b) \<and> q \<noteq> p \<and> 0 \<le> a \<and> a < PAGE_SIZE \<longrightarrow>
       disk_byte (bp_disk b') q a = disk_byte (bp_disk b) q a)"

lemma elsewhereD:
  assumes "elsewhere b b' p f"
  shows "bp_pool b' = bp_pool b" "length (bp_pages b') = length (bp_pages b)" "dm_frame (bp_disk b) (bp_disk b')"
    "\<And>q. q \<noteq> p \<Longrightarrow> bp_map b' q = bp_map b q"
    "\<And>q. q \<noteq> p \<Longrightarrow> q \<in> alloced_pgid (bp_disk b') \<longleftrightarrow> q \<in> alloced_pgid (bp_disk b)"
    "\<And>g. 0 \<le> g \<Longrightarrow> g < bp_pool b \<Longrightarrow> g \<noteq> f \<Longrightarrow> frame_of b' g = frame_of b g"
    "\<And>g. 0 \<le> g \<Longrightarrow> g < bp_pool b \<Longrightarrow> g \<noteq> f \<Longrightarrow> g \<in> evictable (bp_replacer b') \<longleftrightarrow> g \<in> evictable (bp_replacer b)"
    "\<And>q a. q \<in> alloced_pgid (bp_disk b) \<Longrightarrow> q \<noteq> p \<Longrightarrow> 0 \<le> a \<Longrightarrow> a < PAGE_SIZE \<Longrightarrow>
       disk_byte (bp_disk b') q a = disk_byte (bp_disk b) q a"
  using assms unfolding elsewhere_def by blast+

lemma elsewhere_kept:
  assumes core: "bp_core b" and el: "elsewhere b b' p f" and own: "\<forall>q. bp_map b q = Some f \<longrightarrow> q = p" and q: "q \<noteq> p"
  shows "pool_view b' q = pool_view b q" "pins b' q = pins b q" "saved b q \<Longrightarrow> saved b' q"
    "\<And>g. bp_map b q = Some g \<Longrightarrow> g \<noteq> f \<and> frame_of b' g = frame_of b g \<and> frame_inv b' q g"
proof -
  note E = elsewhereD [OF el]
  have same: "same_payload (disk_byte (bp_disk b') q) (disk_byte (bp_disk b) q)" if "q \<in> alloced_pgid (bp_disk b)"
    using E(8) [OF that q] by (auto simp: same_payload_def COM_PG_HEADER_SZ_def)
  have fr: "g \<noteq> f \<and> frame_of b' g = frame_of b g" if "bp_map b q = Some g" for g
    using mapped_range [OF core that] own that q E(6) by auto
  show "pool_view b' q = pool_view b q"
    using E(4,5) [OF q] same fr by (auto simp: pool_view_def page_mem_def payload_eq split: option.split)
  show "pins b' q = pins b q" using E(4) [OF q] fr by (auto simp: pins_def split: option.split)
  have al: "q \<in> alloced_pgid (bp_disk b)" if "bp_map b q = Some g" for g
    using bp_coreD(11) [OF core that] by (simp add: frame_inv_def)
  show sv: "saved b' q" if "saved b q"
    using that E(4) [OF q] fr al same by (auto simp: saved_def intro: same_payload_trans same_payload_sym split: option.splits)
  show "g \<noteq> f \<and> frame_of b' g = frame_of b g \<and> frame_inv b' q g" if g: "bp_map b q = Some g" for g
    using bp_coreD(11) [OF core g] fr [OF g] sv E(1) E(5) [OF q] E(7) [of g] E(8) [OF al [OF g] q]
    by (auto simp: frame_inv_def STATUS_OFFSET_def PAGE_SIZE_def)
qed

lemma core_change:
  assumes core: "bp_core b" and el: "elsewhere b b' p f" and own: "\<forall>q. bp_map b q = Some f \<longrightarrow> q = p"
    and disk: "dm_inv (bp_disk b')"
    and rep: "cr_inv (bp_replacer b')" "cr_pool (bp_replacer b') = bp_pool b"
    and latch: "0 \<le> f \<Longrightarrow> f < bp_pool b \<Longrightarrow> pg_latch (frame_of b' f) = new_latch"
    and free: "distinct (bp_free b')" "set (bp_free b') \<union> ran (bp_map b') = {0..<bp_pool b}"
      "set (bp_free b') \<inter> ran (bp_map b') = {}" "set (bp_free b') \<inter> evictable (bp_replacer b') = {}"
    and new: "\<And>g. bp_map b' p = Some g \<Longrightarrow> g = f \<and> frame_inv b' p f"
    and out: "bp_map b' p = None \<Longrightarrow> p \<in> alloced_pgid (bp_disk b') \<Longrightarrow> disk_byte (bp_disk b') p STATUS_OFFSET = STATUS_EXIST"
  shows "bp_core b'"
proof -
  note E = elsewhereD [OF el] and B = bp_coreD [OF core]
  have kept: "g \<noteq> f \<and> frame_inv b' q g" if "q \<noteq> p" "bp_map b' q = Some g" for q g
    using elsewhere_kept(4) [OF core el own that(1)] E(4) [OF that(1)] that(2) by auto
  have lat: "pg_latch pg = new_latch" if pg: "pg \<in> set (bp_pages b')" for pg
  proof -
    obtain i where i: "i < length (bp_pages b')" "pg = bp_pages b' ! i" using pg by (metis in_set_conv_nth)
    then show ?thesis using latch E(2) E(6) [of "int i"] B(4) B(5) [of "int i"] by (cases "int i = f") auto
  qed
  have inj: "inj_on (bp_map b') (dom (bp_map b'))"
  proof (rule inj_onI)
    fix q r assume a: "q \<in> dom (bp_map b')" "r \<in> dom (bp_map b')" "bp_map b' q = bp_map b' r"
    then obtain g where g: "bp_map b' q = Some g" by blast
    then have r: "bp_map b' r = Some g" using a(3) by simp
    show "q = r"
    proof (rule ccontr)
      assume ne: "q \<noteq> r"
      consider "q = p" | "r = p" | "q \<noteq> p" "r \<noteq> p" by blast
      then show False
      proof cases
        case 1
        then show False using new [of g] g kept [of r g] r ne by simp
      next
        case 2
        then show False using new [of g] r kept [of q g] g ne by simp
      next
        case 3
        then have "bp_map b q = Some g" "bp_map b r = Some g"
          using E(4) [OF 3(1)] E(4) [OF 3(2)] g r by simp_all
        then show False using B(10) ne by blast
      qed
    qed
  qed
  have dsk: "disk_byte (bp_disk b') q STATUS_OFFSET = STATUS_EXIST"
    if "q \<in> alloced_pgid (bp_disk b')" "bp_map b' q = None" for q
  proof (cases "q = p")
    case False
    then show ?thesis
      using that E(4,5,8) [of q] B(12) [of q] by (simp add: STATUS_OFFSET_def PAGE_SIZE_def)
  qed (use out that in simp)
  have "frame_inv b' q g" if "bp_map b' q = Some g" for q g
    using kept [OF _ that] new that by (cases "q = p") auto
  then show ?thesis
    unfolding bp_core_def using disk rep free lat inj dsk E(1,2) B(4) by simp
qed

lemma pool_same_change:
  assumes core: "bp_core b" and el: "elsewhere b b' p f" and own: "\<forall>q. bp_map b q = Some f \<longrightarrow> q = p"
    and p: "pool_view b' p = pool_view b p" "pins b' p = pins b p" "saved b p \<Longrightarrow> saved b' p"
      "p \<in> alloced_pgid (bp_disk b') \<longleftrightarrow> p \<in> alloced_pgid (bp_disk b)"
      "\<And>g. bp_map b p = Some g \<Longrightarrow> 0 < pg_pin (frame_of b g) \<Longrightarrow> bp_map b' p = Some g \<and> frame_of b' g = frame_of b g"
  shows "pool_same b b'"
proof -
  note E = elsewhereD [OF el] and K = elsewhere_kept [OF core el own]
  have "pool_view b' q = pool_view b q" "pins b' q = pins b q" "saved b q \<Longrightarrow> saved b' q"
    "q \<in> alloced_pgid (bp_disk b') \<longleftrightarrow> q \<in> alloced_pgid (bp_disk b)" for q
    using K [of q] p E(5) [of q] by (cases "q = p"; simp)+
  moreover have "bp_map b' q = Some g \<and> frame_of b' g = frame_of b g"
    if "bp_map b q = Some g" "0 < pg_pin (frame_of b g)" for q g
    using K(4) [of q g] p(5) [of g] that E(4) [of q] by (cases "q = p") auto
  ultimately show ?thesis using E(1,3) unfolding pool_same_def by (auto simp: fun_eq_iff)
qed

lemma ran_remove:
  assumes "\<forall>q. m q = Some f \<longrightarrow> q = p" "m p = Some f"
  shows "ran (m(p := None)) = ran m - {f}"
proof (intro set_eqI iffI)
  fix g assume "g \<in> ran (m(p := None))"
  then obtain q where q: "(m(p := None)) q = Some g" by (auto simp: ran_def)
  then have "q \<noteq> p" "m q = Some g" by (simp_all split: if_splits)
  then show "g \<in> ran m - {f}" using assms(1) by (auto intro: ranI)
next
  fix g assume "g \<in> ran m - {f}"
  then obtain q where q: "m q = Some g" "g \<noteq> f" by (auto simp: ran_def)
  then have "(m(p := None)) q = Some g" using assms(2) by (cases "q = p") simp_all
  then show "g \<in> ran (m(p := None))" by (rule ranI)
qed


section \<open>Finding a frame\<close>

lemma nth_update_nat [simp]:
  "0 \<le> g \<Longrightarrow> 0 \<le> f \<Longrightarrow> g \<noteq> f \<Longrightarrow> (xs[nat f := v]) ! nat g = xs ! nat (g::int)"
  by (simp add: eq_nat_nat_iff)

lemma page_w_lock_new: "pg_latch p = new_latch \<Longrightarrow> page_w_lock p = Inr (p\<lparr>pg_latch := \<lparr>reader_count = 0, writer_entered = True\<rparr>\<rparr>)"
  by (simp add: page_w_lock_def)

lemma with_page_ok:
  "0 \<le> f \<Longrightarrow> nat f < length (bp_pages b) \<Longrightarrow>
   with_page b f g = bindR (g (frame_of b f)) (\<lambda>p. Inr (b\<lparr>bp_pages := (bp_pages b)[nat f := p]\<rparr>))"
  by (simp add: with_page_def)

definition evicted :: "page \<Rightarrow> page" where
  "evicted pg = set_page_id INVALID_PAGE_ID pg"

lemma evict_page_run:
  assumes f: "0 \<le> f" "nat f < length (bp_pages b)" "pg_latch (frame_of b f) = new_latch" and l: "bp_latch b = new_latch"
    and p: "bp_map b p \<noteq> None"
    and d: "if pg_dirty (frame_of b f) then write_page (bp_disk b) p (pg_data (evicted (frame_of b f))) = Inr (True, d) else d = bp_disk b"
  shows "evict_page b p f = Inr (b\<lparr>bp_pages := (bp_pages b)[nat f := evicted (frame_of b f)], bp_map := (bp_map b)(p := None),
    bp_free := bp_free b @ [f], bp_disk := d\<rparr>)"
proof -
  let ?lk = "\<lparr>reader_count = 0, writer_entered = True\<rparr>"
  have un: "page_w_unlock (evicted (pg\<lparr>pg_latch := ?lk\<rparr>)) = evicted pg" if "pg_latch pg = new_latch" for pg
    using that by (cases pg) (simp add: page_w_unlock_def evicted_def set_page_id_def)
  have dt: "pg_data (evicted (pg\<lparr>pg_latch := ?lk\<rparr>)) = pg_data (evicted pg)" "pg_dirty (evicted (pg\<lparr>pg_latch := ?lk\<rparr>)) = pg_dirty pg" for pg
    by (simp_all add: evicted_def set_page_id_def)
  show ?thesis
    using f l p d un [OF f(3)] dt
    by (cases "pg_dirty (frame_of b f)")
      (simp_all add: evict_page_def with_page_ok page_w_lock_new Let_def evicted_def del: not_None_eq)
qed


text \<open>Taking a victim and evicting it: one frame becomes free and nothing else changes.\<close>

lemma evict_victim:
  assumes core: "bp_core b" and l: "bp_latch b = new_latch"
    and vic: "f \<in> evictable (bp_replacer b)" "cr_inv r" "cr_pool r = cr_pool (bp_replacer b)"
      "evictable r = evictable (bp_replacer b) - {f}"
  shows "\<exists>b'. evict_page (b\<lparr>bp_replacer := r\<rparr>) (pg_id (frame_of b f)) f = Inr b' \<and> bp_core b' \<and>
    bp_latch b' = new_latch \<and> bp_free b' = bp_free b @ [f] \<and> bp_replacer b' = r \<and> pool_same b b' \<and>
    (\<exists>p. bp_map b p = Some f \<and> bp_map b' = (bp_map b)(p := None))"
proof -
  note B = bp_coreD [OF core]
  obtain p where p: "bp_map b p = Some f" "pg_id (frame_of b f) = p" "pg_pin (frame_of b f) = 0" "saved b p"
    using evictable_mapped [OF core vic(1)] by blast
  note F = B(11) [OF p(1), unfolded frame_inv_def]
  have f: "0 \<le> f" "f < bp_pool b" "nat f < length (bp_pages b)" using F B(4) by auto
  let ?d = "bp_disk b" and ?pg = "frame_of b f"
  have on: "on_disk ?d p" using F dm_invD(13) [OF B(1)] by simp
  obtain d where run: "if pg_dirty ?pg then write_page ?d p (pg_data (evicted ?pg)) = Inr (True, d) else d = ?d"
      and inv: "dm_inv d" and fr: "dm_frame ?d d" and al: "alloced_pgid d = alloced_pgid ?d"
      and at: "\<forall>a. 0 \<le> a \<and> a < PAGE_SIZE \<longrightarrow>
        disk_byte d p a = (if pg_dirty ?pg then pg_data (evicted ?pg) a else disk_byte ?d p a)"
      and keep: "\<forall>q a. on_disk ?d q \<and> q \<noteq> p \<and> 0 \<le> a \<and> a < PAGE_SIZE \<longrightarrow> disk_byte d q a = disk_byte ?d q a"
  proof (cases "pg_dirty ?pg")
    case True
    then show thesis using write_page_spec [OF B(1) on, of "pg_data (evicted ?pg)"] that by (elim exE conjE) simp
  next
    case False
    then show thesis using B(1) by (intro that [of ?d]) simp_all
  qed
  define b' where "b' = b\<lparr>bp_replacer := r, bp_pages := (bp_pages b)[nat f := evicted ?pg], bp_map := (bp_map b)(p := None),
    bp_free := bp_free b @ [f], bp_disk := d\<rparr>"
  have step: "evict_page (b\<lparr>bp_replacer := r\<rparr>) p f = Inr b'"
    using evict_page_run [of f "b\<lparr>bp_replacer := r\<rparr>" p d] f l p(1) B(5) [OF f(1,2)] run by (simp add: b'_def)
  have el: "elsewhere b b' p f"
    using fr al keep dm_invD(13) [OF B(1)] vic(4) f(1) unfolding elsewhere_def by (simp add: b'_def)
  have own: "\<forall>q. bp_map b q = Some f \<longrightarrow> q = p" using B(10) [OF _ p(1)] by blast
  have pay: "same_payload (disk_byte d p) (pg_data ?pg)"
  proof (cases "pg_dirty ?pg")
    case True
    then have "same_payload (disk_byte d p) (pg_data (evicted ?pg))"
      using at by (auto simp: same_payload_def COM_PG_HEADER_SZ_def)
    then show ?thesis unfolding evicted_def using header_ops_payload(1) same_payload_trans by blast
  next
    case False
    then show ?thesis
      using p(1,4) at by (auto simp: saved_def same_payload_def COM_PG_HEADER_SZ_def)
  qed
  have st: "disk_byte d p STATUS_OFFSET = STATUS_EXIST"
    using at F by (auto simp: evicted_def set_page_id_def STATUS_OFFSET_def PAGE_ID_OFFSET_def wr32_other PAGE_SIZE_def)
  have ran: "ran (bp_map b') = ran (bp_map b) - {f}" by (simp add: b'_def ran_remove [where m = "bp_map b", OF own p(1)])
  have fin: "f \<in> ran (bp_map b)" using p(1) by (rule ranI)
  have "bp_core b'"
  proof (rule core_change [OF core el own])
    show "pg_latch (frame_of b' f) = new_latch" using f B(5) [OF f(1,2)] by (simp add: b'_def evicted_def set_page_id_def)
    show "distinct (bp_free b')" using B(6,8) fin by (auto simp: b'_def)
    show "set (bp_free b') \<union> ran (bp_map b') = {0..<bp_pool b}" "set (bp_free b') \<inter> ran (bp_map b') = {}"
      using B(7,8) fin unfolding ran by (auto simp: b'_def)
    show "set (bp_free b') \<inter> evictable (bp_replacer b') = {}" using B(9) vic(4) by (auto simp: b'_def)
    show "disk_byte (bp_disk b') p STATUS_OFFSET = STATUS_EXIST" using st by (simp add: b'_def)
  qed (use inv vic(2,3) B(3) in \<open>simp_all add: b'_def\<close>)
  moreover have "pool_same b b'"
    using pay al p F by (intro pool_same_change [OF core el own])
      (auto simp: b'_def pool_view_def page_mem_def pins_def saved_def payload_eq)
  ultimately show ?thesis using step l p(1,2) by (auto simp: b'_def)
qed


lemma wait_for_frame_spec:
  assumes core: "bp_core b" and have_frame: "bp_free b \<noteq> [] \<or> evictable (bp_replacer b) \<noteq> {}"
    and held: "bp_latch b = \<lparr>reader_count = 0, writer_entered = True\<rparr>"
  shows "\<exists>b'. wait_for_frame b = Inr b' \<and> bp_core b' \<and> bp_latch b' = bp_latch b \<and> bp_free b' \<noteq> [] \<and> pool_same b b' \<and>
    (\<forall>p. bp_map b p = None \<longrightarrow> bp_map b' p = None)"
proof (cases "bp_free b = []")
  case False
  then show ?thesis using core by (intro exI [of _ b]) (simp add: wait_for_frame_def)
next
  case True
  note B = bp_coreD [OF core]
  obtain f r where v: "cr_victim (bp_replacer b) = Inr (f, r)" "f \<in> evictable (bp_replacer b)" "cr_inv r"
      "cr_pool r = cr_pool (bp_replacer b)" "evictable r = evictable (bp_replacer b) - {f}"
    using cr.victim_law [OF B(2)] have_frame True by blast
  have f: "0 \<le> f" "nat f < length (bp_pages b)"
    using evictable_within [of "bp_replacer b"] v(2) B(3,4) by (auto simp: nat_less_eq_zless)
  let ?b = "b\<lparr>bp_latch := new_latch\<rparr>"
  obtain b1 where b1: "evict_page (?b\<lparr>bp_replacer := r\<rparr>) (pg_id (frame_of b f)) f = Inr b1" "bp_core b1"
      "bp_latch b1 = new_latch" "bp_free b1 = bp_free b @ [f]" "pool_same b b1" "\<exists>p. bp_map b1 = (bp_map b)(p := None)"
    using evict_victim [of ?b f r] core v by (auto simp del: not_None_eq)
  have "wait_for_frame b = Inr (b1\<lparr>bp_latch := bp_latch b\<rparr>)"
    using True f v(1) b1(1,3,4) by (simp add: wait_for_frame_def numeral_2_eq_2 held Let_def)
  then show ?thesis using b1 by (intro exI [of _ "b1\<lparr>bp_latch := bp_latch b\<rparr>"]) auto
qed

text \<open>Waiting for a frame never runs out of fuel, whatever state the frames are in.\<close>

lemma evict_page_replacer:
  assumes "evict_page b p f = Inr b'"
  shows "bp_replacer b' = bp_replacer b" "length (bp_pages b') = length (bp_pages b)"
  using assms
  by (auto simp: evict_page_def with_page_def bindR_eq_Inr Let_def split: if_splits option.splits)

lemma evict_page_fuel: "evict_page b p f \<noteq> Inl OutOfFuel"
  by (auto simp: evict_page_def with_page_def bindR_eq_Inl bindR_eq_Inr Let_def page_w_lock_def w_lock_def write_page_def
      split: if_splits option.splits prod.splits)

lemma ensure_free_fuel:
  "cr_inv (bp_replacer b) \<Longrightarrow> card (evictable (bp_replacer b)) + 1 < n \<Longrightarrow> ensure_free n b \<noteq> Inl OutOfFuel"
proof (induction n arbitrary: b)
  case (Suc n)
  show ?case
  proof (cases "bp_free b = [] \<and> evictable (bp_replacer b) \<noteq> {}")
    case True
    then obtain f r where v: "cr_victim (bp_replacer b) = Inr (f, r)" "f \<in> evictable (bp_replacer b)" "cr_inv r"
        "evictable r = evictable (bp_replacer b) - {f}"
      using cr.victim_law [OF Suc.prems(1)] by blast
    have "card (evictable r) + 1 < n"
      using v(2,4) Suc.prems(2) card_Suc_Diff1 [OF finite_evictable_clock v(2)] by simp
    then have "ensure_free n (b'\<lparr>bp_latch := l\<rparr>) \<noteq> Inl OutOfFuel" if "bp_replacer b' = r" for b' l
      using Suc.IH [of "b'\<lparr>bp_latch := l\<rparr>"] v(3) that by simp
    then show ?thesis
      using v(1) evict_page_fuel
      by (auto simp: Let_def bindR_eq_Inl w_lock_def split: if_splits dest!: evict_page_replacer(1))
  next
    case False
    then show ?thesis using cr.victim_blocked [OF Suc.prems(1)] by (auto simp: Let_def)
  qed
qed simp


section \<open>The operations\<close>

definition pool_step :: "bpm \<Rightarrow> bpm \<Rightarrow> int \<Rightarrow> bool" where
  "pool_step b b' p \<longleftrightarrow>
    dm_frame (bp_disk b) (bp_disk b') \<and> bp_pool b' = bp_pool b \<and>
    (\<forall>q. q \<noteq> p \<longrightarrow> pool_view b' q = pool_view b q \<and> pins b' q = pins b q \<and> (saved b q \<longrightarrow> saved b' q) \<and>
       (q \<in> alloced_pgid (bp_disk b') \<longleftrightarrow> q \<in> alloced_pgid (bp_disk b))) \<and>
    (\<forall>q g. bp_map b q = Some g \<and> 0 < pg_pin (frame_of b g) \<and> q \<noteq> p \<longrightarrow> bp_map b' q = Some g \<and> frame_of b' g = frame_of b g)"

lemma pool_step_trans: "pool_step a b p \<Longrightarrow> pool_step b c p \<Longrightarrow> pool_step a c p"
  unfolding pool_step_def using dm_frame_trans [of "bp_disk a" "bp_disk b" "bp_disk c"]
  by (intro conjI allI impI) (simp_all, metis+)

lemma pool_stepD:
  assumes "pool_step b b' p" "q \<noteq> p"
  shows "pool_view b' q = pool_view b q" "pins b' q = pins b q" "saved b q \<Longrightarrow> saved b' q"
    "q \<in> alloced_pgid (bp_disk b') \<longleftrightarrow> q \<in> alloced_pgid (bp_disk b)"
  using assms by (auto simp: pool_step_def)

lemma pool_same_step: "pool_same b b' \<Longrightarrow> pool_step b b' p"
  unfolding pool_same_def pool_step_def by (simp, metis)

lemma elsewhere_step:
  assumes "bp_core b" "elsewhere b b' p f" "\<forall>q. bp_map b q = Some f \<longrightarrow> q = p"
  shows "pool_step b b' p"
  unfolding pool_step_def
proof (intro conjI allI impI; (elim conjE)?)
  note E = elsewhereD [OF assms(2)]
  show "dm_frame (bp_disk b) (bp_disk b')" "bp_pool b' = bp_pool b" by (fact E)+
  fix q assume q: "q \<noteq> p"
  note K = elsewhere_kept [OF assms q]
  show "pool_view b' q = pool_view b q" "pins b' q = pins b q" "q \<in> alloced_pgid (bp_disk b') \<longleftrightarrow> q \<in> alloced_pgid (bp_disk b)"
    using K(1,2) E(5) [OF q] by simp_all
  show "saved b' q" if "saved b q" using K(3) [OF that] .
  show "bp_map b' q = Some g" "frame_of b' g = frame_of b g" if "bp_map b q = Some g" for g
    using K(4) [OF that] E(4) [OF q] that by auto
qed

lemma latch_step [simp]:
  "pool_step b (b'\<lparr>bp_latch := l\<rparr>) p = pool_step b b' p" "pool_step (b\<lparr>bp_latch := l\<rparr>) b' p = pool_step b b' p"
  unfolding pool_step_def by simp_all

lemma alloced_nonneg: "bp_core b \<Longrightarrow> p \<in> alloced_pgid (bp_disk b) \<Longrightarrow> 0 \<le> p"
  using dm_invD(11) [OF bp_coreD(1), of b] by auto

lemma get_page_hit:
  assumes inv: "bp_inv b" and m: "bp_map b p = Some f"
  shows "\<exists>b'. get_page b p = Inr (Some f, b') \<and> bp_inv b' \<and> bp_map b' = bp_map b \<and> pool_view b' = pool_view b \<and>
    pins b' p = pins b p + 1 \<and> (saved b p \<longrightarrow> saved b' p) \<and> bp_disk b' = bp_disk b \<and> pool_step b b' p"
proof -
  have core: "bp_core b" and l: "bp_latch b = new_latch" using inv by (simp_all add: bp_inv_def)
  note B = bp_coreD [OF core]
  note F = B(11) [OF m, unfolded frame_inv_def]
  have f: "0 \<le> f" "f < bp_pool b" "nat f < length (bp_pages b)" using F B(4) by auto
  obtain r where r: "cr_pin (bp_replacer b) f = Inr r" "cr_inv r" "cr_pool r = bp_pool b"
      "evictable r = evictable (bp_replacer b) - {f}"
    using cr.pin_law [OF B(2), of f] f B(3) by auto
  define b' where "b' = b\<lparr>bp_pages := (bp_pages b)[nat f := add_pin_count (frame_of b f)], bp_replacer := r\<rparr>"
  have "p \<in> alloced_pgid (bp_disk b)" using F by simp
  then have p0: "\<not> p \<le> INVALID_PAGE_ID" using alloced_nonneg [OF core, of p] by (simp add: INVALID_PAGE_ID_def)
  have run: "get_page b p = Inr (Some f, b')"
    using p0 l m f r(1) by (simp add: get_page_def with_page_ok b'_def)
  have el: "elsewhere b b' p f" using r(4) f(1) unfolding elsewhere_def by (simp add: b'_def)
  have own: "\<forall>q. bp_map b q = Some f \<longrightarrow> q = p" using B(10) [OF _ m] by blast
  have sv: "saved b p \<Longrightarrow> saved b' p" using f m by (simp add: saved_def b'_def add_pin_count_def)
  have "bp_core b'"
  proof (rule core_change [OF core el own])
    show "pg_latch (frame_of b' f) = new_latch" using f B(5) [OF f(1,2)] by (simp add: b'_def add_pin_count_def)
    show "g = f \<and> frame_inv b' p f" if "bp_map b' p = Some g" for g
      using that m F f r(4) by (auto simp: b'_def frame_inv_def add_pin_count_def)
    show "set (bp_free b') \<inter> evictable (bp_replacer b') = {}" using B(9) r(4) by (auto simp: b'_def)
  qed (use B m r in \<open>simp_all add: b'_def\<close>)
  moreover have "pool_view b' q = pool_view b q" for q
    using elsewhere_kept(1) [OF core el own, of q] f m
    by (cases "q = p") (simp_all add: pool_view_def page_mem_def b'_def add_pin_count_def)
  moreover have "pins b' p = pins b p + 1" using f m by (simp add: pins_def b'_def add_pin_count_def)
  ultimately show ?thesis
    using run sv l elsewhere_step [OF core el own] by (intro exI [of _ b']) (auto simp: bp_inv_def b'_def)
qed


text \<open>A free frame receives a page.\<close>

lemma fill_frame:
  assumes core: "bp_core b" and free: "bp_free b = f # fs" and m: "bp_map b p = None" and al: "p \<in> alloced_pgid (bp_disk b)"
    and pg: "pg_id pg = p" "pg_pin pg = 1" "pg_latch pg = new_latch" "pg_data pg STATUS_OFFSET = STATUS_EXIST"
    and b': "b' = b\<lparr>bp_pages := (bp_pages b)[nat f := pg], bp_map := (bp_map b)(p \<mapsto> f), bp_free := fs\<rparr>"
  shows "bp_core b'" "pool_step b b' p" "pins b' p = 1" "frame_of b' f = pg"
proof -
  note B = bp_coreD [OF core]
  have f: "0 \<le> f" "f < bp_pool b" "nat f < length (bp_pages b)"
    using free_frame_range [OF core, of f] free B(4) by auto
  have fr: "f \<notin> ran (bp_map b)" "f \<notin> evictable (bp_replacer b)" using B(8,9) free by auto
  then have own: "\<forall>q. bp_map b q = Some f \<longrightarrow> q = p" by (auto intro: ranI)
  have el: "elsewhere b b' p f" using f(1) unfolding elsewhere_def b' by simp
  have ran: "ran (bp_map b') = insert f (ran (bp_map b))" using m by (simp add: b')
  show at: "frame_of b' f = pg" using f by (simp add: b')
  show "pool_step b b' p" by (rule elsewhere_step [OF core el own])
  show "pins b' p = 1" using at pg by (simp add: pins_def b')
  show "bp_core b'"
  proof (rule core_change [OF core el own])
    show "g = f \<and> frame_inv b' p f" if "bp_map b' p = Some g" for g
      using that fr f al pg at B(12) [OF al m] by (simp add: frame_inv_def) (simp add: b')
    show "set (bp_free b') \<union> ran (bp_map b') = {0..<bp_pool b}" "set (bp_free b') \<inter> ran (bp_map b') = {}"
      using B(6,7,8) free unfolding ran by (auto simp: b')
    show "distinct (bp_free b')" "set (bp_free b') \<inter> evictable (bp_replacer b') = {}"
      using B(6,9) free by (auto simp: b')
  qed (use B pg at in \<open>simp_all add: b'\<close>)
qed

lemma get_page_miss:
  assumes inv: "bp_inv b" and m: "bp_map b p = None" and al: "p \<in> alloced_pgid (bp_disk b)"
    and room: "bp_free b \<noteq> [] \<or> evictable (bp_replacer b) \<noteq> {}"
  shows "\<exists>f b'. get_page b p = Inr (Some f, b') \<and> bp_inv b' \<and> bp_map b' p = Some f \<and> pool_view b' = pool_view b \<and>
    pins b' p = 1 \<and> saved b' p \<and> alloced_pgid (bp_disk b') = alloced_pgid (bp_disk b) \<and> pool_step b b' p"
proof -
  have core: "bp_core b" and l: "bp_latch b = new_latch" using inv by (simp_all add: bp_inv_def)
  let ?lk = "\<lparr>reader_count = 0, writer_entered = True\<rparr>"
  obtain b1 where b1: "wait_for_frame (b\<lparr>bp_latch := ?lk\<rparr>) = Inr b1" "bp_core b1" "bp_latch b1 = ?lk" "bp_free b1 \<noteq> []"
      "pool_same b b1" "bp_map b1 p = None"
    using wait_for_frame_spec [of "b\<lparr>bp_latch := ?lk\<rparr>"] core room m by auto
  note B = bp_coreD [OF b1(2)]
  obtain f fs where free: "bp_free b1 = f # fs" using b1(4) by (cases "bp_free b1") auto
  have f: "0 \<le> f" "f < bp_pool b1" "nat f < length (bp_pages b1)"
    using free_frame_range [OF b1(2), of f] free B(4) by auto
  have al1: "p \<in> alloced_pgid (bp_disk b1)" "alloced_pgid (bp_disk b1) = alloced_pgid (bp_disk b)"
    using al b1(5) by (simp_all add: pool_same_def)
  let ?m = "memcpy (pg_data (frame_of b1 f)) 0 (disk_byte (bp_disk b1) p) 0 PAGE_SIZE"
  have rd: "read_page (bp_disk b1) p (pg_data (frame_of b1 f)) = Inr (True, ?m, bp_disk b1)"
    by (rule read_page_spec [OF B(1) dm_invD(13) [OF B(1) al1(1)]])
  have st: "?m STATUS_OFFSET = STATUS_EXIST"
    using B(12) [OF al1(1) b1(6)] by (simp add: memcpy_def STATUS_OFFSET_def PAGE_SIZE_def)
  define pg where "pg = add_pin_count (set_pin_count_zero (set_lsn (- 1) (set_page_id p (set_is_dirty False
    ((frame_of b1 f)\<lparr>pg_data := ?m\<rparr>)))))"
  define b' where "b' = b1\<lparr>bp_pages := (bp_pages b1)[nat f := pg], bp_map := (bp_map b1)(p \<mapsto> f), bp_free := fs\<rparr>"
  have pg: "pg_id pg = p" "pg_pin pg = 1" "pg_latch pg = new_latch" "pg_data pg STATUS_OFFSET = STATUS_EXIST" "\<not> pg_dirty pg"
    using st B(5) [OF f(1,2)] by (simp_all add: pg_def page_op_defs wr32_other STATUS_OFFSET_def LSN_OFFSET_def PAGE_ID_OFFSET_def)
  have "same_payload (pg_data pg) ?m"
    by (auto simp: pg_def page_op_defs same_payload_def wr32_other LSN_OFFSET_def PAGE_ID_OFFSET_def COM_PG_HEADER_SZ_def)
  then have pay: "same_payload (pg_data pg) (disk_byte (bp_disk b1) p)"
    by (auto simp: same_payload_def memcpy_def COM_PG_HEADER_SZ_def)
  have p0: "\<not> p \<le> INVALID_PAGE_ID" using alloced_nonneg [OF core al] by (simp add: INVALID_PAGE_ID_def)
  have un: "page_w_unlock (add_pin_count (set_pin_count_zero (set_lsn (- 1) (set_page_id p (set_is_dirty False
      (q\<lparr>pg_latch := ?lk\<rparr>)))))) = add_pin_count (set_pin_count_zero (set_lsn (- 1) (set_page_id p (set_is_dirty False q))))"
    if "pg_latch q = new_latch" for q
    using that by (cases q) (simp add: page_w_unlock_def page_op_defs)
  have run: "get_page b p = Inr (Some f, b'\<lparr>bp_latch := new_latch\<rparr>)"
    using p0 l m b1(1,3) free f rd st B(5) [OF f(1,2)]
    by (simp add: get_page_def with_page_ok page_w_lock_new un b'_def pg_def)
  note fill = fill_frame [OF b1(2) free b1(6) al1(1) pg(1-4) b'_def]
  have "pool_view b' p = pool_view b1 p"
    using fill(4) b1(6) pay by (simp add: pool_view_def page_mem_def payload_eq) (simp add: b'_def)
  then have "pool_view b' q = pool_view b1 q" for q using pool_stepD(1) [OF fill(2)] by (cases "q = p") auto
  then have "pool_view b' = pool_view b" using b1(5) by (auto simp: pool_same_def)
  moreover have "saved b' p" using fill(4) pay by (simp add: saved_def) (simp add: b'_def)
  moreover have "pool_step b b' p" by (rule pool_step_trans [OF pool_same_step [OF b1(5)] fill(2)])
  ultimately show ?thesis
    using run fill(1,3) al1(2) by (intro exI [of _ f] exI [of _ "b'\<lparr>bp_latch := new_latch\<rparr>"]) (auto simp: bp_inv_def b'_def)
qed


lemma get_page_spec:
  assumes "bp_inv b" "p \<in> alloced_pgid (bp_disk b)"
    "bp_map b p \<noteq> None \<or> bp_free b \<noteq> [] \<or> evictable (bp_replacer b) \<noteq> {}"
  shows "\<exists>f b'. get_page b p = Inr (Some f, b') \<and> bp_inv b' \<and> bp_map b' p = Some f \<and> pool_view b' = pool_view b \<and>
    pins b' p = pins b p + 1 \<and> (saved b p \<longrightarrow> saved b' p) \<and>
    alloced_pgid (bp_disk b') = alloced_pgid (bp_disk b) \<and> pool_step b b' p"
proof (cases "bp_map b p")
  case None
  then show ?thesis using get_page_miss [OF assms(1) None assms(2)] assms(3) by (fastforce simp: pins_def)
next
  case (Some f)
  then show ?thesis using get_page_hit [OF assms(1) Some] by fastforce
qed

lemma unpin_page_spec:
  assumes inv: "bp_inv b" and pin: "0 < pins b p" and d: "1 < pins b p \<or> d \<or> saved b p"
  shows "\<exists>b'. unpin_page b p d = Inr b' \<and> bp_inv b' \<and> bp_map b' = bp_map b \<and> pool_view b' = pool_view b \<and>
    pins b' p = pins b p - 1 \<and> (d \<or> saved b p \<longrightarrow> saved b' p) \<and> bp_disk b' = bp_disk b \<and> pool_step b b' p"
proof -
  have core: "bp_core b" and l: "bp_latch b = new_latch" using inv by (simp_all add: bp_inv_def)
  note B = bp_coreD [OF core]
  obtain f where m: "bp_map b p = Some f" using pin by (auto simp: pins_def split: option.splits)
  note F = B(11) [OF m, unfolded frame_inv_def]
  have f: "0 \<le> f" "f < bp_pool b" "nat f < length (bp_pages b)" using F B(4) by auto
  have pin': "pins b p = pg_pin (frame_of b f)" by (simp add: pins_def m)
  define pg where "pg = decrease_pin_count (if d then set_is_dirty d (frame_of b f) else frame_of b f)"
  have pg: "pg_id pg = p" "pg_pin pg = pins b p - 1" "pg_data pg = pg_data (frame_of b f)" "pg_latch pg = new_latch"
      "pg_dirty pg \<longleftrightarrow> d \<or> pg_dirty (frame_of b f)"
    using F B(5) [OF f(1,2)] by (auto simp: pg_def page_op_defs pin')
  obtain r where r: "if pg_pin pg = 0 then cr_unpin (bp_replacer b) f = Inr r else r = bp_replacer b" "cr_inv r" "cr_pool r = bp_pool b"
      "evictable r = (if pg_pin pg = 0 then insert f (evictable (bp_replacer b)) else evictable (bp_replacer b))"
    using cr.unpin_law [OF B(2), of f] f B(2,3) by (cases "pg_pin pg = 0") auto
  define b' where "b' = b\<lparr>bp_pages := (bp_pages b)[nat f := pg], bp_replacer := r\<rparr>"
  have un: "page_w_unlock (decrease_pin_count (if d then set_is_dirty d (q\<lparr>pg_latch := lk\<rparr>) else q\<lparr>pg_latch := lk\<rparr>))
      = decrease_pin_count (if d then set_is_dirty d q else q)" if "pg_latch q = new_latch" "w_unlock lk = new_latch" for q lk
    using that by (cases q) (simp add: page_w_unlock_def page_op_defs)
  have pn: "pg_pin (decrease_pin_count (if d then set_is_dirty d (q\<lparr>pg_latch := lk\<rparr>) else q\<lparr>pg_latch := lk\<rparr>)) =
      pg_pin (decrease_pin_count (if d then set_is_dirty d q else q))" for q lk by (simp add: page_op_defs)
  have run: "unpin_page b p d = Inr b'"
    using l m f r(1) B(5) [OF f(1,2)] un [of "frame_of b f"]
    by (cases "pg_pin pg = 0") (simp_all add: unpin_page_def with_page_ok page_w_lock_new Let_def pn b'_def pg_def)
  have el: "elsewhere b b' p f" using r(4) f(1) unfolding elsewhere_def by (simp add: b'_def)
  have own: "\<forall>q. bp_map b q = Some f \<longrightarrow> q = p" using B(10) [OF _ m] by blast
  have at: "frame_of b' f = pg" using f by (simp add: b'_def)
  have sv: "saved b' p" if "d \<or> saved b p" using that m at pg by (auto simp: saved_def b'_def)
  have ev: "f \<in> evictable r \<longleftrightarrow> pg_pin pg = 0" using r(4) F pin pin' by simp
  have sv0: "saved b' p" if "pg_pin pg = 0" by (rule sv) (use d pg(2) that in auto)
  have b'_sel: "bp_pool b' = bp_pool b" "bp_disk b' = bp_disk b" "bp_replacer b' = r" by (simp_all add: b'_def)
  have fi: "frame_inv b' p f"
    unfolding frame_inv_def at b'_sel
  proof (intro conjI impI)
    show "0 \<le> pg_pin pg" using pg(2) pin by simp
    show "pg_data pg STATUS_OFFSET = STATUS_EXIST" using F pg(3) by simp
    show "disk_byte (bp_disk b) p STATUS_OFFSET = STATUS_EXIST" if "\<not> pg_dirty pg" using F that pg(5) by simp
  qed (use f F ev pg(1) sv0 in blast)+
  have "bp_core b'"
  proof (rule core_change [OF core el own])
    show "g = f \<and> frame_inv b' p f" if "bp_map b' p = Some g" for g
      using that m fi by (simp add: b'_def)
    have "f \<notin> set (bp_free b)" using B(8) m by (auto intro: ranI)
    then show "set (bp_free b') \<inter> evictable (bp_replacer b') = {}" using B(9) r(4) by (auto simp: b'_def)
  qed (use B m r pg at in \<open>simp_all add: b'_def\<close>)
  moreover have "pool_view b' q = pool_view b q" for q
    using elsewhere_kept(1) [OF core el own, of q] m at pg
    by (cases "q = p") (simp_all add: pool_view_def page_mem_def, simp add: b'_def)
  moreover have "pins b' p = pins b p - 1" using m at pg by (simp add: pins_def) (simp add: b'_def)
  ultimately show ?thesis
    using run sv l elsewhere_step [OF core el own] by (intro exI [of _ b']) (auto simp: bp_inv_def b'_def)
qed


lemma new_page_spec:
  assumes inv: "bp_inv b" and room: "bp_free b \<noteq> [] \<or> evictable (bp_replacer b) \<noteq> {}"
    and disk: "free_pgid (bp_disk b) = {} \<Longrightarrow> in32 (2 * max_ava_pgid (bp_disk b))" "in32 (next_pgid (bp_disk b) * PAGE_SIZE)"
  shows "\<exists>f b'. new_page b = Inr (f, b') \<and> bp_inv b' \<and> bp_map b' (next_pgid (bp_disk b)) = Some f \<and>
    pg_id (frame_of b' f) = next_pgid (bp_disk b) \<and> pins b' (next_pgid (bp_disk b)) = 1 \<and> saved b' (next_pgid (bp_disk b)) \<and>
    next_pgid (bp_disk b) \<notin> alloced_pgid (bp_disk b) \<and>
    alloced_pgid (bp_disk b') = insert (next_pgid (bp_disk b)) (alloced_pgid (bp_disk b)) \<and>
    pool_step b b' (next_pgid (bp_disk b))"
proof -
  have core: "bp_core b" and l: "bp_latch b = new_latch" using inv by (simp_all add: bp_inv_def)
  note B = bp_coreD [OF core]
  let ?p = "next_pgid (bp_disk b)" and ?lk = "\<lparr>reader_count = 0, writer_entered = True\<rparr>"
  obtain d where A: "alloc_page (bp_disk b) STATUS_EXIST = Inr (?p, d)" and i': "dm_inv d" and fr: "dm_frame (bp_disk b) d"
      and al: "alloced_pgid d = insert ?p (alloced_pgid (bp_disk b))" and b0: "disk_byte d ?p 0 = STATUS_EXIST"
      and keep: "\<forall>pid a. on_disk (bp_disk b) pid \<and> pid \<noteq> ?p \<and> 0 \<le> a \<and> a < PAGE_SIZE \<longrightarrow>
        disk_byte d pid a = disk_byte (bp_disk b) pid a"
    using alloc_page_spec [OF B(1) disk, of STATUS_EXIST] by blast
  have new: "?p \<notin> alloced_pgid (bp_disk b)" by (rule next_pgid_fresh(2) [OF B(1)])
  have m: "bp_map b ?p = None"
    using new B(11) [of ?p] by (cases "bp_map b ?p") (auto simp: frame_inv_def)
  define b0 where "b0 = b\<lparr>bp_disk := d\<rparr>"
  have el: "elsewhere b b0 ?p (- 1)"
    using fr al keep dm_invD(13) [OF B(1)] unfolding elsewhere_def by (simp add: b0_def)
  have own: "\<forall>q. bp_map b q = Some (- 1) \<longrightarrow> q = ?p" using mapped_range [OF core] by fastforce
  have core0: "bp_core b0"
    by (rule core_change [OF core el own]) (use B i' m b0 in \<open>simp_all add: b0_def STATUS_OFFSET_def\<close>)
  obtain b1 where b1: "wait_for_frame (b0\<lparr>bp_latch := ?lk\<rparr>) = Inr b1" "bp_core b1" "bp_latch b1 = ?lk" "bp_free b1 \<noteq> []"
      "pool_same b0 b1" "bp_map b1 ?p = None"
    using wait_for_frame_spec [of "b0\<lparr>bp_latch := ?lk\<rparr>"] core0 room m by (auto simp: b0_def)
  note B1 = bp_coreD [OF b1(2)]
  obtain f fs where free: "bp_free b1 = f # fs" using b1(4) by (cases "bp_free b1") auto
  have f: "0 \<le> f" "f < bp_pool b1" "nat f < length (bp_pages b1)"
    using free_frame_range [OF b1(2), of f] free B1(4) by auto
  have al1: "alloced_pgid (bp_disk b1) = insert ?p (alloced_pgid (bp_disk b))"
    using al b1(5) by (simp add: pool_same_def b0_def)
  define pg where "pg = set_status (set_page_id ?p (set_lsn (- 1) (add_pin_count (set_pin_count_zero
    (set_is_dirty True (frame_of b1 f))))))"
  define b' where "b' = b1\<lparr>bp_pages := (bp_pages b1)[nat f := pg], bp_map := (bp_map b1)(?p \<mapsto> f), bp_free := fs\<rparr>"
  have pg: "pg_id pg = ?p" "pg_pin pg = 1" "pg_latch pg = new_latch" "pg_data pg STATUS_OFFSET = STATUS_EXIST" "pg_dirty pg"
    using B1(5) [OF f(1,2)] by (simp_all add: pg_def page_op_defs)
  have un: "page_w_unlock (set_status (set_page_id ?p (set_lsn (- 1) (add_pin_count (set_pin_count_zero
      (set_is_dirty True (q\<lparr>pg_latch := ?lk\<rparr>))))))) =
      set_status (set_page_id ?p (set_lsn (- 1) (add_pin_count (set_pin_count_zero (set_is_dirty True q)))))"
    if "pg_latch q = new_latch" for q
    using that by (cases q) (simp add: page_w_unlock_def page_op_defs)
  have run: "new_page b = Inr (f, b'\<lparr>bp_latch := new_latch\<rparr>)"
    using A l b1(1,3,6) free f B1(5) [OF f(1,2)]
    by (simp add: new_page_def bpm_alloc_page_def b0_def [symmetric] with_page_ok page_w_lock_new Let_def un)
      (simp add: b0_def b'_def pg_def)
  note fill = fill_frame [OF b1(2) free b1(6) _ pg(1-4) b'_def]
  have "pool_step b b1 ?p"
    using elsewhere_step [OF core el own] pool_same_step [OF b1(5)] by (rule pool_step_trans)
  then have "pool_step b b' ?p" by (rule pool_step_trans) (rule fill(2), simp add: al1)
  moreover have "saved b' ?p" using fill(4) al1 pg by (simp add: saved_def) (simp add: b'_def)
  ultimately show ?thesis
    using run fill al1 new pg(1) by (intro exI [of _ f] exI [of _ "b'\<lparr>bp_latch := new_latch\<rparr>"]) (auto simp: bp_inv_def b'_def)
qed

text \<open>What a client does to the memory of a page it has pinned.\<close>

definition write_frame :: "bpm \<Rightarrow> int \<Rightarrow> mem \<Rightarrow> bpm" where
  "write_frame b f m = b\<lparr>bp_pages := (bp_pages b)[nat f := (frame_of b f)\<lparr>pg_data := m\<rparr>]\<rparr>"

lemma write_frame_spec:
  assumes inv: "bp_inv b" and m: "bp_map b p = Some f" and pin: "0 < pins b p" and st: "data STATUS_OFFSET = STATUS_EXIST"
  shows "bp_inv (write_frame b f data)" "bp_map (write_frame b f data) = bp_map b"
    "pool_view (write_frame b f data) = (pool_view b)(p \<mapsto> payload data)" "pins (write_frame b f data) = pins b"
    "bp_disk (write_frame b f data) = bp_disk b" "pool_step b (write_frame b f data) p"
    "frame_of (write_frame b f data) f = (frame_of b f)\<lparr>pg_data := data\<rparr>"
proof -
  have core: "bp_core b" and l: "bp_latch b = new_latch" using inv by (simp_all add: bp_inv_def)
  note B = bp_coreD [OF core]
  note F = B(11) [OF m, unfolded frame_inv_def]
  let ?b = "write_frame b f data"
  have f: "0 \<le> f" "f < bp_pool b" "nat f < length (bp_pages b)" using F B(4) by auto
  have el: "elsewhere b ?b p f" using f(1) unfolding elsewhere_def by (simp add: write_frame_def)
  have own: "\<forall>q. bp_map b q = Some f \<longrightarrow> q = p" using B(10) [OF _ m] by blast
  show at: "frame_of ?b f = (frame_of b f)\<lparr>pg_data := data\<rparr>" using f by (simp add: write_frame_def)
  have sel: "bp_pool ?b = bp_pool b" "bp_disk ?b = bp_disk b" "bp_replacer ?b = bp_replacer b" "bp_free ?b = bp_free b"
    by (simp_all add: write_frame_def)
  show mp: "bp_map ?b = bp_map b" by (simp add: write_frame_def)
  show "bp_disk ?b = bp_disk b" by (rule sel)
  show "pool_step b ?b p" by (rule elsewhere_step [OF core el own])
  have pp: "0 < pg_pin (frame_of b f)" using pin m by (simp add: pins_def)
  have fi: "frame_inv ?b p f" using F pp st unfolding frame_inv_def at sel by simp
  have "bp_core ?b"
    by (rule core_change [OF core el own]) (use B m fi at in \<open>simp_all add: sel mp\<close>)
  then show "bp_inv ?b" using l by (simp add: bp_inv_def write_frame_def)
  have "pool_view ?b p = Some (payload data)" using F m at by (simp add: pool_view_def page_mem_def mp sel)
  then have "pool_view ?b q = ((pool_view b)(p \<mapsto> payload data)) q" for q
    using elsewhere_kept(1) [OF core el own, of q] by (cases "q = p") simp_all
  then show "pool_view ?b = (pool_view b)(p \<mapsto> payload data)" by (rule ext)
  have "pins ?b p = pins b p" using m at by (simp add: pins_def mp)
  then have "pins ?b q = pins b q" for q using elsewhere_kept(2) [OF core el own, of q] by (cases "q = p") simp_all
  then show "pins ?b = pins b" by (rule ext)
qed

end
