(* ===== verification/Page_Store.thy ===== *)
theory Page_Store
  imports Buffer_Pool_Inv
begin

text \<open>
  What the buffer pool is for: clients that fetch a page, read or change it and unpin it see a store of
  page contents, however small the pool is and whatever it evicts in between.  The contract is the
  locale \<open>page_store\<close>, its specification the step relation \<open>store_step\<close> on maps from page ids to
  contents.  The last section shows what breaks the contract: deleting a cached page, and fetching a
  page that does not exist.
\<close>

section \<open>The contract\<close>

datatype store_op = Fetch int | Store int "byte list" | Create "byte list"

datatype store_ans = Data "byte list" | Done | Id int

definition PAYLOAD_SZ :: nat where
  "PAYLOAD_SZ = nat (PAGE_SIZE - COM_PG_HEADER_SZ)"

inductive store_step :: "(int \<rightharpoonup> byte list) \<Rightarrow> store_op \<Rightarrow> store_ans \<Rightarrow> (int \<rightharpoonup> byte list) \<Rightarrow> bool" where
  fetch: "V p = Some d \<Longrightarrow> store_step V (Fetch p) (Data d) V"
| store: "p \<in> dom V \<Longrightarrow> store_step V (Store p d) Done (V(p \<mapsto> d))"
| create: "p \<notin> dom V \<Longrightarrow> store_step V (Create d) (Id p) (V(p \<mapsto> d))"

inductive store_trace :: "(int \<rightharpoonup> byte list) \<Rightarrow> store_op list \<Rightarrow> store_ans list \<Rightarrow> (int \<rightharpoonup> byte list) \<Rightarrow> bool" where
  stop: "store_trace V [] [] V"
| more: "store_step V op a V' \<Longrightarrow> store_trace V' ops as V'' \<Longrightarrow> store_trace V (op # ops) (a # as) V''"

inductive_cases store_trace_NilE: "store_trace V [] as V'"
inductive_cases store_trace_ConsE: "store_trace V (op # ops) as V'"
inductive_simps store_step_simps: "store_step V (Fetch p) a V'" "store_step V (Store p d) a V'" "store_step V (Create d) a V'"

definition store_exec :: "('b \<Rightarrow> int \<Rightarrow> (byte list \<times> 'b) result) \<Rightarrow> ('b \<Rightarrow> int \<Rightarrow> byte list \<Rightarrow> 'b result) \<Rightarrow>
    ('b \<Rightarrow> byte list \<Rightarrow> (int \<times> 'b) result) \<Rightarrow> 'b \<Rightarrow> store_op \<Rightarrow> (store_ans \<times> 'b) result" where
  "store_exec rd wr cre b op =
    (case op of
       Fetch p \<Rightarrow> bindR (rd b p) (\<lambda>(d, b). Inr (Data d, b))
     | Store p d \<Rightarrow> bindR (wr b p d) (\<lambda>b. Inr (Done, b))
     | Create d \<Rightarrow> bindR (cre b d) (\<lambda>(p, b). Inr (Id p, b)))"

fun store_run :: "('b \<Rightarrow> int \<Rightarrow> (byte list \<times> 'b) result) \<Rightarrow> ('b \<Rightarrow> int \<Rightarrow> byte list \<Rightarrow> 'b result) \<Rightarrow>
    ('b \<Rightarrow> byte list \<Rightarrow> (int \<times> 'b) result) \<Rightarrow> 'b \<Rightarrow> store_op list \<Rightarrow> (store_ans list \<times> 'b) result" where
  "store_run rd wr cre b [] = Inr ([], b)"
| "store_run rd wr cre b (op # ops) =
    bindR (store_exec rd wr cre b op) (\<lambda>(a, b). bindR (store_run rd wr cre b ops) (\<lambda>(as, b). Inr (a # as, b)))"

text \<open>Operations name pages of \<open>P\<close>, carry full payloads, and there is room for the pages they create.\<close>

fun store_op_ok :: "int set \<Rightarrow> store_op \<Rightarrow> bool" where
  "store_op_ok P (Fetch p) \<longleftrightarrow> p \<in> P"
| "store_op_ok P (Store p d) \<longleftrightarrow> p \<in> P \<and> length d = PAYLOAD_SZ"
| "store_op_ok P (Create d) \<longleftrightarrow> length d = PAYLOAD_SZ"

fun creates :: "store_op list \<Rightarrow> nat" where
  "creates [] = 0"
| "creates (Create d # ops) = Suc (creates ops)"
| "creates (op # ops) = creates ops"

locale page_store =
  fixes rd :: "'b \<Rightarrow> int \<Rightarrow> (byte list \<times> 'b) result"
    and wr :: "'b \<Rightarrow> int \<Rightarrow> byte list \<Rightarrow> 'b result"
    and cre :: "'b \<Rightarrow> byte list \<Rightarrow> (int \<times> 'b) result"
    and idle :: "'b \<Rightarrow> bool"
    and view :: "'b \<Rightarrow> int \<rightharpoonup> byte list"
  assumes finite_view: "idle b \<Longrightarrow> finite (dom (view b))"
    and rd_law: "idle b \<Longrightarrow> view b p = Some d \<Longrightarrow> \<exists>b'. rd b p = Inr (d, b') \<and> idle b' \<and> view b' = view b"
    and wr_law: "idle b \<Longrightarrow> p \<in> dom (view b) \<Longrightarrow> length d = PAYLOAD_SZ \<Longrightarrow>
      \<exists>b'. wr b p d = Inr b' \<and> idle b' \<and> view b' = (view b)(p \<mapsto> d)"
    and cre_law: "idle b \<Longrightarrow> card (dom (view b)) < PAGE_LIMIT \<Longrightarrow> length d = PAYLOAD_SZ \<Longrightarrow>
      \<exists>p b'. cre b d = Inr (p, b') \<and> p \<notin> dom (view b) \<and> idle b' \<and> view b' = (view b)(p \<mapsto> d)"
begin

lemma exec_refines_store:
  assumes "idle b" "store_op_ok P op" "P \<subseteq> dom (view b)" "card (dom (view b)) + creates [op] \<le> PAGE_LIMIT"
  shows "\<exists>a b'. store_exec rd wr cre b op = Inr (a, b') \<and> store_step (view b) op a (view b') \<and> idle b' \<and>
    P \<subseteq> dom (view b') \<and> card (dom (view b')) = card (dom (view b)) + creates [op]"
proof (cases op)
  case (Fetch p)
  then obtain d where d: "view b p = Some d" using assms(2,3) by auto
  then obtain b' where "rd b p = Inr (d, b')" "idle b'" "view b' = view b" using rd_law [OF assms(1)] by blast
  then show ?thesis using Fetch d assms(3) by (auto simp: store_exec_def store_step_simps)
next
  case (Store p d)
  then have p: "p \<in> dom (view b)" using assms(2,3) by auto
  then obtain b' where "wr b p d = Inr b'" "idle b'" "view b' = (view b)(p \<mapsto> d)"
    using wr_law [OF assms(1)] Store assms(2) by auto
  then show ?thesis using Store p assms(3) by (auto simp: store_exec_def store_step_simps insert_absorb)
next
  case (Create d)
  then have "card (dom (view b)) < PAGE_LIMIT" "length d = PAYLOAD_SZ" using assms(2,4) by simp_all
  then obtain p b' where "cre b d = Inr (p, b')" "p \<notin> dom (view b)" "idle b'" "view b' = (view b)(p \<mapsto> d)"
    using cre_law [OF assms(1)] by blast
  then show ?thesis using Create assms(3) finite_view [OF assms(1)] by (auto simp: store_exec_def store_step_simps)
qed

lemma run_refines_store:
  assumes "idle b" "list_all (store_op_ok P) ops" "P \<subseteq> dom (view b)" "card (dom (view b)) + creates ops \<le> PAGE_LIMIT"
  shows "\<exists>as b'. store_run rd wr cre b ops = Inr (as, b') \<and> store_trace (view b) ops as (view b') \<and> idle b'"
  using assms
proof (induction ops arbitrary: b)
  case Nil
  then show ?case by (auto intro: stop)
next
  case (Cons op ops)
  have split: "creates (op # ops) = creates [op] + creates ops" by (cases op) auto
  then obtain a b1 where b1: "store_exec rd wr cre b op = Inr (a, b1)" "store_step (view b) op a (view b1)" "idle b1"
      "P \<subseteq> dom (view b1)" "card (dom (view b1)) = card (dom (view b)) + creates [op]"
    using exec_refines_store [OF Cons.prems(1) _ Cons.prems(3), of op] Cons.prems(2,4) by auto
  then obtain as b' where "store_run rd wr cre b1 ops = Inr (as, b')" "store_trace (view b1) ops as (view b')" "idle b'"
    using Cons.IH [OF b1(3) _ b1(4)] Cons.prems(2,4) split by auto
  then show ?case using b1 by (auto intro: more)
qed

end


section \<open>The buffer pool keeps it\<close>

text \<open>Fetch, use and unpin, as every client of the pool does it.\<close>

definition pool_read :: "bpm \<Rightarrow> int \<Rightarrow> (byte list \<times> bpm) result" where
  "pool_read b p =
    bindR (get_page b p) (\<lambda>(fo, b).
      case fo of None \<Rightarrow> Inl NullDeref
      | Some f \<Rightarrow> let d = payload (pg_data (frame_of b f)) in bindR (unpin_page b p False) (\<lambda>b. Inr (d, b)))"

definition fill_payload :: "bpm \<Rightarrow> int \<Rightarrow> byte list \<Rightarrow> bpm" where
  "fill_payload b f d = write_frame b f (put_bytes (pg_data (frame_of b f)) COM_PG_HEADER_SZ d)"

definition pool_write :: "bpm \<Rightarrow> int \<Rightarrow> byte list \<Rightarrow> bpm result" where
  "pool_write b p d =
    bindR (get_page b p) (\<lambda>(fo, b).
      case fo of None \<Rightarrow> Inl NullDeref | Some f \<Rightarrow> unpin_page (fill_payload b f d) p True)"

definition pool_create :: "bpm \<Rightarrow> byte list \<Rightarrow> (int \<times> bpm) result" where
  "pool_create b d =
    bindR (new_page b) (\<lambda>(f, b).
      let p = pg_id (frame_of b f) in bindR (unpin_page (fill_payload b f d) p True) (\<lambda>b. Inr (p, b)))"

definition pool_idle :: "bpm \<Rightarrow> bool" where
  "pool_idle b \<longleftrightarrow> bp_inv b \<and> 0 < bp_pool b \<and> (\<forall>p. pins b p = 0) \<and> (\<forall>p. saved b p)"

lemma dom_pool_view: "dom (pool_view b) = alloced_pgid (bp_disk b)"
  by (auto simp: pool_view_def split: if_splits)

lemma idle_room:
  assumes "pool_idle b"
  shows "bp_free b \<noteq> [] \<or> evictable (bp_replacer b) \<noteq> {}"
proof (rule ccontr)
  assume c: "\<not> ?thesis"
  have core: "bp_core b" and pool: "0 < bp_pool b" using assms by (simp_all add: pool_idle_def bp_inv_def)
  have "0 \<in> ran (bp_map b)" using bp_coreD(7) [OF core] c pool by auto
  then obtain p where p: "bp_map b p = Some 0" by (auto simp: ran_def)
  then have "pins b p = pg_pin (frame_of b 0)" by (simp add: pins_def)
  then have "0 \<in> evictable (bp_replacer b)"
    using bp_coreD(11) [OF core p] assms by (simp add: frame_inv_def pool_idle_def)
  then show False using c by simp
qed

lemma fill_payload_spec:
  assumes "bp_inv b" "bp_map b p = Some f" "0 < pins b p" "length d = PAYLOAD_SZ"
  shows "bp_inv (fill_payload b f d)" "pool_view (fill_payload b f d) = (pool_view b)(p \<mapsto> d)" "pins (fill_payload b f d) = pins b"
    "bp_disk (fill_payload b f d) = bp_disk b" "pool_step b (fill_payload b f d) p"
proof -
  let ?m = "put_bytes (pg_data (frame_of b f)) COM_PG_HEADER_SZ d"
  have "frame_inv b p f" using bp_coreD(11) assms(1,2) by (simp add: bp_inv_def)
  then have st: "?m STATUS_OFFSET = STATUS_EXIST"
    by (simp add: frame_inv_def put_bytes_def STATUS_OFFSET_def COM_PG_HEADER_SZ_def)
  have pl: "payload ?m = d"
    using assms(4) unfolding payload_def by (intro get_put_bytes) (simp add: PAYLOAD_SZ_def PAGE_SIZE_def COM_PG_HEADER_SZ_def)
  note W = write_frame_spec [where data = ?m, OF assms(1-3) st]
  show "bp_inv (fill_payload b f d)" "pool_view (fill_payload b f d) = (pool_view b)(p \<mapsto> d)" "pins (fill_payload b f d) = pins b"
    "bp_disk (fill_payload b f d) = bp_disk b" "pool_step b (fill_payload b f d) p"
    using W pl by (simp_all add: fill_payload_def)
qed

lemma pool_read_law:
  assumes idle: "pool_idle b" and p: "pool_view b p = Some d"
  shows "\<exists>b'. pool_read b p = Inr (d, b') \<and> pool_idle b' \<and> pool_view b' = pool_view b"
proof -
  have inv: "bp_inv b" and pn: "pins b q = 0" and sv: "saved b q" and pool: "0 < bp_pool b" for q using idle by (simp_all add: pool_idle_def)
  have al: "p \<in> alloced_pgid (bp_disk b)" using p by (simp add: pool_view_def split: if_splits)
  obtain f b1 where g: "get_page b p = Inr (Some f, b1)" "bp_inv b1" "bp_map b1 p = Some f" "pool_view b1 = pool_view b"
      "pins b1 p = 1" "saved b1 p" "pool_step b b1 p"
    using get_page_spec [OF inv al] idle_room [OF idle] pn sv by auto
  obtain b2 where u: "unpin_page b1 p False = Inr b2" "bp_inv b2" "pool_view b2 = pool_view b1" "pins b2 p = 0" "saved b2 p"
      "pool_step b1 b2 p"
    using unpin_page_spec [OF g(2), of p False] g(5,6) by auto
  have step: "pool_step b b2 p" by (rule pool_step_trans [OF g(7) u(6)])
  have "pins b2 q = 0" "saved b2 q" for q
    using pool_stepD(2,3) [OF step, of q] u(4,5) pn sv by (cases "q = p"; simp)+
  moreover have "bp_pool b2 = bp_pool b" using step by (simp add: pool_step_def)
  moreover have "payload (pg_data (frame_of b1 f)) = d"
    using p g(3,4) by (metis (no_types, lifting) option.simps(5) page_mem_def pool_view_def option.distinct(1) option.inject)
  ultimately show ?thesis using g(1,4) u pool by (auto simp: pool_read_def pool_idle_def)
qed

lemma pool_write_law:
  assumes idle: "pool_idle b" and p: "p \<in> dom (pool_view b)" and d: "length d = PAYLOAD_SZ"
  shows "\<exists>b'. pool_write b p d = Inr b' \<and> pool_idle b' \<and> pool_view b' = (pool_view b)(p \<mapsto> d)"
proof -
  have inv: "bp_inv b" and pn: "pins b q = 0" and sv: "saved b q" and pool: "0 < bp_pool b" for q using idle by (simp_all add: pool_idle_def)
  have al: "p \<in> alloced_pgid (bp_disk b)" using p dom_pool_view by simp
  obtain f b1 where g: "get_page b p = Inr (Some f, b1)" "bp_inv b1" "bp_map b1 p = Some f" "pool_view b1 = pool_view b"
      "pins b1 p = 1" "pool_step b b1 p"
    using get_page_spec [OF inv al] idle_room [OF idle] pn by auto
  note W = fill_payload_spec [OF g(2,3) _ d]
  obtain b2 where u: "unpin_page (fill_payload b1 f d) p True = Inr b2" "bp_inv b2" "pool_view b2 = (pool_view b)(p \<mapsto> d)"
      "pins b2 p = 0" "saved b2 p" "pool_step (fill_payload b1 f d) b2 p"
    using unpin_page_spec [OF W(1), of p True] W(2,3) g(4,5) by auto
  have step: "pool_step b b2 p"
    using pool_step_trans [OF pool_step_trans [OF g(6) W(5)] u(6)] g(5) by simp
  have "pins b2 q = 0" "saved b2 q" for q
    using pool_stepD(2,3) [OF step, of q] u(4,5) pn sv by (cases "q = p"; simp)+
  moreover have "bp_pool b2 = bp_pool b" using step by (simp add: pool_step_def)
  ultimately show ?thesis using g(1) u pool by (auto simp: pool_write_def pool_idle_def)
qed

lemma pool_create_law:
  assumes idle: "pool_idle b" and lim: "card (dom (pool_view b)) < PAGE_LIMIT" and d: "length d = PAYLOAD_SZ"
  shows "\<exists>p b'. pool_create b d = Inr (p, b') \<and> p \<notin> dom (pool_view b) \<and> pool_idle b' \<and> pool_view b' = (pool_view b)(p \<mapsto> d)"
proof -
  have inv: "bp_inv b" and pn: "pins b q = 0" and sv: "saved b q" and pool: "0 < bp_pool b" for q using idle by (simp_all add: pool_idle_def)
  let ?p = "next_pgid (bp_disk b)"
  have di: "dm_inv (bp_disk b)" using inv bp_coreD(1) by (simp add: bp_inv_def)
  note N = next_pgid_fresh [OF di]
  have "{0..<?p} \<subseteq> alloced_pgid (bp_disk b)" using N(3) by auto
  from card_mono [OF dm_invD(16) [OF di] this] have lt: "?p < int PAGE_LIMIT"
    using lim N(1) by (simp add: dom_pool_view)
  have room: "in32 (2 * max_ava_pgid (bp_disk b))" if "free_pgid (bp_disk b) = {}"
    using that lt dm_invD(9) [OF di] by (simp add: next_pgid_def in32_def PAGE_LIMIT_def)
  obtain f b1 where g: "new_page b = Inr (f, b1)" "bp_inv b1" "bp_map b1 ?p = Some f" "pg_id (frame_of b1 f) = ?p"
      "pins b1 ?p = 1" "pool_step b b1 ?p"
    using new_page_spec [OF inv idle_room [OF idle] room PAGE_LIMIT_addr [OF N(1) lt]] by blast
  note W = fill_payload_spec [OF g(2,3) _ d]
  obtain b2 where u: "unpin_page (fill_payload b1 f d) ?p True = Inr b2" "bp_inv b2" "pool_view b2 = (pool_view b1)(?p \<mapsto> d)"
      "pins b2 ?p = 0" "saved b2 ?p" "pool_step (fill_payload b1 f d) b2 ?p"
    using unpin_page_spec [OF W(1), of ?p True] W(2,3) g(5) by auto
  have step: "pool_step b b2 ?p"
    using pool_step_trans [OF pool_step_trans [OF g(6) W(5)] u(6)] g(5) by simp
  have "pins b2 q = 0" "saved b2 q" for q
    using pool_stepD(2,3) [OF step, of q] u(4,5) pn sv by (cases "q = ?p"; simp)+
  moreover have "bp_pool b2 = bp_pool b" using step by (simp add: pool_step_def)
  moreover have "pool_view b2 q = ((pool_view b)(?p \<mapsto> d)) q" for q
    using u(3) pool_stepD(1) [OF g(6), of q] by (cases "q = ?p") simp_all
  ultimately show ?thesis
    using g(1,4) u(1,2) pool N(2) by (auto simp: pool_create_def pool_idle_def dom_pool_view Let_def fun_eq_iff)
qed

interpretation ps: page_store pool_read pool_write pool_create pool_idle pool_view
proof unfold_locales
  show "finite (dom (pool_view b))" if "pool_idle b" for b
    using that dm_invD(16) [OF bp_coreD(1)] by (simp add: pool_idle_def bp_inv_def dom_pool_view)
qed (rule pool_read_law pool_write_law pool_create_law; assumption)+


lemma pool_idle_new:
  assumes dm: "dm_inv dm" "\<forall>p\<in>alloced_pgid dm. disk_byte dm p STATUS_OFFSET = STATUS_EXIST" and n: "0 < n"
  shows "pool_idle (BufferPoolManager lsn0 dm n)"
    "pool_view (BufferPoolManager lsn0 dm n) = (\<lambda>p. if p \<in> alloced_pgid dm then Some (payload (disk_byte dm p)) else None)"
proof -
  let ?b = "BufferPoolManager lsn0 dm n"
  have sel: "bp_disk ?b = dm" "bp_map ?b = Map.empty" "bp_pool ?b = n" "bp_replacer ?b = ClockReplacer n" "bp_latch ?b = new_latch"
      "bp_free ?b = map int [0..<nat n]" "bp_pages ?b = replicate (nat n) (Page_default lsn0)"
    by (simp_all add: BufferPoolManager_def)
  have fr: "int ` {0..<nat n} = {0..<n}" using n by (simp add: image_int_atLeastLessThan)
  have cr: "cr_inv (ClockReplacer n)" "evictable (ClockReplacer n) = {}" "cr_pool (ClockReplacer n) = n"
    using cr_inv_new [OF n] by (simp_all add: ClockReplacer_def)
  have "bp_core ?b"
    unfolding bp_core_def sel using dm cr fr by (simp add: distinct_map Page_default_def)
  moreover have "pins ?b p = 0" "saved ?b p" for p by (simp_all add: pins_def saved_def sel)
  ultimately show "pool_idle ?b" using n by (simp add: pool_idle_def bp_inv_def sel)
  show "pool_view ?b = (\<lambda>p. if p \<in> alloced_pgid dm then Some (payload (disk_byte dm p)) else None)"
    by (rule ext) (simp add: pool_view_def page_mem_def sel)
qed


lemma fresh_disk:
  "\<exists>dm. DiskManager (\<lambda>_. None) (\<lambda>_. False) 7 (\<lambda>_. 0) (\<lambda>_. 0) ''t'' True = Inr dm \<and> dm_inv dm \<and> alloced_pgid dm = {0} \<and>
    disk_byte dm 0 STATUS_OFFSET = STATUS_EXIST \<and> free_pgid dm = {1..<100} \<and> next_pgid dm = 1 \<and> (\<forall>p. on_disk dm p \<longleftrightarrow> p = 0) \<and>
    payload (disk_byte dm 0) = replicate PAYLOAD_SZ 0"
proof -
  obtain dm where dm: "DiskManager (\<lambda>_. None) (\<lambda>_. False) 7 (\<lambda>_. 0) (\<lambda>_. 0) ''t'' True = Inr dm" "dm_live ''t'' dm"
      "alloced_pgid dm = {0}" "free_pgid dm = {1..<100}" "\<forall>p. on_disk dm p \<longleftrightarrow> p = 0"
      "\<forall>a. 0 \<le> a \<and> a < PAGE_SIZE \<longrightarrow> disk_byte dm 0 a = ((\<lambda>_. 0)(0 := STATUS_EXIST)) a"
    using from_scratch_spec [of "''t''" "\<lambda>_. None" "\<lambda>_. False" 7 "\<lambda>_. 0" "\<lambda>_. 0"] by (auto simp: name_ok_def)
  have "Min {1..<100::int} = 1" by (rule Min_eqI) auto
  then have "next_pgid dm = 1" using dm(4) by (simp add: next_pgid_def)
  moreover have "same_payload (disk_byte dm 0) (\<lambda>_. 0)" using dm(6) by (auto simp: same_payload_def COM_PG_HEADER_SZ_def)
  then have "payload (disk_byte dm 0) = payload (\<lambda>_. 0)" by (simp add: payload_eq)
  then have "payload (disk_byte dm 0) = replicate PAYLOAD_SZ 0"
    by (simp add: payload_def get_bytes_def PAYLOAD_SZ_def map_replicate_const)
  ultimately show ?thesis using dm by (auto simp: dm_live_def STATUS_OFFSET_def PAGE_SIZE_def)
qed



section \<open>What breaks it\<close>

text \<open>
  C13. When \<^verbatim>\<open>get_page\<close> cannot read the page from the disk it returns a null pointer without releasing the
  latch of the pool: every later request to the pool waits for ever.
\<close>

theorem get_page_failure_keeps_latch:
  assumes inv: "bp_inv b" and p: "0 \<le> p" "bp_map b p = None" "\<not> on_disk (bp_disk b) p" and free: "bp_free b = f # fs"
    and q: "0 \<le> q"
  shows "\<exists>b'. get_page b p = Inr (None, b') \<and> get_page b' q = Inl Blocked \<and> unpin_page b' q dirty = Inl Blocked \<and>
    flush_page b' q = Inl Blocked \<and> delete_page b' q = Inl Blocked"
proof -
  have core: "bp_core b" and l: "bp_latch b = new_latch" using inv by (simp_all add: bp_inv_def)
  note B = bp_coreD [OF core]
  have f: "0 \<le> f" "nat f < length (bp_pages b)" using free_frame_range [OF core, of f] free B(4) by auto
  let ?lk = "\<lparr>reader_count = 0, writer_entered = True\<rparr>" and ?m = "pg_data (frame_of b f)"
  obtain m d where rd: "read_page (bp_disk b) p ?m = Inr (False, m, d)"
    using read_page_short [OF B(1) p(1,3)] by blast
  have "wait_for_frame (b\<lparr>bp_latch := ?lk\<rparr>) = Inr (b\<lparr>bp_latch := ?lk\<rparr>)" using free by (simp add: wait_for_frame_def)
  then obtain b' where b': "get_page b p = Inr (None, b')" "bp_latch b' = ?lk"
    using p(1,2) l free f rd by (simp add: get_page_def INVALID_PAGE_ID_def)
  then show ?thesis
    using q by (intro exI [of _ b']) (simp add: get_page_def unpin_page_def flush_page_def delete_page_def INVALID_PAGE_ID_def w_lock_def r_lock_def)
qed

lemma fresh_pool:
  "\<exists>dm. DiskManager (\<lambda>_. None) (\<lambda>_. False) 7 (\<lambda>_. 0) (\<lambda>_. 0) ''t'' True = Inr dm \<and>
    pool_idle (BufferPoolManager 0 dm 1) \<and> bp_free (BufferPoolManager 0 dm 1) = [0] \<and>
    bp_map (BufferPoolManager 0 dm 1) = Map.empty \<and> bp_disk (BufferPoolManager 0 dm 1) = dm \<and> alloced_pgid dm = {0} \<and>
    next_pgid dm = 1 \<and> free_pgid dm \<noteq> {} \<and> (\<forall>p. on_disk dm p \<longleftrightarrow> p = 0)"
proof -
  obtain dm where dm: "DiskManager (\<lambda>_. None) (\<lambda>_. False) 7 (\<lambda>_. 0) (\<lambda>_. 0) ''t'' True = Inr dm" "dm_inv dm" "alloced_pgid dm = {0}"
      "disk_byte dm 0 STATUS_OFFSET = STATUS_EXIST" "next_pgid dm = 1" "free_pgid dm = {1..<100}" "\<forall>p. on_disk dm p \<longleftrightarrow> p = 0"
    using fresh_disk by blast
  have "\<forall>p\<in>alloced_pgid dm. disk_byte dm p STATUS_OFFSET = STATUS_EXIST" using dm(3,4) by simp
  from pool_idle_new(1) [OF dm(2) this zero_less_one] have "pool_idle (BufferPoolManager 0 dm 1)" .
  moreover have "bp_free (BufferPoolManager 0 dm 1) = [0]" "bp_map (BufferPoolManager 0 dm 1) = Map.empty"
    "bp_disk (BufferPoolManager 0 dm 1) = dm" by (simp_all add: BufferPoolManager_def)
  moreover have "free_pgid dm \<noteq> {}" using dm(6) by simp
  ultimately show ?thesis using dm(1,3,5,7) by blast
qed

theorem get_page_failure_keeps_latch_witness:
  "\<exists>dm b'. DiskManager (\<lambda>_. None) (\<lambda>_. False) 7 (\<lambda>_. 0) (\<lambda>_. 0) ''t'' True = Inr dm \<and>
    get_page (BufferPoolManager 0 dm 1) 5 = Inr (None, b') \<and> get_page b' 0 = Inl Blocked"
proof -
  obtain dm where dm: "DiskManager (\<lambda>_. None) (\<lambda>_. False) 7 (\<lambda>_. 0) (\<lambda>_. 0) ''t'' True = Inr dm"
      "pool_idle (BufferPoolManager 0 dm 1)" "bp_free (BufferPoolManager 0 dm 1) = [0]"
      "bp_map (BufferPoolManager 0 dm 1) = Map.empty" "bp_disk (BufferPoolManager 0 dm 1) = dm" "\<forall>p. on_disk dm p \<longleftrightarrow> p = 0"
    using fresh_pool by blast
  have inv: "bp_inv (BufferPoolManager 0 dm 1)" using dm(2) by (simp add: pool_idle_def)
  show ?thesis
    using get_page_failure_keeps_latch [OF inv, of 5 0 "[]" 0 False] dm(1,3-6) by auto
qed

text \<open>
  C14. \<^verbatim>\<open>delete_page\<close> puts the frame of a cached page on the free list but does not take it out of the replacer.  The
  next page fetched into that frame is pinned and still a candidate for eviction: the replacer hands its
  frame out and \<^verbatim>\<open>evict_page\<close> throws the pinned page out of the pool.
\<close>

theorem delete_page_exposes_pinned_frame:
  assumes inv: "bp_inv b" and p: "bp_map b p = Some f" "pins b p = 0" "in32 (p * PAGE_SIZE)"
    and full: "bp_free b = []" "evictable (bp_replacer b) = {f}"
    and c: "c \<in> alloced_pgid (bp_disk b)" "bp_map b c = None"
  shows "\<exists>b1 b2 r b3. delete_page b p = Inr (True, b1) \<and> get_page b1 c = Inr (Some f, b2) \<and>
    pg_id (frame_of b2 f) = c \<and> pg_pin (frame_of b2 f) = 1 \<and>
    cr_victim (bp_replacer b2) = Inr (f, r) \<and> evict_page (b2\<lparr>bp_replacer := r\<rparr>) c f = Inr b3 \<and> bp_map b3 c = None"
proof -
  have core: "bp_core b" and l: "bp_latch b = new_latch" using inv by (simp_all add: bp_inv_def)
  note B = bp_coreD [OF core]
  note F = B(11) [OF p(1), unfolded frame_inv_def]
  have f: "0 \<le> f" "f < bp_pool b" "nat f < length (bp_pages b)" using F B(4) by auto
  have ne: "c \<noteq> p" using p(1) c(2) by auto
  have pin: "pg_pin (frame_of b f) = 0" using p by (simp add: pins_def)
  have pa: "p \<in> alloced_pgid (bp_disk b)" using F by simp
  obtain d where d: "free_page (bp_disk b) p = Inr (True, d)" "dm_inv d" "alloced_pgid d = alloced_pgid (bp_disk b) - {p}"
      "\<forall>q a. on_disk (bp_disk b) q \<and> q \<noteq> p \<and> 0 \<le> a \<and> a < PAGE_SIZE \<longrightarrow> disk_byte d q a = disk_byte (bp_disk b) q a"
    using free_page_spec [OF B(1) pa p(3)] by blast
  define b1 where "b1 = b\<lparr>bp_pages := (bp_pages b)[nat f := evicted (frame_of b f)], bp_free := [f],
    bp_map := (bp_map b)(p := None), bp_disk := d\<rparr>"
  have un: "page_w_unlock (set_page_id INVALID_PAGE_ID (q\<lparr>pg_latch := \<lparr>reader_count = 0, writer_entered = True\<rparr>\<rparr>)) = evicted q"
    if "pg_latch q = new_latch" for q
    using that by (cases q) (simp add: page_w_unlock_def evicted_def set_page_id_def)
  have del: "delete_page b p = Inr (True, b1)"
    using l p(1) f pin d(1) full(1) B(5) [OF f(1,2)]
    by (simp add: delete_page_def with_page_ok page_w_lock_new un b1_def Let_def)
  have cd: "c \<in> alloced_pgid d" using c(1) ne d(3) by simp
  let ?m = "memcpy (pg_data (evicted (frame_of b f))) 0 (disk_byte d c) 0 PAGE_SIZE"
  have st: "?m STATUS_OFFSET = STATUS_EXIST"
    using B(12) [OF c] d(4) dm_invD(13) [OF B(1) c(1)] ne by (simp add: memcpy_def STATUS_OFFSET_def PAGE_SIZE_def)
  define pg where "pg = add_pin_count (set_pin_count_zero (set_lsn (- 1) (set_page_id c (set_is_dirty False
    ((evicted (frame_of b f))\<lparr>pg_data := ?m\<rparr>)))))"
  define b2 where "b2 = b1\<lparr>bp_pages := (bp_pages b1)[nat f := pg], bp_map := (bp_map b1)(c \<mapsto> f), bp_free := []\<rparr>"
  have lt: "pg_latch (evicted (frame_of b f)) = new_latch" using B(5) [OF f(1,2)] by (simp add: evicted_def set_page_id_def)
  have un2: "page_w_unlock (add_pin_count (set_pin_count_zero (set_lsn (- 1) (set_page_id c (set_is_dirty False
      (q\<lparr>pg_latch := \<lparr>reader_count = 0, writer_entered = True\<rparr>\<rparr>)))))) =
      add_pin_count (set_pin_count_zero (set_lsn (- 1) (set_page_id c (set_is_dirty False q))))"
    if "pg_latch q = new_latch" for q
    using that by (cases q) (simp add: page_w_unlock_def page_op_defs)
  have "\<not> c \<le> INVALID_PAGE_ID" using alloced_nonneg [OF core c(1)] by (simp add: INVALID_PAGE_ID_def)
  then have get: "get_page b1 c = Inr (Some f, b2)"
    using l c(2) ne f st lt read_page_spec [OF d(2) dm_invD(13) [OF d(2) cd], of "pg_data (evicted (frame_of b f))"]
    by (simp add: get_page_def b1_def wait_for_frame_def with_page_ok page_w_lock_new un2 b2_def pg_def)
  have at: "frame_of b2 f = pg" using f by (simp add: b2_def b1_def)
  have pg: "pg_id pg = c" "pg_pin pg = 1" "\<not> pg_dirty pg" "pg_latch pg = new_latch"
    using lt by (simp_all add: pg_def page_op_defs)
  have r2: "bp_replacer b2 = bp_replacer b" by (simp add: b2_def b1_def)
  obtain r where r: "cr_victim (bp_replacer b2) = Inr (f, r)"
    using cr.victim_law [OF B(2)] full(2) r2 by auto
  have ev: "evict_page (b2\<lparr>bp_replacer := r\<rparr>) c f = Inr (b2\<lparr>bp_replacer := r, bp_pages := (bp_pages b2)[nat f := evicted pg],
      bp_map := (bp_map b2)(c := None), bp_free := bp_free b2 @ [f], bp_disk := bp_disk b2\<rparr>)"
    using evict_page_run [of f "b2\<lparr>bp_replacer := r\<rparr>" c "bp_disk b2"] f at pg l by (simp add: b2_def b1_def)
  show ?thesis using del get at pg r ev by (intro exI conjI) (assumption | simp)+
qed


text \<open>A pool of one frame that holds page 1, next to page 0 on the disk.\<close>

lemma one_frame_pool:
  "\<exists>b. bp_inv b \<and> bp_map b 1 = Some 0 \<and> pins b 1 = 0 \<and> bp_free b = [] \<and> evictable (bp_replacer b) = {0} \<and>
    0 \<in> alloced_pgid (bp_disk b) \<and> bp_map b 0 = None"
proof -
  obtain dm where dm: "pool_idle (BufferPoolManager 0 dm 1)" "bp_free (BufferPoolManager 0 dm 1) = [0]"
      "bp_disk (BufferPoolManager 0 dm 1) = dm" "alloced_pgid dm = {0}" "next_pgid dm = 1" "free_pgid dm \<noteq> {}"
    using fresh_pool by blast
  let ?b = "BufferPoolManager 0 dm 1"
  have inv: "bp_inv ?b" using dm(1) by (simp add: pool_idle_def)
  obtain f b1 where b1: "bp_inv b1" "bp_map b1 1 = Some f" "pins b1 1 = 1" "saved b1 1" "alloced_pgid (bp_disk b1) = {1, 0}"
      "pool_step ?b b1 1"
    using new_page_spec [OF inv] dm(2-6) by (auto simp: in32_def PAGE_SIZE_def)
  obtain b2 where b2: "bp_inv b2" "bp_map b2 = bp_map b1" "pins b2 1 = 0" "bp_disk b2 = bp_disk b1" "pool_step b1 b2 1"
    using unpin_page_spec [OF b1(1), of 1 True] b1(3) by auto
  have pool: "bp_pool b2 = 1" using b1(6) b2(5) by (simp add: pool_step_def BufferPoolManager_def)
  have core: "bp_core b2" using b2(1) by (simp add: bp_inv_def)
  note B = bp_coreD [OF core]
  have m: "bp_map b2 1 = Some f" using b1(2) b2(2) by simp
  have f: "f = 0" using mapped_range [OF core m] pool by simp
  have "x = 0" if "x \<in> set (bp_free b2)" for x using free_frame_range [OF core that] pool by simp
  then have "set (bp_free b2) \<subseteq> {0}" "0 \<in> ran (bp_map b2)" using m f by (auto intro: ranI)
  then have free: "bp_free b2 = []" using B(8) by (cases "bp_free b2") auto
  have "0 \<in> evictable (bp_replacer b2)"
    using B(11) [OF m] f m b2(3) by (simp add: frame_inv_def pins_def)
  then have ev: "evictable (bp_replacer b2) = {0}" using evictable_within [of "bp_replacer b2"] B(3) pool by auto
  have "bp_map b2 0 = None"
  proof (cases "bp_map b2 0")
    case (Some g)
    then have "g = 0" using mapped_range [OF core Some] pool by simp
    then show ?thesis using B(10) [OF Some, of 1] m f by simp
  qed
  then show ?thesis using b2(1,3,4) m f free ev b1(5) by (intro exI [of _ b2]) simp
qed

theorem delete_page_exposes_pinned_frame_witness:
  "\<exists>b b1 b2 r b3. delete_page b 1 = Inr (True, b1) \<and> get_page b1 0 = Inr (Some 0, b2) \<and>
    pg_pin (frame_of b2 0) = 1 \<and> evict_page (b2\<lparr>bp_replacer := r\<rparr>) 0 0 = Inr b3 \<and> bp_map b3 0 = None"
proof -
  obtain b where b: "bp_inv b" "bp_map b 1 = Some 0" "pins b 1 = 0" "bp_free b = []" "evictable (bp_replacer b) = {0}"
      "0 \<in> alloced_pgid (bp_disk b)" "bp_map b 0 = None"
    using one_frame_pool by blast
  have "in32 (1 * PAGE_SIZE)" by (simp add: in32_def PAGE_SIZE_def)
  from delete_page_exposes_pinned_frame [OF b(1-3) this b(4-7)] show ?thesis by blast
qed

end
