(* ===== verification/Table_Page.thy ===== *)
theory Table_Page
  imports Page
begin

text \<open>
  The slotted page of \<^verbatim>\<open>src/src/include/storage/page/table_page.h\<close> and
  \<^verbatim>\<open>src/src/storage/page/table_page.cpp\<close>: tuple records grow upwards behind the header, tuple data
  grows downwards from the end of the page.  The operations are modelled on the bytes of the
  page; \<open>slots\<close> reads a page as the list of its slots, and under \<open>tp_inv\<close> every operation is the
  corresponding operation on that list.
\<close>

named_theorems tp_defs \<open>the offsets of a table page\<close>

definition START_OFFSET :: int where [tp_defs]: "START_OFFSET = COM_PG_HEADER_SZ"
definition PREV_PGID_OFFSET :: int where [tp_defs]: "PREV_PGID_OFFSET = START_OFFSET"
definition NEXT_PGID_OFFSET :: int where [tp_defs]: "NEXT_PGID_OFFSET = PREV_PGID_OFFSET + PGID_T_SIZE"
definition FREE_SPACE_PTR_OFFSET :: int where [tp_defs]:
  "FREE_SPACE_PTR_OFFSET = NEXT_PGID_OFFSET + PGID_T_SIZE"
definition TUPLE_CNT_OFFSET :: int where [tp_defs]:
  "TUPLE_CNT_OFFSET = FREE_SPACE_PTR_OFFSET + PGID_T_SIZE + TABLE_PAGE_RESERVED"
definition FIRST_TUPLE_OFFSET :: int where [tp_defs]: "FIRST_TUPLE_OFFSET = TUPLE_CNT_OFFSET + SIZE_T_SIZE"
definition INVALID_FREE_SPACE_PTR :: int where [tp_defs]: "INVALID_FREE_SPACE_PTR = PAGE_SIZE"
definition TUPLE_RECORD_SZ :: int where [tp_defs]: "TUPLE_RECORD_SZ = SIZE_T_SIZE + OFFSET_T_SIZE"
definition LOAD_DATA_SPACE :: int where [tp_defs]:
  "LOAD_DATA_SPACE = PAGE_SIZE - COM_PG_HEADER_SZ - 2 * PGID_T_SIZE - OFFSET_T_SIZE - SIZE_T_SIZE
                     - TABLE_PAGE_RESERVED"
definition DELETE_MASK :: int where [tp_defs]: "DELETE_MASK = 2147483648"

lemma tp_consts:
  "START_OFFSET = 64" "PREV_PGID_OFFSET = 64" "NEXT_PGID_OFFSET = 68" "FREE_SPACE_PTR_OFFSET = 72"
  "TUPLE_CNT_OFFSET = 140" "FIRST_TUPLE_OFFSET = 144" "INVALID_FREE_SPACE_PTR = 4096"
  "TUPLE_RECORD_SZ = 8" "LOAD_DATA_SPACE = 3952" "PAGE_SIZE = 4096" "OFFSET_T_SIZE = 4"
  "SIZE_T_SIZE = 4"
  by (simp_all add: tp_defs config_defs)


section \<open>Fields\<close>

text \<open>The delete mark is the top bit of the 32-bit size; the mask is unsigned, so the flag
  operations go through the unsigned reading of the size.\<close>

definition is_deleted :: "int \<Rightarrow> bool" where
  "is_deleted sz \<longleftrightarrow> take_bit 32 sz AND DELETE_MASK \<noteq> 0"

definition set_deleted_flag :: "int \<Rightarrow> int" where
  "set_deleted_flag sz = wrap32 (take_bit 32 sz OR DELETE_MASK)"

definition unset_deleted_flag :: "int \<Rightarrow> int" where
  "unset_deleted_flag sz = wrap32 (take_bit 32 sz AND (4294967295 - DELETE_MASK))"

definition get_next_page_id :: "page \<Rightarrow> int" where
  "get_next_page_id p = rd32 (pg_data p) NEXT_PGID_OFFSET"

definition get_prev_page_id :: "page \<Rightarrow> int" where
  "get_prev_page_id p = rd32 (pg_data p) PREV_PGID_OFFSET"

definition set_prev_page_id :: "page \<Rightarrow> int \<Rightarrow> page" where
  "set_prev_page_id p pid = p\<lparr>pg_data := wr32 (pg_data p) PREV_PGID_OFFSET pid\<rparr>"

definition set_next_page_id :: "page \<Rightarrow> int \<Rightarrow> page" where
  "set_next_page_id p pid = p\<lparr>pg_data := wr32 (pg_data p) NEXT_PGID_OFFSET pid\<rparr>"

definition get_tp_num_capacity :: "int \<Rightarrow> int" where
  "get_tp_num_capacity tp_sz = LOAD_DATA_SPACE div (tp_sz + OFFSET_T_SIZE + SIZE_T_SIZE)"

definition get_tuple_count :: "mem \<Rightarrow> int" where
  "get_tuple_count m = rd32 m TUPLE_CNT_OFFSET"

definition set_tuple_count :: "mem \<Rightarrow> int \<Rightarrow> mem" where
  "set_tuple_count m n = wr32 m TUPLE_CNT_OFFSET n"

definition record_at :: "int \<Rightarrow> int" where
  "record_at slot = FIRST_TUPLE_OFFSET + slot * TUPLE_RECORD_SZ"

definition rec_ok :: "int \<Rightarrow> bool" where
  "rec_ok slot \<longleftrightarrow> in_page (record_at slot) TUPLE_RECORD_SZ"

definition get_slot_size :: "mem \<Rightarrow> int \<Rightarrow> int" where
  "get_slot_size m slot = rd32 m (record_at slot + OFFSET_T_SIZE)"

definition set_slot_size :: "mem \<Rightarrow> int \<Rightarrow> int \<Rightarrow> mem" where
  "set_slot_size m slot sz = wr32 m (record_at slot + OFFSET_T_SIZE) sz"

definition get_tuple_offset :: "mem \<Rightarrow> int \<Rightarrow> int" where
  "get_tuple_offset m slot = rd32 m (record_at slot)"

definition set_tuple_offset :: "mem \<Rightarrow> int \<Rightarrow> int \<Rightarrow> mem" where
  "set_tuple_offset m slot off = wr32 m (record_at slot) off"

definition get_free_space_pointer :: "mem \<Rightarrow> int" where
  "get_free_space_pointer m = rd32 m FREE_SPACE_PTR_OFFSET"

definition get_free_space :: "mem \<Rightarrow> int" where
  "get_free_space m =
    get_free_space_pointer m - (FIRST_TUPLE_OFFSET + get_tuple_count m * TUPLE_RECORD_SZ)"

definition set_free_space_pointer :: "mem \<Rightarrow> int \<Rightarrow> mem" where
  "set_free_space_pointer m fsp = wr32 m FREE_SPACE_PTR_OFFSET fsp"

definition insert_tuple_record :: "mem \<Rightarrow> int \<Rightarrow> int \<Rightarrow> int \<Rightarrow> mem" where
  "insert_tuple_record m slot off sz =
    wr32 (wr32 m (record_at slot) off) (record_at slot + OFFSET_T_SIZE) sz"

definition update_tuple_record :: "mem \<Rightarrow> int \<Rightarrow> int \<Rightarrow> int \<Rightarrow> mem" where
  "update_tuple_record m pos off sz = wr32 (wr32 m pos off) (pos + OFFSET_T_SIZE) sz"

definition delete_tuple_record :: "mem \<Rightarrow> int \<Rightarrow> mem" where
  "delete_tuple_record m slot =
    (if get_tuple_count m \<le> slot then m else memset m (record_at slot) 0 TUPLE_RECORD_SZ)"


section \<open>Operations\<close>

definition table_page_init :: "page \<Rightarrow> int \<Rightarrow> int \<Rightarrow> page" where
  "table_page_init p prev_pgid next_pgid =
    (let m = memset (pg_data p) START_OFFSET 0 (PAGE_SIZE - COM_PG_HEADER_SZ);
         m = wr32 m PREV_PGID_OFFSET prev_pgid;
         m = wr32 m NEXT_PGID_OFFSET next_pgid;
         m = wr32 m TUPLE_CNT_OFFSET 0;
         m = set_free_space_pointer m INVALID_FREE_SPACE_PTR
     in p\<lparr>pg_data := m\<rparr>)"

text \<open>The loops over the slots: the first slot of a list whose offset satisfies a test.\<close>

fun scan_slots :: "(int \<Rightarrow> bool) \<Rightarrow> mem \<Rightarrow> int list \<Rightarrow> int option result" where
  "scan_slots test m [] = Inr None"
| "scan_slots test m (i # is) =
     (if \<not> rec_ok i then Inl UndefBehaviour
      else if test (get_tuple_offset m i) then Inr (Some i)
      else scan_slots test m is)"

definition get_empty_slot :: "mem \<Rightarrow> (int \<times> mem) result" where
  "get_empty_slot m =
    (let tuple_count = get_tuple_count m
     in bindR (scan_slots (\<lambda>off. off = 0) m [0..tuple_count - 1]) (\<lambda>found.
          case found of
            Some slot \<Rightarrow> Inr (slot, m)
          | None \<Rightarrow>
              if get_free_space m < TUPLE_RECORD_SZ then Inr (- 1, m)
              else Inr (tuple_count, set_tuple_count m (tuple_count + 1))))"

text \<open>\<^verbatim>\<open>Tuple::serialize_to\<close> and \<^verbatim>\<open>Tuple::deserialize_from\<close> between a tuple and a place in the page.\<close>

definition serialize_tuple :: "tuple \<Rightarrow> mem \<Rightarrow> int \<Rightarrow> mem result" where
  "serialize_tuple t m dst =
    (if \<not> tp_allocated t then Inr m
     else if in_page dst (tp_size t) \<and> tp_size t = int (length (tp_data t))
     then Inr (put_bytes m dst (tp_data t)) else Inl UndefBehaviour)"

definition deserialize_tuple :: "tuple \<Rightarrow> mem \<Rightarrow> int \<Rightarrow> tuple result" where
  "deserialize_tuple t m src =
    (if \<not> tp_allocated t then Inl AssertFail
     else if in_page src (tp_size t) then Inr (t\<lparr>tp_data := get_bytes m src (tp_size t)\<rparr>)
     else Inl UndefBehaviour)"

text \<open>The second half of \<^verbatim>\<open>insert_tuple\<close>: the data, the free space pointer and the record are written.\<close>

definition place_tuple :: "page \<Rightarrow> mem \<Rightarrow> int \<Rightarrow> tuple \<Rightarrow> (rid option \<times> page) result" where
  "place_tuple p m slot t =
    (let tuple_sz = tp_size t;
         fsp = get_free_space_pointer m - tuple_sz
     in bindR (serialize_tuple t m fsp) (\<lambda>m.
          let m = set_free_space_pointer m fsp
          in if \<not> rec_ok slot then Inl UndefBehaviour
             else Inr (Some (RID (pg_id p) slot),
                       p\<lparr>pg_data := insert_tuple_record m slot fsp tuple_sz\<rparr>)))"

definition insert_tuple :: "page \<Rightarrow> tuple \<Rightarrow> (rid option \<times> page) result" where
  "insert_tuple p t =
    bindR (get_empty_slot (pg_data p)) (\<lambda>(slot, m).
      if get_free_space m < tp_size t then Inr (None, p\<lparr>pg_data := m\<rparr>)
      else place_tuple p m slot t)"

definition mark_delete :: "page \<Rightarrow> rid \<Rightarrow> (bool \<times> page) result" where
  "mark_delete p r =
    (let slot = rid_slot r; m = pg_data p
     in if \<not> rec_ok slot then Inl UndefBehaviour
        else if get_tuple_count m \<le> slot \<or> get_tuple_offset m slot = 0 \<or> pg_id p \<noteq> rid_page r
        then Inr (False, p)
        else Inr (True, p\<lparr>pg_data := set_slot_size m slot (set_deleted_flag (get_slot_size m slot))\<rparr>))"

definition rollback_delete :: "page \<Rightarrow> rid \<Rightarrow> page result" where
  "rollback_delete p r =
    (let slot = rid_slot r; m = pg_data p
     in if \<not> rec_ok slot then Inl UndefBehaviour
        else if get_tuple_count m \<le> slot \<or> get_tuple_offset m slot = 0 then Inr p
        else Inr (p\<lparr>pg_data := set_slot_size m slot (unset_deleted_flag (get_slot_size m slot))\<rparr>))"

fun shift_offsets :: "mem \<Rightarrow> int \<Rightarrow> int \<Rightarrow> int list \<Rightarrow> mem result" where
  "shift_offsets m del_off del_sz [] = Inr m"
| "shift_offsets m del_off del_sz (i # is) =
     (if \<not> rec_ok i then Inl UndefBehaviour
      else let off = get_tuple_offset m i
           in shift_offsets
                (if off \<noteq> 0 \<and> off < del_off then set_tuple_offset m i (off + del_sz) else m)
                del_off del_sz is)"

definition apply_delete :: "page \<Rightarrow> rid \<Rightarrow> page result" where
  "apply_delete p r =
    (let slot = rid_slot r; m = pg_data p
     in if \<not> rec_ok slot then Inl UndefBehaviour
        else
          let del_off = get_tuple_offset m slot;
              del_sz = get_slot_size m slot
          in if (get_tuple_count m \<le> slot \<or> del_off = 0) \<and> is_deleted del_sz then Inr p
             else
               let fsp = get_free_space_pointer m;
                   del_sz = unset_deleted_flag (get_slot_size m slot);
                   m = delete_tuple_record m slot
               in if \<not> in_page (fsp + del_sz) (del_off - fsp) \<or> \<not> in_page fsp (del_off - fsp)
                  then Inl UndefBehaviour
                  else
                    let m = memcpy m (fsp + del_sz) m fsp (del_off - fsp);
                        m = set_free_space_pointer m (fsp + del_sz)
                    in bindR (shift_offsets m del_off del_sz [0..get_tuple_count m - 1])
                         (\<lambda>m. Inr (p\<lparr>pg_data := m\<rparr>)))"

definition update_tuple :: "page \<Rightarrow> tuple \<Rightarrow> rid \<Rightarrow> (bool \<times> page) result" where
  "update_tuple p t r =
    (let slot = rid_slot r; m = pg_data p
     in if \<not> rec_ok slot then Inl UndefBehaviour
        else if get_tuple_count m \<le> slot \<or> get_tuple_offset m slot = 0 \<or>
                get_slot_size m slot \<noteq> tp_size t \<or> rid_page r \<noteq> pg_id p
        then Inr (False, p)
        else bindR (serialize_tuple t m (get_tuple_offset m slot))
               (\<lambda>m. Inr (True, p\<lparr>pg_data := m\<rparr>)))"

definition get_tuple :: "page \<Rightarrow> tuple \<Rightarrow> rid \<Rightarrow> (bool \<times> tuple) result" where
  "get_tuple p t r =
    (let slot = rid_slot r; m = pg_data p
     in if \<not> rec_ok slot then Inl UndefBehaviour
        else
          let off = get_tuple_offset m slot;
              sz = get_slot_size m slot;
              sz = (if is_deleted sz then unset_deleted_flag sz else sz)
          in if get_tuple_count m \<le> slot \<or> off = 0 then Inr (False, t)
             else bindR (deserialize_tuple
                           \<lparr>tp_allocated = True, tp_rid = r, tp_size = sz, tp_data = []\<rparr> m off)
                    (\<lambda>t. Inr (True, t)))"

definition get_next_tuple_rid :: "page \<Rightarrow> rid \<Rightarrow> rid \<Rightarrow> (bool \<times> rid) result" where
  "get_next_tuple_rid p cur next_rid =
    (let m = pg_data p; tuple_count = get_tuple_count m
     in if rid_page cur = INVALID_PAGE_ID
        then bindR (scan_slots (\<lambda>off. off \<noteq> 0) m [0..tuple_count - 1]) (\<lambda>found.
               case found of
                 Some slot \<Rightarrow> Inr (True, RID (pg_id p) slot)
               | None \<Rightarrow> Inr (False, next_rid))
        else bindR (scan_slots (\<lambda>off. off \<noteq> 0) m [rid_slot cur + 1..tuple_count - 1]) (\<lambda>found.
               case found of
                 Some slot \<Rightarrow> Inr (True, RID (pg_id p) slot)
               | None \<Rightarrow> Inr (False, RID INVALID_PAGE_ID (- 1))))"

definition get_the_first_tuple :: "junk \<Rightarrow> page \<Rightarrow> tuple \<Rightarrow> (bool \<times> tuple) result" where
  "get_the_first_tuple junk p t =
    (let m = pg_data p
     in bindR (scan_slots (\<lambda>off. off \<noteq> 0) m [0..get_tuple_count m - 1]) (\<lambda>found.
          case found of
            Some slot \<Rightarrow>
              bindR (deserialize_tuple (Tuple_sized junk (RID (pg_id p) slot) (get_slot_size m slot)) m
                       (get_tuple_offset m slot))
                (\<lambda>tmp. Inr (True, tmp))
          | None \<Rightarrow> Inr (False, t)))"

fun count_slots :: "mem \<Rightarrow> int list \<Rightarrow> int result" where
  "count_slots m [] = Inr 0"
| "count_slots m (i # is) =
     (if \<not> rec_ok i then Inl UndefBehaviour
      else bindR (count_slots m is)
             (\<lambda>n. Inr ((if get_tuple_offset m i \<noteq> 0 then 1 else 0) + n)))"

definition get_stored_tuple_cnt :: "page \<Rightarrow> int result" where
  "get_stored_tuple_cnt p = count_slots (pg_data p) [0..get_tuple_count (pg_data p) - 1]"



section \<open>The delete flag\<close>

lemma bit31: "in32 sz \<Longrightarrow> bit sz 31 \<longleftrightarrow> sz < 0"
proof -
  assume "in32 sz"
  then have "sz div 2147483648 = (if sz < 0 then - 1 else 0)"
    by (auto simp: in32_def div_eq_minus1 div_pos_pos_trivial zdiv_eq_0_iff)
  then show ?thesis by (auto simp: bit_iff_odd)
qed

lemma is_deleted_iff: "in32 sz \<Longrightarrow> is_deleted sz \<longleftrightarrow> sz < 0"
proof -
  assume a: "in32 sz"
  have mask: "DELETE_MASK = 2 ^ 31" by (simp add: DELETE_MASK_def)
  have "is_deleted sz \<longleftrightarrow> bit (take_bit 32 sz) 31"
    unfolding is_deleted_def mask and_exp_eq_0_iff_not_bit by (rule not_not)
  also have "\<dots> \<longleftrightarrow> bit sz 31" by (simp add: bit_take_bit_iff)
  finally show ?thesis using bit31 [OF a] by simp
qed

lemma unset_deleted_flag_eq: "unset_deleted_flag sz = sz mod 2147483648"
proof -
  have "take_bit 32 sz AND (4294967295 - DELETE_MASK) = take_bit 31 (take_bit 32 sz)"
    by (simp add: DELETE_MASK_def take_bit_eq_mask mask_eq_exp_minus_1)
  also have "\<dots> = take_bit 31 sz" by simp
  also have "\<dots> = sz mod 2147483648" by (simp add: take_bit_eq_mod)
  finally show ?thesis
    by (simp add: unset_deleted_flag_def in32_def)
qed

lemma set_deleted_flag_eq:
  assumes "in32 sz"
  shows "set_deleted_flag sz = (if sz < 0 then sz else sz - 2147483648)"
proof -
  have mask: "DELETE_MASK = 2 ^ 31" by (simp add: DELETE_MASK_def)
  show ?thesis
  proof (cases "sz < 0")
    case True
    then have "take_bit 32 sz OR DELETE_MASK = take_bit 32 sz"
      using bit31 [OF assms] unfolding mask
      by (intro bit_eqI) (unfold bit_or_iff bit_exp_iff bit_take_bit_iff, auto)
    moreover have "wrap32 (take_bit 32 sz) = wrap32 sz"
      by (simp add: wrap32_signed_take_bit signed_take_bit_take_bit)
    ultimately show ?thesis using True assms by (simp add: set_deleted_flag_def)
  next
    case False
    then have "sz OR DELETE_MASK = sz + DELETE_MASK"
      using bit31 [OF assms] unfolding mask
      by (intro disjunctive_add [symmetric]) (unfold bit_exp_iff, auto)
    moreover have "take_bit 32 sz = sz" using False assms
      by (simp add: take_bit_int_eq_self_iff in32_def)
    ultimately show ?thesis using False assms
      by (simp add: set_deleted_flag_def wrap32_def in32_def DELETE_MASK_def)
  qed
qed


section \<open>Pages as lists of slots\<close>

type_synonym slot = "(byte list \<times> bool) option"

definition slot_view :: "mem \<Rightarrow> int \<Rightarrow> slot" where
  "slot_view m i =
    (if get_tuple_offset m i = 0 then None
     else Some (get_bytes m (get_tuple_offset m i) (unset_deleted_flag (get_slot_size m i)),
                is_deleted (get_slot_size m i)))"

definition slots :: "mem \<Rightarrow> slot list" where
  "slots m = map (\<lambda>k. slot_view m (int k)) [0..<nat (get_tuple_count m)]"

definition live_count :: "slot list \<Rightarrow> int" where
  "live_count xs = int (length (filter (\<lambda>x. x \<noteq> None) xs))"

text \<open>
  The state of a page that holds tuples of \<open>s\<close> bytes: an empty slot has a zero record, a full one
  points to \<open>s\<close> bytes behind the free space pointer, different slots point to disjoint bytes, the
  data is packed, and everything that no record and no tuple has reached yet is zero.
\<close>

definition slot_wf :: "int \<Rightarrow> mem \<Rightarrow> int \<Rightarrow> bool" where
  "slot_wf s m i \<longleftrightarrow>
    (get_tuple_offset m i = 0 \<and> get_slot_size m i = 0) \<or>
    (get_free_space_pointer m \<le> get_tuple_offset m i \<and> get_tuple_offset m i + s \<le> PAGE_SIZE \<and>
     unset_deleted_flag (get_slot_size m i) = s)"

definition slots_disjoint :: "int \<Rightarrow> mem \<Rightarrow> int \<Rightarrow> int \<Rightarrow> bool" where
  "slots_disjoint s m i j \<longleftrightarrow>
    get_tuple_offset m i = 0 \<or> get_tuple_offset m j = 0 \<or>
    get_tuple_offset m i + s \<le> get_tuple_offset m j \<or> get_tuple_offset m j + s \<le> get_tuple_offset m i"

definition tp_inv :: "int \<Rightarrow> mem \<Rightarrow> bool" where
  "tp_inv s m \<longleftrightarrow>
    (let n = get_tuple_count m in
     0 < s \<and> s < 2147483648 \<and> 0 \<le> n \<and>
     (0 < n \<longrightarrow> 8 * n + s * (n - 1) \<le> LOAD_DATA_SPACE) \<and>
     get_free_space_pointer m = PAGE_SIZE - s * live_count (slots m) \<and> 0 \<le> get_free_space m \<and>
     (\<forall>i\<in>{0..<n}. slot_wf s m i) \<and>
     (\<forall>i\<in>{0..<n}. \<forall>j\<in>{0..<n}. i \<noteq> j \<longrightarrow> slots_disjoint s m i j) \<and>
     (\<forall>a. 144 + 8 * n \<le> a \<and> a < PAGE_SIZE - s * n \<longrightarrow> m a = 0))"

lemmas tp_field_defs =
  get_tuple_count_def set_tuple_count_def record_at_def get_slot_size_def set_slot_size_def
  get_tuple_offset_def set_tuple_offset_def get_free_space_pointer_def set_free_space_pointer_def
  insert_tuple_record_def tp_consts

lemma tp_invD:
  assumes "tp_inv s m"
  shows "0 < s" "s < 2147483648" "0 \<le> get_tuple_count m"
    "0 < get_tuple_count m \<Longrightarrow> 8 * get_tuple_count m + s * (get_tuple_count m - 1) \<le> 3952"
    "get_free_space_pointer m = 4096 - s * live_count (slots m)"
    "144 + 8 * get_tuple_count m \<le> get_free_space_pointer m"
    "\<And>i. 0 \<le> i \<Longrightarrow> i < get_tuple_count m \<Longrightarrow> slot_wf s m i"
    "\<And>i j. 0 \<le> i \<Longrightarrow> i < get_tuple_count m \<Longrightarrow> 0 \<le> j \<Longrightarrow> j < get_tuple_count m \<Longrightarrow> i \<noteq> j \<Longrightarrow>
       slots_disjoint s m i j"
    "\<And>a. 144 + 8 * get_tuple_count m \<le> a \<Longrightarrow> a < 4096 - s * get_tuple_count m \<Longrightarrow> m a = 0"
  using assms by (auto simp: tp_inv_def Let_def get_free_space_def tp_consts)

lemma tp_invI:
  assumes "0 < s" "s < 2147483648" "0 \<le> get_tuple_count m"
    "0 < get_tuple_count m \<Longrightarrow> 8 * get_tuple_count m + s * (get_tuple_count m - 1) \<le> 3952"
    "get_free_space_pointer m = 4096 - s * live_count (slots m)"
    "144 + 8 * get_tuple_count m \<le> get_free_space_pointer m"
    "\<And>i. 0 \<le> i \<Longrightarrow> i < get_tuple_count m \<Longrightarrow> slot_wf s m i"
    "\<And>i j. 0 \<le> i \<Longrightarrow> i < get_tuple_count m \<Longrightarrow> 0 \<le> j \<Longrightarrow> j < get_tuple_count m \<Longrightarrow> i \<noteq> j \<Longrightarrow>
       slots_disjoint s m i j"
    "\<And>a. 144 + 8 * get_tuple_count m \<le> a \<Longrightarrow> a < 4096 - s * get_tuple_count m \<Longrightarrow> m a = 0"
  shows "tp_inv s m"
  using assms by (auto simp: tp_inv_def Let_def get_free_space_def tp_consts)

lemma length_slots [simp]: "length (slots m) = nat (get_tuple_count m)"
  by (simp add: slots_def)

lemma slots_nth: "0 \<le> i \<Longrightarrow> i < get_tuple_count m \<Longrightarrow> slots m ! nat i = slot_view m i"
  by (simp add: slots_def nat_less_iff)

lemma live_count_bounds: "0 \<le> live_count xs" "live_count xs \<le> int (length xs)"
  by (simp_all add: live_count_def)

lemma live_count_append [simp]: "live_count (xs @ ys) = live_count xs + live_count ys"
  by (simp add: live_count_def)

lemma live_count_simps [simp]:
  "live_count [] = 0"
  "live_count (None # xs) = live_count xs"
  "live_count (Some a # xs) = 1 + live_count xs"
  by (simp_all add: live_count_def)

lemma live_count_Cons: "live_count (x # xs) = (if x = None then 0 else 1) + live_count xs"
  by (cases x) simp_all

lemma live_count_update:
  assumes "k < length xs"
  shows "live_count (xs[k := y]) =
    live_count xs - (if xs ! k = None then 0 else 1) + (if y = None then 0 else 1)"
proof -
  have "live_count xs = live_count (take k xs @ xs ! k # drop (Suc k) xs)"
    using id_take_nth_drop [OF assms] by simp
  then show ?thesis
    using assms by (simp add: upd_conv_take_nth_drop live_count_Cons)
qed

lemma live_count_lt: "None \<in> set xs \<Longrightarrow> live_count xs < int (length xs)"
  unfolding live_count_def by (simp add: length_filter_less)

lemma live_count_full: "None \<notin> set xs \<Longrightarrow> live_count xs = int (length xs)"
proof (induction xs)
  case (Cons a xs)
  then show ?case by (cases a) auto
qed simp


section \<open>Reading and writing slots\<close>

lemma rec_ok_iff: "rec_ok i \<longleftrightarrow> - 18 \<le> i \<and> i \<le> 493"
  by (auto simp: rec_ok_def in_page_def record_at_def tp_consts)

lemma fsp_le: "tp_inv s m \<Longrightarrow> get_free_space_pointer m \<le> 4096"
  using tp_invD(1,5) [of s m] live_count_bounds(1) [of "slots m"] by simp

lemma rec_ok_slot: "tp_inv s m \<Longrightarrow> 0 \<le> i \<Longrightarrow> i < get_tuple_count m \<Longrightarrow> rec_ok i"
  using fsp_le [of s m] tp_invD(6) [of s m] by (simp add: rec_ok_iff)

lemma scan_slots_find:
  "\<forall>i\<in>set is. rec_ok i \<Longrightarrow> scan_slots test m is = Inr (find (\<lambda>i. test (get_tuple_offset m i)) is)"
  by (induction "is") simp_all

lemma scan_slots_inv:
  "tp_inv s m \<Longrightarrow> 0 \<le> k \<Longrightarrow>
   scan_slots test m [k..get_tuple_count m - 1] =
     Inr (find (\<lambda>i. test (get_tuple_offset m i)) [k..get_tuple_count m - 1])"
  by (rule scan_slots_find) (auto intro: rec_ok_slot)

lemma slot_view_cong:
  assumes "\<And>a. record_at i \<le> a \<Longrightarrow> a < record_at i + 8 \<Longrightarrow> m a = m' a"
    and "\<And>a. get_tuple_offset m i \<noteq> 0 \<Longrightarrow> get_tuple_offset m i \<le> a \<Longrightarrow>
           a < get_tuple_offset m i + unset_deleted_flag (get_slot_size m i) \<Longrightarrow> m a = m' a"
  shows "slot_view m i = slot_view m' i"
proof -
  have "get_tuple_offset m i = get_tuple_offset m' i" "get_slot_size m i = get_slot_size m' i"
    using assms(1) by (auto simp: get_tuple_offset_def get_slot_size_def tp_consts intro!: rd32_cong)
  then show ?thesis using assms(2) by (auto simp: slot_view_def intro!: get_bytes_cong)
qed

lemma slot_wf_live:
  assumes "tp_inv s m" "0 \<le> i" "i < get_tuple_count m" "get_tuple_offset m i \<noteq> 0"
  shows "get_free_space_pointer m \<le> get_tuple_offset m i" "get_tuple_offset m i + s \<le> 4096"
    "unset_deleted_flag (get_slot_size m i) = s"
  using tp_invD(7) [OF assms(1-3)] assms(4) by (auto simp: slot_wf_def tp_consts)

lemma slots_update:
  assumes "get_tuple_count m' = get_tuple_count m" "0 \<le> i" "i < get_tuple_count m"
    "slot_view m' i = y"
    "\<And>j. 0 \<le> j \<Longrightarrow> j < get_tuple_count m \<Longrightarrow> j \<noteq> i \<Longrightarrow> slot_view m' j = slot_view m j"
  shows "slots m' = (slots m)[nat i := y]"
  using assms by (auto simp: slots_def nth_list_update intro!: nth_equalityI)

lemma slots_None_iff:
  "None \<in> set (slots m) \<longleftrightarrow> (\<exists>i. 0 \<le> i \<and> i < get_tuple_count m \<and> get_tuple_offset m i = 0)"
proof -
  have "None \<in> set (slots m) \<longleftrightarrow> (\<exists>k < nat (get_tuple_count m). get_tuple_offset m (int k) = 0)"
    by (auto simp: slots_def slot_view_def image_iff split: if_splits)
  also have "\<dots> \<longleftrightarrow> (\<exists>i. 0 \<le> i \<and> i < get_tuple_count m \<and> get_tuple_offset m i = 0)"
    by (metis nat_0_le nat_less_iff of_nat_0_le_iff zless_nat_conj zless_nat_eq_int_zless)
  finally show ?thesis .
qed

lemma insert_at_empty:
  assumes inv: "tp_inv s m" and i: "0 \<le> i" "i < get_tuple_count m" and e: "get_tuple_offset m i = 0"
    and room: "s \<le> get_free_space m" and bs: "int (length bs) = s"
    and fsp: "fsp = get_free_space_pointer m - s"
    and m': "m' = insert_tuple_record (set_free_space_pointer (put_bytes m fsp bs) fsp) i fsp s"
  shows "tp_inv s m'" "slots m' = (slots m)[nat i := Some (bs, False)]"
proof -
  let ?n = "get_tuple_count m"
  note D = tp_invD [OF inv]
  have f: "144 + 8 * ?n \<le> fsp" "fsp + s \<le> 4096"
    using room fsp fsp_le [OF inv] by (simp_all add: get_free_space_def tp_consts)
  have cnt: "get_tuple_count m' = ?n"
    using f i by (simp add: m' tp_field_defs mem_simps)
  have fsp': "get_free_space_pointer m' = fsp"
    using f i D(1) by (simp add: m' tp_field_defs mem_simps in32_def)
  have off_i: "get_tuple_offset m' i = fsp" and sz_i: "get_slot_size m' i = s"
    using f i D(1,2) by (simp_all add: m' tp_field_defs mem_simps in32_def)
  have other: "get_tuple_offset m' j = get_tuple_offset m j" "get_slot_size m' j = get_slot_size m j"
    if "0 \<le> j" "j < ?n" "j \<noteq> i" for j
    using f i that bs by (cases "j < i"; simp add: m' tp_field_defs mem_simps)+
  have bytes: "m' a = m a" if "fsp + s \<le> a" for a
    using f i that bs by (simp add: m' tp_field_defs mem_simps)
  have v_i: "slot_view m' i = Some (bs, False)"
  proof -
    have "unset_deleted_flag s = s" "\<not> is_deleted s"
      using D(1,2) by (simp_all add: unset_deleted_flag_eq is_deleted_iff in32_def)
    moreover have "get_bytes m' fsp s = bs"
      using f i bs by (simp add: m' tp_field_defs mem_simps)
    ultimately show ?thesis using f i D(3) by (simp add: slot_view_def off_i sz_i)
  qed
  have v_j: "slot_view m' j = slot_view m j" if j: "0 \<le> j" "j < ?n" "j \<noteq> i" for j
  proof (cases "get_tuple_offset m j = 0")
    case False
    have "get_bytes m' (get_tuple_offset m j) s = get_bytes m (get_tuple_offset m j) s"
      using slot_wf_live(1) [OF inv j(1,2) False] fsp by (intro get_bytes_cong bytes) simp
    then show ?thesis
      using False slot_wf_live(3) [OF inv j(1,2) False] other [OF j] by (simp add: slot_view_def)
  qed (simp add: slot_view_def other [OF j])
  show sl: "slots m' = (slots m)[nat i := Some (bs, False)]"
    by (rule slots_update [OF cnt i v_i v_j])
  have live: "live_count (slots m') = live_count (slots m) + 1"
    using i slots_nth [OF i] e by (simp add: sl live_count_update nat_less_iff slot_view_def)
  show "tp_inv s m'"
  proof (rule tp_invI)
    show "get_free_space_pointer m' = 4096 - s * live_count (slots m')"
      using D(5) fsp fsp' live by (simp add: algebra_simps)
    show "slot_wf s m' j" if "0 \<le> j" "j < get_tuple_count m'" for j
    proof (cases "j = i")
      case True
      then show ?thesis using f D(1,2)
        by (simp add: slot_wf_def off_i sz_i fsp' unset_deleted_flag_eq tp_consts)
    next
      case False
      then show ?thesis using that D(7) [of j] other [of j] cnt fsp fsp' D(1)
        by (auto simp: slot_wf_def)
    qed
    show "slots_disjoint s m' j k"
      if "0 \<le> j" "j < get_tuple_count m'" "0 \<le> k" "k < get_tuple_count m'" "j \<noteq> k" for j k
    proof -
      have near: "get_tuple_offset m l = 0 \<or> fsp + s \<le> get_tuple_offset m l"
        if "0 \<le> l" "l < ?n" for l
        using D(7) [OF that] fsp by (auto simp: slot_wf_def)
      show ?thesis
        using that cnt D(8) [of j k] other [of j] other [of k] off_i near [of j] near [of k]
        by (cases "j = i"; cases "k = i") (auto simp: slots_disjoint_def)
    qed
    show "m' a = 0" if "144 + 8 * get_tuple_count m' \<le> a" "a < 4096 - s * get_tuple_count m'" for a
    proof -
      have "live_count (slots m) < int (length (slots m))"
        using slots_None_iff [of m] i e by (intro live_count_lt) blast
      then have "live_count (slots m) + 1 \<le> ?n" using i by simp
      then have "s * (live_count (slots m) + 1) \<le> s * ?n" using D(1) by (intro mult_left_mono) simp_all
      then have "4096 - s * ?n \<le> fsp" using fsp D(5) by (simp add: algebra_simps)
      then show ?thesis using that cnt D(9) [of a] f i
        by (simp add: m' tp_field_defs mem_simps)
    qed
  qed (use D cnt fsp' f in simp_all)
qed


section \<open>init, insert_tuple\<close>

lemma table_page_init_inv:
  assumes "0 < s" "s < 2147483648"
  shows "tp_inv s (pg_data (table_page_init p prev nxt))"
    "slots (pg_data (table_page_init p prev nxt)) = []"
    "get_free_space (pg_data (table_page_init p prev nxt)) = LOAD_DATA_SPACE"
proof -
  let ?m = "pg_data (table_page_init p prev nxt)"
  have c: "get_tuple_count ?m = 0" "get_free_space_pointer ?m = 4096"
    by (simp_all add: table_page_init_def Let_def tp_field_defs mem_simps in32_def)
  have z: "?m a = 0" if "144 \<le> a" "a < 4096" for a
    using that by (simp add: table_page_init_def Let_def tp_field_defs mem_simps COM_PG_HEADER_SZ_def)
  show sl: "slots ?m = []" using c by (simp add: slots_def)
  show "tp_inv s ?m" by (rule tp_invI) (use assms c sl z in simp_all)
  show "get_free_space ?m = LOAD_DATA_SPACE" by (simp add: get_free_space_def c tp_consts)
qed

lemma table_page_init_links:
  assumes "in32 prev" "in32 nxt"
  shows "get_prev_page_id (table_page_init p prev nxt) = prev"
    "get_next_page_id (table_page_init p prev nxt) = nxt"
    "pg_id (table_page_init p prev nxt) = pg_id p"
  using assms
  by (simp_all add: get_prev_page_id_def get_next_page_id_def table_page_init_def Let_def
      tp_field_defs mem_simps)

lemma grow_when_full:
  assumes inv: "tp_inv s m" and full: "None \<notin> set (slots m)" and room: "8 \<le> get_free_space m"
    and m': "m' = set_tuple_count m (get_tuple_count m + 1)"
  shows "tp_inv s m'" "slots m' = slots m @ [None]" "get_tuple_count m' = get_tuple_count m + 1"
    "get_free_space m' = get_free_space m - 8" "get_free_space_pointer m' = get_free_space_pointer m"
    "get_tuple_offset m' (get_tuple_count m) = 0"
proof -
  let ?n = "get_tuple_count m"
  note D = tp_invD [OF inv]
  have live: "live_count (slots m) = ?n" using live_count_full [OF full] D(3) by simp
  have f: "152 + 8 * ?n \<le> get_free_space_pointer m" "get_free_space_pointer m = 4096 - s * ?n"
    using room D(5) live by (simp_all add: get_free_space_def tp_consts)
  have "0 \<le> s * ?n" using D(1,3) by simp
  then have n: "?n \<le> 500" using f by linarith
  have out: "m' a = m a" if "144 \<le> a" for a
    using that by (auto simp: m' set_tuple_count_def tp_consts wr32_def)
  show cnt: "get_tuple_count m' = ?n + 1"
    using n D(3) by (simp add: m' tp_field_defs in32_def)
  show fsp': "get_free_space_pointer m' = get_free_space_pointer m"
    by (simp add: m' tp_field_defs mem_simps)
  have sl: "get_tuple_offset m' j = get_tuple_offset m j" "get_slot_size m' j = get_slot_size m j"
    if "0 \<le> j" for j
    using that by (auto simp: tp_field_defs intro!: rd32_cong out)
  show new: "get_tuple_offset m' ?n = 0"
    unfolding sl(1) [OF D(3)] using f D(3,9) by (auto simp: tp_field_defs intro!: rd32_zero)
  have newsz: "get_slot_size m' ?n = 0"
    unfolding sl(2) [OF D(3)] using f D(3,9) by (auto simp: tp_field_defs intro!: rd32_zero)
  have v: "slot_view m' j = slot_view m j" if "0 \<le> j" "j < ?n" for j
    using slot_wf_live(1) [OF inv that] D(3) f that
    by (intro slot_view_cong [symmetric] out [symmetric]) (auto simp: record_at_def tp_consts)
  show slots': "slots m' = slots m @ [None]"
    using D(3) cnt new v by (auto simp: slots_def nat_add_distrib slot_view_def)
  show "get_free_space m' = get_free_space m - 8"
    by (simp add: get_free_space_def cnt fsp' tp_consts)
  show "tp_inv s m'"
  proof (rule tp_invI)
    show "slot_wf s m' i" if "0 \<le> i" "i < get_tuple_count m'" for i
      using D(7) [of i] that cnt sl [of i] new newsz fsp'
      by (cases "i = ?n") (auto simp: slot_wf_def)
    show "slots_disjoint s m' i j"
      if "0 \<le> i" "i < get_tuple_count m'" "0 \<le> j" "j < get_tuple_count m'" "i \<noteq> j" for i j
      using D(8) [of i j] that cnt sl [of i] sl [of j] new
      by (cases "i = ?n"; cases "j = ?n") (auto simp: slots_disjoint_def)
    show "m' a = 0" if "144 + 8 * get_tuple_count m' \<le> a" "a < 4096 - s * get_tuple_count m'" for a
      using that cnt D(1,3) D(9) [of a] out [of a] by (simp add: algebra_simps)
    show "8 * get_tuple_count m' + s * (get_tuple_count m' - 1) \<le> 3952"
      using f cnt by (simp add: algebra_simps)
  qed (use D cnt f fsp' slots' live in simp_all)
qed

text \<open>
  \<open>slot_safe\<close> is what a tuple size has to satisfy for \<^verbatim>\<open>insert_tuple\<close> to be right: when the page is
  full, the bytes left over cannot hold a tuple without a record.  Every size of at least eight
  bytes satisfies it, the sizes 1, 2, 3, 4 and 7 do not.
\<close>

definition slot_safe :: "int \<Rightarrow> bool" where
  "slot_safe s \<longleftrightarrow> 0 < s \<and> s < 2147483648 \<and>
    (LOAD_DATA_SPACE mod (s + TUPLE_RECORD_SZ) < s \<or> TUPLE_RECORD_SZ \<le> LOAD_DATA_SPACE mod (s + TUPLE_RECORD_SZ))"

definition tuple_ok :: "int \<Rightarrow> tuple \<Rightarrow> bool" where
  "tuple_ok s t \<longleftrightarrow> tp_allocated t \<and> tp_size t = s \<and> int (length (tp_data t)) = s"

text \<open>The first empty slot of a list of slots, and what inserting means on the list.\<close>

definition first_empty :: "slot list \<Rightarrow> nat option" where
  "first_empty xs = find (\<lambda>k. xs ! k = None) [0..<length xs]"

lemma find_first_empty:
  assumes "0 \<le> get_tuple_count m"
  shows "find (\<lambda>i. get_tuple_offset m i = 0) [0..get_tuple_count m - 1] = map_option int (first_empty (slots m))"
proof -
  have "find (\<lambda>k. get_tuple_offset m (int k) = 0) [0..<nat (get_tuple_count m)]
      = find (\<lambda>k. slots m ! k = None) [0..<nat (get_tuple_count m)]"
    by (rule find_cong_set) (simp add: slots_def slot_view_def)
  then show ?thesis
    using assms by (simp add: upto_0_map find_map first_empty_def comp_def)
qed

lemma first_empty_Some:
  "first_empty xs = Some k \<Longrightarrow> k < length xs \<and> xs ! k = None"
  by (auto simp: first_empty_def find_Some_iff)

lemma first_empty_None: "first_empty xs = None \<longleftrightarrow> None \<notin> set xs"
  by (auto simp: first_empty_def find_None_iff in_set_conv_nth)

definition slots_insert :: "int \<Rightarrow> byte list \<Rightarrow> slot list \<Rightarrow> (nat option \<times> slot list)" where
  "slots_insert s bs xs =
    (let free = LOAD_DATA_SPACE - TUPLE_RECORD_SZ * int (length xs) - s * live_count xs
     in case first_empty xs of
          Some k \<Rightarrow> if s \<le> free then (Some k, xs[k := Some (bs, False)]) else (None, xs)
        | None \<Rightarrow> if s + TUPLE_RECORD_SZ \<le> free then (Some (length xs), xs @ [Some (bs, False)])
                  else if TUPLE_RECORD_SZ \<le> free then (None, xs @ [None])
                  else (None, xs))"


lemma free_space_eq:
  "tp_inv s m \<Longrightarrow> get_free_space m =
     LOAD_DATA_SPACE - TUPLE_RECORD_SZ * int (length (slots m)) - s * live_count (slots m)"
  using tp_invD(3,5) [of s m] by (simp add: get_free_space_def tp_consts)

lemma full_rest:
  assumes inv: "tp_inv s m" and full: "None \<notin> set (slots m)" and few: "get_free_space m < TUPLE_RECORD_SZ"
  shows "get_free_space m = LOAD_DATA_SPACE mod (s + TUPLE_RECORD_SZ)"
proof -
  note D = tp_invD [OF inv]
  let ?n = "get_tuple_count m" and ?f = "get_free_space m"
  have eq: "LOAD_DATA_SPACE = ?f + ?n * (s + TUPLE_RECORD_SZ)"
    using free_space_eq [OF inv] live_count_full [OF full] D(3) by (simp add: algebra_simps tp_consts)
  have "0 \<le> ?f" using D(6) by (simp add: get_free_space_def tp_consts)
  moreover have "LOAD_DATA_SPACE mod (s + TUPLE_RECORD_SZ) = ?f mod (s + TUPLE_RECORD_SZ)"
    unfolding eq by (rule mod_mult_self1)
  ultimately show ?thesis using few D(1) by (simp add: tp_consts)
qed

lemma slots_insert_iff:
  assumes inv: "tp_inv s m"
  shows "fst (slots_insert s bs (slots m)) \<noteq> None \<longleftrightarrow> live_count (slots m) < get_tp_num_capacity s"
proof -
  note D = tp_invD [OF inv]
  let ?n = "get_tuple_count m" and ?l = "live_count (slots m)"
  have cap: "?l < get_tp_num_capacity s \<longleftrightarrow> (?l + 1) * (s + 8) \<le> 3952"
  proof -
    have "get_tp_num_capacity s = 3952 div (s + 8)"
      by (simp add: get_tp_num_capacity_def tp_consts add.assoc)
    moreover have "?l < 3952 div (s + 8) \<longleftrightarrow> ?l + 1 \<le> 3952 div (s + 8)" by linarith
    ultimately show ?thesis using D(1) le_div_iff_mult [of "s + 8" "?l + 1" 3952] by simp
  qed
  show ?thesis
  proof (cases "first_empty (slots m)")
    case None
    then have l: "?l = ?n" using live_count_full D(3) by (simp add: first_empty_None)
    then show ?thesis
      using None D(1,3) cap by (simp add: slots_insert_def Let_def tp_consts algebra_simps)
  next
    case (Some k)
    have lt: "?l < ?n"
      using live_count_lt [of "slots m"] first_empty_None [of "slots m"] Some D(3) by force
    have "s * ?l + s + 8 * ?n \<le> 3952 \<longleftrightarrow> (?l + 1) * (s + 8) \<le> 3952"
    proof (cases "?l = ?n - 1")
      case True
      then have "?n = ?l + 1" by simp
      then show ?thesis by (simp only:) (simp add: algebra_simps)
    next
      case False
      have n0: "0 < ?n" using lt live_count_bounds(1) [of "slots m"] by simp
      have "s * (?l + 1) \<le> s * (?n - 1)" using False lt D(1) by (intro mult_left_mono) simp_all
      then have a: "s * ?l + s + 8 * ?n \<le> 3952" using D(4) [OF n0] by (simp add: algebra_simps)
      moreover have "8 * (?l + 1) \<le> 8 * ?n" using lt by simp
      ultimately have "(?l + 1) * (s + 8) \<le> 3952" by (simp add: algebra_simps)
      with a show ?thesis by simp
    qed
    then show ?thesis
      using Some cap D(3) by (auto simp add: slots_insert_def Let_def tp_consts algebra_simps)
  qed
qed

lemma place_tuple_spec:
  assumes m: "tp_inv s m" and i: "0 \<le> i" "i < get_tuple_count m" "get_tuple_offset m i = 0"
    and room: "s \<le> get_free_space m" and t: "tuple_ok s t"
  shows "\<exists>m'. place_tuple p m i t = Inr (Some (RID (pg_id p) i), p\<lparr>pg_data := m'\<rparr>) \<and>
    tp_inv s m' \<and> slots m' = (slots m)[nat i := Some (tp_data t, False)] \<and>
    (\<forall>a < FREE_SPACE_PTR_OFFSET. m' a = m a)"
proof -
  let ?f = "get_free_space_pointer m - s" and ?bs = "tp_data t"
  let ?m' = "insert_tuple_record (set_free_space_pointer (put_bytes m ?f ?bs) ?f) i ?f s"
  have sz: "tp_size t = s" "int (length ?bs) = s" "tp_allocated t" using t by (simp_all add: tuple_ok_def)
  have f: "144 + 8 * get_tuple_count m \<le> ?f" "?f + s \<le> 4096"
    using room fsp_le [OF m] by (simp_all add: get_free_space_def tp_consts)
  then have "serialize_tuple t m ?f = Inr (put_bytes m ?f ?bs)"
    using sz i by (simp add: serialize_tuple_def in_page_def tp_consts)
  moreover have "?m' a = m a" if "a < FREE_SPACE_PTR_OFFSET" for a
    using that f i by (simp add: tp_field_defs mem_simps)
  ultimately show ?thesis
    using insert_at_empty [OF m i room sz(2) refl refl] rec_ok_slot [OF m i(1,2)] sz
    by (intro exI [of _ ?m']) (simp add: place_tuple_def Let_def)
qed

lemma get_empty_slot_inv:
  assumes "tp_inv s m"
  shows "get_empty_slot m =
    (case first_empty (slots m) of
       Some k \<Rightarrow> Inr (int k, m)
     | None \<Rightarrow> if get_free_space m < TUPLE_RECORD_SZ then Inr (- 1, m)
               else Inr (get_tuple_count m, set_tuple_count m (get_tuple_count m + 1)))"
  using tp_invD(3) [OF assms] scan_slots_inv [OF assms]
  by (simp add: get_empty_slot_def Let_def find_first_empty split: option.splits)

lemma insert_tuple_spec:
  assumes safe: "slot_safe s \<or> live_count (slots (pg_data p)) < get_tp_num_capacity s"
    and inv: "tp_inv s (pg_data p)" and t: "tuple_ok s t"
  shows "\<exists>m'. insert_tuple p t =
       Inr (map_option (\<lambda>k. RID (pg_id p) (int k)) (fst (slots_insert s (tp_data t) (slots (pg_data p)))),
            p\<lparr>pg_data := m'\<rparr>) \<and>
     tp_inv s m' \<and> slots m' = snd (slots_insert s (tp_data t) (slots (pg_data p))) \<and>
     (\<forall>a < FREE_SPACE_PTR_OFFSET. m' a = pg_data p a)"
proof (cases "first_empty (slots (pg_data p))")
  case (Some k)
  let ?m = "pg_data p"
  have k: "int k < get_tuple_count ?m" "get_tuple_offset ?m (int k) = 0"
    using first_empty_Some [OF Some] by (auto simp: slots_def slot_view_def split: if_splits)
  show ?thesis
  proof (cases "s \<le> get_free_space ?m")
    case True
    then show ?thesis
      using place_tuple_spec [OF inv _ k True t, of p] Some t free_space_eq [OF inv]
      by (simp add: insert_tuple_def get_empty_slot_inv [OF inv] slots_insert_def Let_def tuple_ok_def)
  next
    case False
    then show ?thesis
      using Some free_space_eq [OF inv] inv t
      by (intro exI [of _ ?m])
        (simp add: insert_tuple_def get_empty_slot_inv [OF inv] slots_insert_def Let_def tuple_ok_def)
  qed
next
  case None
  let ?m = "pg_data p" and ?n = "get_tuple_count (pg_data p)"
  note [simp] = insert_tuple_def get_empty_slot_inv [OF inv] slots_insert_def Let_def tuple_ok_def
  have full: "None \<notin> set (slots ?m)" using None by (simp add: first_empty_None)
  show ?thesis
  proof (cases "get_free_space ?m < TUPLE_RECORD_SZ")
    case True
    have "get_free_space ?m < s"
      using safe
    proof
      assume "slot_safe s"
      then show ?thesis using full_rest [OF inv full True] True by (simp add: slot_safe_def)
    next
      assume "live_count (slots ?m) < get_tp_num_capacity s"
      then have "s + TUPLE_RECORD_SZ \<le> get_free_space ?m"
        using slots_insert_iff [OF inv, of "tp_data t"] None free_space_eq [OF inv]
        by (simp add: slots_insert_def Let_def split: if_splits)
      then show ?thesis using True tp_invD(1) [OF inv] by simp
    qed
    then show ?thesis using None free_space_eq [OF inv] inv t True tp_invD(1) [OF inv]
      by (intro exI [of _ ?m]) simp
  next
    case False
    let ?m1 = "set_tuple_count ?m (?n + 1)"
    have room: "8 \<le> get_free_space ?m" using False by (simp add: tp_consts)
    note G = grow_when_full [OF inv full room refl]
    have head: "?m1 a = ?m a" if "a < FREE_SPACE_PTR_OFFSET" for a
      using that by (simp add: tp_field_defs mem_simps)
    show ?thesis
    proof (cases "s \<le> get_free_space ?m1")
      case True
      then show ?thesis
        using place_tuple_spec [OF G(1) tp_invD(3) [OF inv] _ G(6) True t, of p] None t False G(2,3,4) head
          tp_invD(3) [OF inv] free_space_eq [OF inv]
        by (simp add: tp_consts list_update_append)
    next
      case nf: False
      then show ?thesis using None t False G(1,2,4) head free_space_eq [OF inv]
        by (intro exI [of _ ?m1]) (simp add: tp_consts)
    qed
  qed
qed


section \<open>Counting\<close>

lemma count_slots_live:
  assumes "\<forall>k < n. rec_ok (int k)"
  shows "count_slots m (map int [0..<n]) = Inr (live_count (map (\<lambda>k. slot_view m (int k)) [0..<n]))"
proof -
  have "count_slots m is = Inr (live_count (map (slot_view m) is))" if "\<forall>i\<in>set is. rec_ok i" for "is"
    using that by (induction "is") (simp_all add: live_count_Cons slot_view_def)
  from this [of "map int [0..<n]"] show ?thesis using assms by (simp add: comp_def)
qed

lemma get_stored_tuple_cnt_live:
  assumes "tp_inv s (pg_data p)"
  shows "get_stored_tuple_cnt p = Inr (live_count (slots (pg_data p)))"
proof -
  have "\<forall>k < nat (get_tuple_count (pg_data p)). rec_ok (int k)"
    using rec_ok_slot [OF assms] by auto
  from count_slots_live [OF this] show ?thesis
    using tp_invD(3) [OF assms] by (simp add: get_stored_tuple_cnt_def upto_0_map slots_def)
qed


section \<open>Marking, updating\<close>

lemma set_slot_size_spec:
  assumes inv: "tp_inv s m" and i: "0 \<le> i" "i < get_tuple_count m" and live: "get_tuple_offset m i \<noteq> 0"
    and z: "in32 z" "unset_deleted_flag z = s" and m': "m' = set_slot_size m i z"
  shows "tp_inv s m'"
    "slots m' = (slots m)[nat i := Some (get_bytes m (get_tuple_offset m i) s, z < 0)]"
    "\<forall>a < FREE_SPACE_PTR_OFFSET. m' a = m a"
proof -
  let ?n = "get_tuple_count m"
  note D = tp_invD [OF inv] and L = slot_wf_live [OF inv i live]
  have f: "144 + 8 * ?n \<le> get_free_space_pointer m" by (rule D(6))
  have cnt: "get_tuple_count m' = ?n" and fsp: "get_free_space_pointer m' = get_free_space_pointer m"
    and off: "get_tuple_offset m' i = get_tuple_offset m i" and sz: "get_slot_size m' i = z"
    using i z by (simp_all add: m' tp_field_defs mem_simps)
  have other: "get_tuple_offset m' j = get_tuple_offset m j" "get_slot_size m' j = get_slot_size m j"
    if "0 \<le> j" "j < ?n" "j \<noteq> i" for j
    using that i by (cases "j < i"; simp add: m' tp_field_defs mem_simps)+
  have off_all: "get_tuple_offset m' j = get_tuple_offset m j" if "0 \<le> j" "j < ?n" for j
    using that off other by (cases "j = i") simp_all
  have hi: "m' a = m a" if "144 + 8 * ?n \<le> a" for a
    using that i by (simp add: m' tp_field_defs mem_simps)
  show head: "\<forall>a < FREE_SPACE_PTR_OFFSET. m' a = m a"
    using i by (simp add: m' tp_field_defs mem_simps)
  have v_j: "slot_view m' j = slot_view m j" if j: "0 \<le> j" "j < ?n" "j \<noteq> i" for j
    using slot_wf_live [OF inv j(1,2)] f other [OF j]
    by (auto simp: slot_view_def intro!: get_bytes_cong hi)
  have "get_bytes m' (get_tuple_offset m i) s = get_bytes m (get_tuple_offset m i) s"
    using L f by (intro get_bytes_cong hi) simp
  then have v_i: "slot_view m' i = Some (get_bytes m (get_tuple_offset m i) s, z < 0)"
    using live z by (simp add: slot_view_def off sz is_deleted_iff)
  show sl: "slots m' = (slots m)[nat i := Some (get_bytes m (get_tuple_offset m i) s, z < 0)]"
    by (rule slots_update [OF cnt i v_i v_j])
  have lc: "live_count (slots m') = live_count (slots m)"
    using i live slots_nth [OF i] by (simp add: sl live_count_update nat_less_iff slot_view_def)
  show "tp_inv s m'"
  proof (rule tp_invI)
    show "slot_wf s m' j" if "0 \<le> j" "j < get_tuple_count m'" for j
      using that cnt D(7) [of j] other [of j] off sz fsp L z
      by (cases "j = i") (auto simp: slot_wf_def tp_consts)
    show "slots_disjoint s m' j k"
      if "0 \<le> j" "j < get_tuple_count m'" "0 \<le> k" "k < get_tuple_count m'" "j \<noteq> k" for j k
      using that cnt D(8) [of j k] off_all [of j] off_all [of k] by (simp add: slots_disjoint_def)
  qed (use D cnt fsp lc hi in simp_all)
qed

lemma update_bytes_spec:
  assumes inv: "tp_inv s m" and i: "0 \<le> i" "i < get_tuple_count m" and live: "get_tuple_offset m i \<noteq> 0"
    and bs: "int (length bs) = s" and m': "m' = put_bytes m (get_tuple_offset m i) bs"
  shows "tp_inv s m'"
    "slots m' = (slots m)[nat i := Some (bs, is_deleted (get_slot_size m i))]"
    "\<forall>a < FREE_SPACE_PTR_OFFSET. m' a = m a"
proof -
  let ?n = "get_tuple_count m" and ?o = "get_tuple_offset m i"
  note D = tp_invD [OF inv] and L = slot_wf_live [OF inv i live]
  have lo: "m' a = m a" if "a < 144 + 8 * ?n" for a
    using that L D(6) by (simp add: m' put_bytes_other)
  have cnt: "get_tuple_count m' = ?n" and fsp: "get_free_space_pointer m' = get_free_space_pointer m"
    using D(3) by (auto simp: tp_field_defs intro!: rd32_cong lo)
  have rec: "get_tuple_offset m' j = get_tuple_offset m j" "get_slot_size m' j = get_slot_size m j"
    if "0 \<le> j" "j < ?n" for j
    using that by (auto simp: tp_field_defs intro!: rd32_cong lo)
  show head: "\<forall>a < FREE_SPACE_PTR_OFFSET. m' a = m a"
    using D(3) by (auto simp: tp_consts intro!: lo)
  have v_i: "slot_view m' i = Some (bs, is_deleted (get_slot_size m i))"
    unfolding slot_view_def rec [OF i] using live L bs by (simp add: m')
  have v_j: "slot_view m' j = slot_view m j" if j: "0 \<le> j" "j < ?n" "j \<noteq> i" for j
    using slot_wf_live [OF inv j(1,2)] D(8) [OF j(1,2) i j(3)] live bs rec [OF j(1,2)]
    by (auto simp: slot_view_def slots_disjoint_def m' intro!: get_bytes_put_other)
  show sl: "slots m' = (slots m)[nat i := Some (bs, is_deleted (get_slot_size m i))]"
    by (rule slots_update [OF cnt i v_i v_j])
  have lc: "live_count (slots m') = live_count (slots m)"
    using i live slots_nth [OF i] by (simp add: sl live_count_update nat_less_iff slot_view_def)
  show "tp_inv s m'"
  proof (rule tp_invI)
    show "slot_wf s m' j" if "0 \<le> j" "j < get_tuple_count m'" for j
      using that cnt D(7) [of j] rec [of j] fsp by (simp add: slot_wf_def)
    show "slots_disjoint s m' j k"
      if "0 \<le> j" "j < get_tuple_count m'" "0 \<le> k" "k < get_tuple_count m'" "j \<noteq> k" for j k
      using that cnt D(8) [of j k] rec [of j] rec [of k] by (simp add: slots_disjoint_def)
    show "m' a = 0" if "144 + 8 * get_tuple_count m' \<le> a" "a < 4096 - s * get_tuple_count m'" for a
    proof -
      have "s * live_count (slots m) \<le> s * ?n"
        using D(1,3) live_count_bounds(2) [of "slots m"] by (intro mult_left_mono) simp_all
      then have "a < ?o" using that cnt L D(5) by simp
      then show ?thesis using that cnt D(9) by (simp add: m' put_bytes_other)
    qed
  qed (use D cnt fsp lc in simp_all)
qed


section \<open>apply_delete\<close>

lemma record_disjoint: "i \<noteq> j \<Longrightarrow> record_at i + 8 \<le> record_at j \<or> record_at j + 8 \<le> record_at i"
  by (auto simp: record_at_def tp_consts)

lemma shift_offsets_spec:
  assumes "distinct is" "\<forall>i\<in>set is. rec_ok i" "\<forall>i\<in>set is. in32 (get_tuple_offset m i + z)"
  shows "\<exists>m'. shift_offsets m d z is = Inr m' \<and>
    (\<forall>i\<in>set is. get_tuple_offset m' i =
       (if get_tuple_offset m i \<noteq> 0 \<and> get_tuple_offset m i < d then get_tuple_offset m i + z
        else get_tuple_offset m i)) \<and>
    (\<forall>a. (\<forall>i\<in>set is. a < record_at i \<or> record_at i + 4 \<le> a) \<longrightarrow> m' a = m a)"
  using assms
proof (induction "is" arbitrary: m)
  case Nil
  then show ?case by simp
next
  case (Cons i "is")
  define m1 where "m1 = (if get_tuple_offset m i \<noteq> 0 \<and> get_tuple_offset m i < d
      then set_tuple_offset m i (get_tuple_offset m i + z) else m)"
  have out: "m1 a = m a" if "a < record_at i \<or> record_at i + 4 \<le> a" for a
    using that by (auto simp: m1_def set_tuple_offset_def wr32_def)
  have same: "get_tuple_offset m1 j = get_tuple_offset m j" if "j \<noteq> i" for j
    using record_disjoint [OF that] unfolding get_tuple_offset_def by (intro rd32_cong out) linarith
  have at: "get_tuple_offset m1 i = (if get_tuple_offset m i \<noteq> 0 \<and> get_tuple_offset m i < d
      then get_tuple_offset m i + z else get_tuple_offset m i)"
    using Cons.prems(3) by (simp add: m1_def get_tuple_offset_def set_tuple_offset_def)
  have ni: "i \<notin> set is" using Cons.prems(1) by simp
  then have "\<forall>j\<in>set is. in32 (get_tuple_offset m1 j + z)" using Cons.prems(3) same by (metis list.set_intros(2))
  then obtain m' where m': "shift_offsets m1 d z is = Inr m'"
      "\<forall>j\<in>set is. get_tuple_offset m' j =
         (if get_tuple_offset m1 j \<noteq> 0 \<and> get_tuple_offset m1 j < d then get_tuple_offset m1 j + z
          else get_tuple_offset m1 j)"
      "\<forall>a. (\<forall>j\<in>set is. a < record_at j \<or> record_at j + 4 \<le> a) \<longrightarrow> m' a = m1 a"
    using Cons.IH [of m1] Cons.prems by auto
  have "get_tuple_offset m' i = get_tuple_offset m1 i"
    unfolding get_tuple_offset_def
  proof (rule rd32_cong)
    fix a assume a: "record_at i \<le> a" "a < record_at i + 4"
    have "a < record_at j \<or> record_at j + 4 \<le> a" if "j \<in> set is" for j
      using record_disjoint [of i j] ni that a by force
    then show "m' a = m1 a" using m'(3) by blast
  qed
  moreover have "\<forall>j\<in>set is. get_tuple_offset m1 j = get_tuple_offset m j" using ni by (auto intro!: same)
  ultimately show ?case
    using m' at out Cons.prems(2) by (intro exI [of _ m']) (simp add: m1_def [symmetric] Let_def)
qed

text \<open>What the bytes look like when the tuple of slot \<open>i\<close> has been taken out.\<close>

definition taken_out :: "int \<Rightarrow> mem \<Rightarrow> int \<Rightarrow> mem \<Rightarrow> bool" where
  "taken_out s m i m' \<longleftrightarrow>
    (let n = get_tuple_count m; d = get_tuple_offset m i; f = get_free_space_pointer m in
     get_tuple_count m' = n \<and> get_free_space_pointer m' = f + s \<and>
     (\<forall>a < FREE_SPACE_PTR_OFFSET. m' a = m a) \<and>
     (\<forall>j\<in>{0..<n}. get_tuple_offset m' j =
        (if j = i then 0 else if get_tuple_offset m j \<noteq> 0 \<and> get_tuple_offset m j < d
         then get_tuple_offset m j + s else get_tuple_offset m j)) \<and>
     (\<forall>j\<in>{0..<n}. get_slot_size m' j = (if j = i then 0 else get_slot_size m j)) \<and>
     (\<forall>a. 144 + 8 * n \<le> a \<longrightarrow> m' a = (if f + s \<le> a \<and> a < d + s then m (a - s) else m a)))"

lemma delete_slot_bytes:
  assumes inv: "tp_inv s m" and i: "0 \<le> i" "i < get_tuple_count m" and live: "get_tuple_offset m i \<noteq> 0"
    and d: "d = get_tuple_offset m i" and f: "f = get_free_space_pointer m"
    and m1: "m1 = memset m (record_at i) 0 8"
    and m3: "m3 = set_free_space_pointer (memcpy m1 (f + s) m1 f (d - f)) (f + s)"
    and sh: "\<And>j. 0 \<le> j \<Longrightarrow> j < get_tuple_count m \<Longrightarrow> get_tuple_offset m' j =
       (if get_tuple_offset m3 j \<noteq> 0 \<and> get_tuple_offset m3 j < d then get_tuple_offset m3 j + s
        else get_tuple_offset m3 j)"
    and fr: "\<And>a. (\<And>j. 0 \<le> j \<Longrightarrow> j < get_tuple_count m \<Longrightarrow> a < record_at j \<or> record_at j + 4 \<le> a) \<Longrightarrow> m' a = m3 a"
  shows "taken_out s m i m'"
proof -
  let ?n = "get_tuple_count m"
  note D = tp_invD [OF inv] and L = slot_wf_live [OF inv i live]
  have fb: "144 + 8 * ?n \<le> f" "f + s \<le> 4096" using D(6) L f by simp_all
  have low: "m3 a = m1 a" if "a < f" "a < 72 \<or> 76 \<le> a" for a
    using that D(1) by (auto simp: m3 tp_field_defs mem_simps)
  have m1_out: "m1 a = m a" if "a < record_at i \<or> record_at i + 8 \<le> a" for a
    using that by (auto simp: m1 memset_def)
  have keep: "m' a = m3 a" if "a < 144 \<or> 144 + 8 * ?n \<le> a" for a
    using that by (intro fr) (auto simp: record_at_def tp_consts)
  have cnt: "get_tuple_count m' = ?n"
    using i fb unfolding get_tuple_count_def tp_consts
    by (intro rd32_cong) (simp add: keep low m1_out record_at_def tp_consts)
  have fsp: "get_free_space_pointer m' = f + s"
  proof -
    have "get_free_space_pointer m' = get_free_space_pointer m3"
      unfolding get_free_space_pointer_def tp_consts by (intro rd32_cong keep) simp
    then show ?thesis using fb D(1,3) by (simp add: m3 tp_field_defs in32_def)
  qed
  have head: "\<forall>a < FREE_SPACE_PTR_OFFSET. m' a = m a"
    using fb D(3) i by (simp add: keep low m1_out record_at_def tp_consts)
  have off3: "get_tuple_offset m3 j = (if j = i then 0 else get_tuple_offset m j)"
    and sz3: "get_slot_size m' j = (if j = i then 0 else get_slot_size m j)"
    if j: "0 \<le> j" "j < ?n" for j
  proof -
    have b: "144 \<le> record_at j" "record_at j + 8 \<le> f" using j fb by (simp_all add: record_at_def tp_consts)
    have s': "get_slot_size m' j = rd32 m1 (record_at j + 4)"
      unfolding get_slot_size_def tp_consts
    proof (rule rd32_cong)
      fix a assume a: "record_at j + 4 \<le> a" "a < record_at j + 4 + 4"
      have "m' a = m3 a"
      proof (rule fr)
        fix k assume "0 \<le> k" "k < ?n"
        show "a < record_at k \<or> record_at k + 4 \<le> a"
          using a record_disjoint [of j k] by (cases "k = j") auto
      qed
      then show "m' a = m1 a" using low [of a] a b by simp
    qed
    have o': "get_tuple_offset m3 j = rd32 m1 (record_at j)"
      unfolding get_tuple_offset_def using b by (intro rd32_cong low) simp_all
    have z: "rd32 m1 (record_at i) = 0" "rd32 m1 (record_at i + 4) = 0"
      by (simp_all add: m1 rd32_memset_zero)
    have n: "rd32 m1 (record_at j) = rd32 m (record_at j)" "rd32 m1 (record_at j + 4) = rd32 m (record_at j + 4)"
      if "j \<noteq> i" using record_disjoint [OF that] by (auto simp: m1 intro!: rd32_memset_other)
    show "get_tuple_offset m3 j = (if j = i then 0 else get_tuple_offset m j)"
      using o' z n by (simp add: get_tuple_offset_def)
    show "get_slot_size m' j = (if j = i then 0 else get_slot_size m j)"
      using s' z n by (simp add: get_slot_size_def tp_consts)
  qed
  have off': "get_tuple_offset m' j = (if j = i then 0 else if get_tuple_offset m j \<noteq> 0 \<and> get_tuple_offset m j < d
      then get_tuple_offset m j + s else get_tuple_offset m j)" if "0 \<le> j" "j < ?n" for j
    unfolding sh [OF that] off3 [OF that] by simp
  have "m' a = (if f + s \<le> a \<and> a < d + s then m (a - s) else m a)" if r: "144 + 8 * ?n \<le> a" for a
  proof -
    have "m' a = m3 a" using r by (intro keep) simp
    also have "\<dots> = (if f + s \<le> a \<and> a < d + s then m1 (a - s) else m1 a)"
      using r D(3) by (auto simp: m3 tp_field_defs wr32_other memcpy_def)
    finally show ?thesis using r i fb by (auto simp: m1_out record_at_def tp_consts)
  qed
  then show ?thesis
    using cnt fsp head off' sz3 unfolding taken_out_def Let_def d f by simp
qed

lemma shift_keeps_disjoint:
  fixes a b d s :: int
  assumes "0 < s" "a + s \<le> d \<or> d + s \<le> a" "b + s \<le> d \<or> d + s \<le> b" "a + s \<le> b \<or> b + s \<le> a"
  shows "(if a < d then a + s else a) + s \<le> (if b < d then b + s else b) \<or>
    (if b < d then b + s else b) + s \<le> (if a < d then a + s else a)"
  using assms by auto

lemma delete_slot_spec:
  assumes inv: "tp_inv s m" and i: "0 \<le> i" "i < get_tuple_count m" and live: "get_tuple_offset m i \<noteq> 0"
    and t: "taken_out s m i m'"
  shows "tp_inv s m'" "slots m' = (slots m)[nat i := None]"
proof -
  let ?n = "get_tuple_count m"
  define d f where "d = get_tuple_offset m i" and "f = get_free_space_pointer m"
  note D = tp_invD [OF inv] and L = slot_wf_live [OF inv i live]
  have cnt: "get_tuple_count m' = ?n" and fsp: "get_free_space_pointer m' = f + s"
    and off': "\<And>j. 0 \<le> j \<Longrightarrow> j < ?n \<Longrightarrow> get_tuple_offset m' j =
      (if j = i then 0 else if get_tuple_offset m j \<noteq> 0 \<and> get_tuple_offset m j < d
       then get_tuple_offset m j + s else get_tuple_offset m j)"
    and sz3: "\<And>j. 0 \<le> j \<Longrightarrow> j < ?n \<Longrightarrow> get_slot_size m' j = (if j = i then 0 else get_slot_size m j)"
    and data: "\<And>a. 144 + 8 * ?n \<le> a \<Longrightarrow> m' a = (if f + s \<le> a \<and> a < d + s then m (a - s) else m a)"
    using t unfolding taken_out_def Let_def d_def f_def by simp_all
  have fb: "144 + 8 * ?n \<le> f" "f + s \<le> 4096" "f \<le> d" using D(6) L by (simp_all add: f_def d_def)
  have sep: "get_tuple_offset m j + s \<le> d \<or> d + s \<le> get_tuple_offset m j"
    if "0 \<le> j" "j < ?n" "j \<noteq> i" "get_tuple_offset m j \<noteq> 0" for j
    using D(8) [OF that(1,2) i that(3)] that(4) live by (auto simp: slots_disjoint_def d_def)
  have v_j: "slot_view m' j = slot_view m j" if j: "0 \<le> j" "j < ?n" "j \<noteq> i" for j
  proof (cases "get_tuple_offset m j = 0")
    case False
    note Lj = slot_wf_live [OF inv j(1,2) False] and sj = sep [OF j False]
    have "get_bytes m' (get_tuple_offset m' j) s = get_bytes m (get_tuple_offset m j) s"
      using Lj sj j off' [OF j(1,2)] data fb False D(1) f_def
      by (auto simp: get_bytes_def)
    moreover have "get_tuple_offset m' j \<noteq> 0" using Lj off' [OF j(1,2)] j False fb f_def D(1,3) by auto
    ultimately show ?thesis
      using False Lj j sz3 [OF j(1,2)] by (simp add: slot_view_def)
  qed (use off' [OF j(1,2)] j in \<open>simp add: slot_view_def\<close>)
  have v_i: "slot_view m' i = None" using off' [OF i] by (simp add: slot_view_def)
  show sl: "slots m' = (slots m)[nat i := None]"
    by (rule slots_update [OF cnt i v_i v_j])
  have lc: "live_count (slots m') = live_count (slots m) - 1"
    using i live slots_nth [OF i] by (simp add: sl live_count_update nat_less_iff slot_view_def)
  show "tp_inv s m'"
  proof (rule tp_invI)
    show "get_free_space_pointer m' = 4096 - s * live_count (slots m')"
      using fsp f_def D(5) unfolding lc by (simp add: algebra_simps)
    show "slot_wf s m' j" if "0 \<le> j" "j < get_tuple_count m'" for j
    proof (cases "j = i \<or> get_tuple_offset m j = 0")
      case True
      then show ?thesis
        using that cnt off' [of j] sz3 [of j] D(7) [of j] f_def fb D(3) by (auto simp: slot_wf_def)
    next
      case False
      then show ?thesis
        using that cnt off' [of j] sz3 [of j] slot_wf_live [OF inv, of j] sep [of j] fsp f_def L d_def
        by (auto simp: slot_wf_def tp_consts)
    qed
    show "slots_disjoint s m' j k"
      if "0 \<le> j" "j < get_tuple_count m'" "0 \<le> k" "k < get_tuple_count m'" "j \<noteq> k" for j k
    proof (cases "j = i \<or> k = i \<or> get_tuple_offset m j = 0 \<or> get_tuple_offset m k = 0")
      case True
      then show ?thesis using that cnt off' [of j] off' [of k] by (auto simp: slots_disjoint_def)
    next
      case False
      then have "get_tuple_offset m j + s \<le> get_tuple_offset m k \<or>
          get_tuple_offset m k + s \<le> get_tuple_offset m j"
        using that cnt D(8) [of j k] by (simp add: slots_disjoint_def)
      then have "get_tuple_offset m' j + s \<le> get_tuple_offset m' k \<or>
          get_tuple_offset m' k + s \<le> get_tuple_offset m' j"
        using False that cnt off' [of j] off' [of k]
          shift_keeps_disjoint [OF D(1) sep [of j] sep [of k]] by simp
      then show ?thesis by (simp add: slots_disjoint_def)
    qed
    show "m' a = 0" if "144 + 8 * get_tuple_count m' \<le> a" "a < 4096 - s * get_tuple_count m'" for a
    proof -
      have "s * live_count (slots m) \<le> s * ?n"
        using D(1,3) live_count_bounds(2) [of "slots m"] by (intro mult_left_mono) simp_all
      then have "a < f" using that cnt f_def D(5) by simp
      then show ?thesis using that cnt D(1,9) data [of a] by simp
    qed
  qed (use D cnt fsp fb in simp_all)
qed


section \<open>The operations on the list of slots\<close>

definition live_slot :: "mem \<Rightarrow> int \<Rightarrow> bool" where
  "live_slot m i \<longleftrightarrow> 0 \<le> i \<and> i < get_tuple_count m \<and> get_tuple_offset m i \<noteq> 0"

lemma live_slot_iff:
  "live_slot m i \<longleftrightarrow> 0 \<le> i \<and> nat i < length (slots m) \<and> slots m ! nat i \<noteq> None"
  using slots_nth [of i m] by (auto simp: live_slot_def slot_view_def nat_less_iff split: if_splits)

lemma unset_deleted_flag_cases:
  assumes "in32 z"
  shows "unset_deleted_flag z = (if z < 0 then z + 2147483648 else z)"
proof -
  have "z mod 2147483648 = (z + 2147483648) mod 2147483648" by simp
  also have "\<dots> = z + 2147483648" if "z < 0"
    using that assms by (intro mod_pos_pos_trivial) (simp_all add: in32_def)
  finally show ?thesis using assms by (simp add: unset_deleted_flag_eq in32_def)
qed

lemma live_slotE:
  assumes "tp_inv s m" "live_slot m i"
  obtains bs b where "slots m ! nat i = Some (bs, b)" "bs = get_bytes m (get_tuple_offset m i) s"
    "b = is_deleted (get_slot_size m i)" "get_slot_size m i = (if b then s - 2147483648 else s)"
    "int (length bs) = s"
proof -
  have l: "0 \<le> i" "i < get_tuple_count m" "get_tuple_offset m i \<noteq> 0" using assms(2) by (simp_all add: live_slot_def)
  note L = slot_wf_live [OF assms(1) l] and D = tp_invD(1,2) [OF assms(1)]
  have in32: "in32 (get_slot_size m i)" by (simp add: get_slot_size_def)
  have "slots m ! nat i = Some (get_bytes m (get_tuple_offset m i) s, is_deleted (get_slot_size m i))"
    using slots_nth [OF l(1,2)] l(3) L(3) by (simp add: slot_view_def)
  moreover have "get_slot_size m i = (if is_deleted (get_slot_size m i) then s - 2147483648 else s)"
    using L(3) in32 by (auto simp: unset_deleted_flag_cases is_deleted_iff split: if_splits)
  ultimately show ?thesis using that D by (metis length_get_bytes nat_0_le order_less_imp_le)
qed

lemma mark_delete_spec:
  assumes inv: "tp_inv s (pg_data p)" and live: "live_slot (pg_data p) (rid_slot r)" and r: "rid_page r = pg_id p"
  shows "\<exists>m' bs b. mark_delete p r = Inr (True, p\<lparr>pg_data := m'\<rparr>) \<and> tp_inv s m' \<and>
    slots (pg_data p) ! nat (rid_slot r) = Some (bs, b) \<and>
    slots m' = (slots (pg_data p))[nat (rid_slot r) := Some (bs, True)] \<and>
    (\<forall>a < FREE_SPACE_PTR_OFFSET. m' a = pg_data p a)"
proof -
  let ?m = "pg_data p" and ?i = "rid_slot r"
  have l: "0 \<le> ?i" "?i < get_tuple_count ?m" "get_tuple_offset ?m ?i \<noteq> 0" using live by (simp_all add: live_slot_def)
  note D = tp_invD(1,2) [OF inv]
  obtain bs b where v: "slots ?m ! nat ?i = Some (bs, b)" "bs = get_bytes ?m (get_tuple_offset ?m ?i) s"
      "get_slot_size ?m ?i = (if b then s - 2147483648 else s)"
    using live_slotE [OF inv live] by metis
  have "set_deleted_flag (get_slot_size ?m ?i) = s - 2147483648"
    using v(3) D set_deleted_flag_eq [of "get_slot_size ?m ?i"] by (auto simp: in32_def)
  then show ?thesis
    using set_slot_size_spec [OF inv l _ _ refl, of "s - 2147483648"] rec_ok_slot [OF inv l(1,2)] v(1,2) l r D
    by (auto simp: mark_delete_def Let_def in32_def unset_deleted_flag_eq)
qed

lemma rollback_delete_spec:
  assumes inv: "tp_inv s (pg_data p)" and live: "live_slot (pg_data p) (rid_slot r)"
  shows "\<exists>m' bs b. rollback_delete p r = Inr (p\<lparr>pg_data := m'\<rparr>) \<and> tp_inv s m' \<and>
    slots (pg_data p) ! nat (rid_slot r) = Some (bs, b) \<and>
    slots m' = (slots (pg_data p))[nat (rid_slot r) := Some (bs, False)] \<and>
    (\<forall>a < FREE_SPACE_PTR_OFFSET. m' a = pg_data p a)"
proof -
  let ?m = "pg_data p" and ?i = "rid_slot r"
  have l: "0 \<le> ?i" "?i < get_tuple_count ?m" "get_tuple_offset ?m ?i \<noteq> 0" using live by (simp_all add: live_slot_def)
  note D = tp_invD(1,2) [OF inv]
  obtain bs b where v: "slots ?m ! nat ?i = Some (bs, b)" "bs = get_bytes ?m (get_tuple_offset ?m ?i) s"
    using live_slotE [OF inv live] by metis
  have "unset_deleted_flag (get_slot_size ?m ?i) = s" by (rule slot_wf_live(3) [OF inv l])
  then show ?thesis
    using set_slot_size_spec [OF inv l _ _ refl, of s] rec_ok_slot [OF inv l(1,2)] v l D
    by (auto simp: rollback_delete_def Let_def in32_def unset_deleted_flag_eq)
qed

lemma apply_delete_spec:
  assumes inv: "tp_inv s (pg_data p)" and live: "live_slot (pg_data p) (rid_slot r)"
  shows "\<exists>m'. apply_delete p r = Inr (p\<lparr>pg_data := m'\<rparr>) \<and> tp_inv s m' \<and>
    slots m' = (slots (pg_data p))[nat (rid_slot r) := None] \<and>
    (\<forall>a < FREE_SPACE_PTR_OFFSET. m' a = pg_data p a)"
proof -
  let ?m = "pg_data p" and ?i = "rid_slot r"
  let ?n = "get_tuple_count ?m" and ?d = "get_tuple_offset ?m ?i" and ?f = "get_free_space_pointer ?m"
  have l: "0 \<le> ?i" "?i < ?n" "?d \<noteq> 0" using live by (simp_all add: live_slot_def)
  note D = tp_invD [OF inv] and L = slot_wf_live [OF inv l]
  define m1 where "m1 = memset ?m (record_at ?i) 0 8"
  define m3 where "m3 = set_free_space_pointer (memcpy m1 (?f + s) m1 ?f (?d - ?f)) (?f + s)"
  have b: "144 + 8 * ?n \<le> ?f" "?d + s \<le> 4096" using D(6) L by simp_all
  have m1: "m1 a = (if record_at ?i \<le> a \<and> a < record_at ?i + 8 then 0 else ?m a)" for a
    by (simp add: m1_def memset_def)
  have cnt: "get_tuple_count m3 = ?n"
  proof -
    have "get_tuple_count m3 = get_tuple_count m1"
      using b D(1,3) by (simp add: m3_def tp_field_defs mem_simps)
    also have "\<dots> = ?n"
      using l(1) unfolding get_tuple_count_def m1_def record_at_def tp_consts by (intro rd32_memset_other) simp
    finally show ?thesis .
  qed
  have rng: "in32 (get_tuple_offset m3 j + s)" if j: "0 \<le> j" "j < ?n" for j
  proof -
    have "get_tuple_offset m3 j = get_tuple_offset m1 j"
      using b D(1,3) j by (simp add: m3_def tp_field_defs mem_simps)
    moreover have "get_tuple_offset m1 j = (if j = ?i then 0 else get_tuple_offset ?m j)"
      using record_disjoint [of j ?i] by (auto simp: m1_def get_tuple_offset_def rd32_memset_zero rd32_memset_other)
    moreover have "0 \<le> get_tuple_offset ?m j \<and> get_tuple_offset ?m j \<le> 4096"
      using D(7) [OF j] D(1,3,6) by (auto simp: slot_wf_def tp_consts)
    ultimately show ?thesis using D(1,2,3) L(1,2) b by (auto simp: in32_def)
  qed
  obtain m' where m': "shift_offsets m3 ?d s [0..?n - 1] = Inr m'"
      "\<forall>j\<in>set [0..?n - 1]. get_tuple_offset m' j =
         (if get_tuple_offset m3 j \<noteq> 0 \<and> get_tuple_offset m3 j < ?d then get_tuple_offset m3 j + s
          else get_tuple_offset m3 j)"
      "\<forall>a. (\<forall>j\<in>set [0..?n - 1]. a < record_at j \<or> record_at j + 4 \<le> a) \<longrightarrow> m' a = m3 a"
    using shift_offsets_spec [of "[0..?n - 1]" m3 s ?d] rng rec_ok_slot [OF inv] by auto
  have tk: "taken_out s ?m ?i m'"
    by (rule delete_slot_bytes [OF inv l refl refl m1_def m3_def]) (use m' in auto)
  have "apply_delete p r = Inr (p\<lparr>pg_data := m'\<rparr>)"
    using m'(1) l L b D(1,3) rec_ok_slot [OF inv l(1,2)] cnt
    by (simp add: apply_delete_def Let_def delete_tuple_record_def in_page_def tp_consts
        m1_def [symmetric] m3_def [symmetric])
  then show ?thesis
    using delete_slot_spec [OF inv l tk] tk by (auto simp: taken_out_def Let_def)
qed


lemma update_tuple_spec:
  assumes inv: "tp_inv s (pg_data p)" and t: "tuple_ok s t" and r: "rid_page r = pg_id p"
    and i: "0 \<le> rid_slot r" and sl: "slots (pg_data p) ! nat (rid_slot r) = Some (bs, False)"
    and len: "nat (rid_slot r) < length (slots (pg_data p))"
  shows "\<exists>m'. update_tuple p t r = Inr (True, p\<lparr>pg_data := m'\<rparr>) \<and> tp_inv s m' \<and>
    slots m' = (slots (pg_data p))[nat (rid_slot r) := Some (tp_data t, False)] \<and>
    (\<forall>a < FREE_SPACE_PTR_OFFSET. m' a = pg_data p a)"
proof -
  let ?m = "pg_data p" and ?i = "rid_slot r"
  have live: "live_slot ?m ?i" using i sl len by (simp add: live_slot_iff)
  then have l: "?i < get_tuple_count ?m" "get_tuple_offset ?m ?i \<noteq> 0" by (simp_all add: live_slot_def)
  obtain bs' b where v: "slots ?m ! nat ?i = Some (bs', b)" "b = is_deleted (get_slot_size ?m ?i)"
      "get_slot_size ?m ?i = (if b then s - 2147483648 else s)"
    using live_slotE [OF inv live] by metis
  have nb: "\<not> b" using v(1) sl by simp
  have del: "\<not> is_deleted (get_slot_size ?m ?i)" using v(2) nb by blast
  have sz: "get_slot_size ?m ?i = s" using v(3) nb by (simp only: if_False)
  have "serialize_tuple t ?m (get_tuple_offset ?m ?i) = Inr (put_bytes ?m (get_tuple_offset ?m ?i) (tp_data t))"
    using slot_wf_live [OF inv i l] t tp_invD(1,3,6) [OF inv]
    by (simp add: serialize_tuple_def tuple_ok_def in_page_def tp_consts)
  then show ?thesis
    using update_bytes_spec [OF inv i l _ refl, of "tp_data t"] rec_ok_slot [OF inv i l(1)] sz del l t r
    by (intro exI [of _ "put_bytes ?m (get_tuple_offset ?m ?i) (tp_data t)"])
      (simp add: update_tuple_def Let_def tuple_ok_def)
qed

text \<open>On a slot that holds no tuple the guarded operations change nothing.\<close>

lemma dead_slot_ops:
  assumes "rec_ok (rid_slot r)" "\<not> live_slot (pg_data p) (rid_slot r)" "0 \<le> rid_slot r"
  shows "mark_delete p r = Inr (False, p)" "rollback_delete p r = Inr p"
    "update_tuple p t r = Inr (False, p)" "get_tuple p t r = Inr (False, t)"
  using assms
  by (auto simp: mark_delete_def rollback_delete_def update_tuple_def get_tuple_def Let_def live_slot_def)

lemma get_tuple_spec:
  assumes inv: "tp_inv s (pg_data p)" and live: "live_slot (pg_data p) (rid_slot r)"
    and sl: "slots (pg_data p) ! nat (rid_slot r) = Some (bs, b)"
  shows "get_tuple p t r = Inr (True, \<lparr>tp_allocated = True, tp_rid = r, tp_size = s, tp_data = bs\<rparr>)"
proof -
  let ?m = "pg_data p" and ?i = "rid_slot r"
  have l: "0 \<le> ?i" "?i < get_tuple_count ?m" "get_tuple_offset ?m ?i \<noteq> 0" using live by (simp_all add: live_slot_def)
  note L = slot_wf_live [OF inv l] and D = tp_invD [OF inv]
  have bs: "bs = get_bytes ?m (get_tuple_offset ?m ?i) s" "get_slot_size ?m ?i = (if b then s - 2147483648 else s)"
      "b = is_deleted (get_slot_size ?m ?i)"
    using live_slotE [OF inv live] sl by (metis option.inject prod.inject)+
  have "(if is_deleted (get_slot_size ?m ?i) then unset_deleted_flag (get_slot_size ?m ?i) else get_slot_size ?m ?i) = s"
    using bs(2,3) L(3) by (cases b) auto
  then show ?thesis
    using l L(1,2) D(1,3,6) rec_ok_slot [OF inv l(1,2)] bs(1)
    by (simp add: get_tuple_def Let_def deserialize_tuple_def in_page_def tp_consts)
qed

text \<open>The next live slot.\<close>

definition next_live :: "slot list \<Rightarrow> nat \<Rightarrow> nat option" where
  "next_live xs k = find (\<lambda>j. xs ! j \<noteq> None) [k..<length xs]"

lemma find_next_live:
  assumes "tp_inv s m" "0 \<le> k"
  shows "scan_slots (\<lambda>off. off \<noteq> 0) m [k..get_tuple_count m - 1] = Inr (map_option int (next_live (slots m) (nat k)))"
proof -
  have up: "[k..get_tuple_count m - 1] = map int [nat k..<nat (get_tuple_count m)]"
    using assms(2) by (auto simp: list_eq_iff_nth_eq nth_upto)
  have "find (\<lambda>j. get_tuple_offset m (int j) \<noteq> 0) [nat k..<nat (get_tuple_count m)]
      = find (\<lambda>j. slots m ! j \<noteq> None) [nat k..<nat (get_tuple_count m)]"
    by (rule find_cong_set) (simp add: slots_def slot_view_def)
  then show ?thesis
    unfolding scan_slots_inv [OF assms] unfolding up by (simp add: find_map next_live_def comp_def)
qed

lemma next_live_Some:
  "next_live xs k = Some j \<longleftrightarrow> k \<le> j \<and> j < length xs \<and> xs ! j \<noteq> None \<and> (\<forall>i. k \<le> i \<and> i < j \<longrightarrow> xs ! i = None)"
  unfolding next_live_def find_upt_Some not_not by (rule refl)

lemma next_live_None: "next_live xs k = None \<longleftrightarrow> (\<forall>j. k \<le> j \<and> j < length xs \<longrightarrow> xs ! j = None)"
  unfolding next_live_def find_upt_None not_not by (rule refl)

lemma get_next_tuple_rid_spec:
  assumes "tp_inv s (pg_data p)"
  shows "rid_page cur = INVALID_PAGE_ID \<Longrightarrow> get_next_tuple_rid p cur nxt =
      Inr (case next_live (slots (pg_data p)) 0 of
             Some k \<Rightarrow> (True, RID (pg_id p) (int k)) | None \<Rightarrow> (False, nxt))"
    and "rid_page cur \<noteq> INVALID_PAGE_ID \<Longrightarrow> 0 \<le> rid_slot cur \<Longrightarrow> get_next_tuple_rid p cur nxt =
      Inr (case next_live (slots (pg_data p)) (Suc (nat (rid_slot cur))) of
             Some k \<Rightarrow> (True, RID (pg_id p) (int k)) | None \<Rightarrow> (False, RID INVALID_PAGE_ID (- 1)))"
  using find_next_live [OF assms, of 0] find_next_live [OF assms, of "rid_slot cur + 1"]
  by (simp_all add: get_next_tuple_rid_def Let_def nat_add_distrib split: option.splits)


section \<open>Sequences of operations\<close>

datatype tp_op =
    OpInsert tuple
  | OpMark rid
  | OpRollback rid
  | OpApply rid
  | OpUpdate tuple rid

fun tp_exec :: "page \<Rightarrow> tp_op \<Rightarrow> page result" where
  "tp_exec p (OpInsert t) = bindR (insert_tuple p t) (\<lambda>(_, p). Inr p)"
| "tp_exec p (OpMark r) = bindR (mark_delete p r) (\<lambda>(_, p). Inr p)"
| "tp_exec p (OpRollback r) = rollback_delete p r"
| "tp_exec p (OpApply r) = apply_delete p r"
| "tp_exec p (OpUpdate t r) = bindR (update_tuple p t r) (\<lambda>(_, p). Inr p)"

fun tp_run :: "page \<Rightarrow> tp_op list \<Rightarrow> page result" where
  "tp_run p [] = Inr p"
| "tp_run p (op # ops) = bindR (tp_exec p op) (\<lambda>p. tp_run p ops)"

text \<open>The same operations on a list of slots.\<close>

definition set_slot :: "nat \<Rightarrow> (byte list \<times> bool \<Rightarrow> slot) \<Rightarrow> slot list \<Rightarrow> slot list" where
  "set_slot k f xs = (if k < length xs then (case xs ! k of None \<Rightarrow> xs | Some y \<Rightarrow> xs[k := f y]) else xs)"

fun slots_exec :: "int \<Rightarrow> slot list \<Rightarrow> tp_op \<Rightarrow> slot list" where
  "slots_exec s xs (OpInsert t) = snd (slots_insert s (tp_data t) xs)"
| "slots_exec s xs (OpMark r) = set_slot (nat (rid_slot r)) (\<lambda>(bs, _). Some (bs, True)) xs"
| "slots_exec s xs (OpRollback r) = set_slot (nat (rid_slot r)) (\<lambda>(bs, _). Some (bs, False)) xs"
| "slots_exec s xs (OpApply r) = set_slot (nat (rid_slot r)) (\<lambda>_. None) xs"
| "slots_exec s xs (OpUpdate t r) =
     set_slot (nat (rid_slot r)) (\<lambda>(bs, b). Some (if b then bs else tp_data t, b)) xs"

definition slots_run :: "int \<Rightarrow> slot list \<Rightarrow> tp_op list \<Rightarrow> slot list" where
  "slots_run s xs ops = foldl (slots_exec s) xs ops"

text \<open>What the code relies on: tuples of the page's size, slot numbers inside the page, and
  \<^verbatim>\<open>apply_delete\<close> only on a slot that holds a tuple.\<close>

fun op_ok :: "int \<Rightarrow> int \<Rightarrow> slot list \<Rightarrow> tp_op \<Rightarrow> bool" where
  "op_ok s pid xs (OpInsert t) = tuple_ok s t"
| "op_ok s pid xs (OpMark r) = (rid_page r = pid \<and> 0 \<le> rid_slot r \<and> rec_ok (rid_slot r))"
| "op_ok s pid xs (OpRollback r) = (0 \<le> rid_slot r \<and> rec_ok (rid_slot r))"
| "op_ok s pid xs (OpApply r) =
     (0 \<le> rid_slot r \<and> nat (rid_slot r) < length xs \<and> xs ! nat (rid_slot r) \<noteq> None)"
| "op_ok s pid xs (OpUpdate t r) =
     (tuple_ok s t \<and> rid_page r = pid \<and> 0 \<le> rid_slot r \<and> rec_ok (rid_slot r))"

fun ops_ok :: "int \<Rightarrow> int \<Rightarrow> slot list \<Rightarrow> tp_op list \<Rightarrow> bool" where
  "ops_ok s pid xs [] = True"
| "ops_ok s pid xs (op # ops) = (op_ok s pid xs op \<and> ops_ok s pid (slots_exec s xs op) ops)"

definition tp_frame :: "page \<Rightarrow> page \<Rightarrow> bool" where
  "tp_frame p p' \<longleftrightarrow> p' = p\<lparr>pg_data := pg_data p'\<rparr> \<and> (\<forall>a < FREE_SPACE_PTR_OFFSET. pg_data p' a = pg_data p a)"

lemma tp_frame_data [simp]:
  "\<forall>a < FREE_SPACE_PTR_OFFSET. m' a = pg_data p a \<Longrightarrow> tp_frame p (p\<lparr>pg_data := m'\<rparr>)"
  "tp_frame p p"
  by (simp_all add: tp_frame_def)

lemma tp_frame_trans: "tp_frame p q \<Longrightarrow> tp_frame q r \<Longrightarrow> tp_frame p r"
  by (cases p; cases q; cases r) (simp add: tp_frame_def)

lemma tp_frame_links:
  assumes "tp_frame p p'"
  shows "get_next_page_id p' = get_next_page_id p" "get_prev_page_id p' = get_prev_page_id p"
    "pg_id p' = pg_id p" "pg_pin p' = pg_pin p" "pg_dirty p' = pg_dirty p" "pg_latch p' = pg_latch p"
proof -
  have eq: "p' = p\<lparr>pg_data := pg_data p'\<rparr>" and lo: "\<forall>a < 72. pg_data p' a = pg_data p a"
    using assms by (simp_all add: tp_frame_def tp_consts)
  show "get_next_page_id p' = get_next_page_id p" "get_prev_page_id p' = get_prev_page_id p"
    using lo by (auto simp: get_next_page_id_def get_prev_page_id_def tp_consts intro!: rd32_cong)
  show "pg_id p' = pg_id p" "pg_pin p' = pg_pin p" "pg_dirty p' = pg_dirty p" "pg_latch p' = pg_latch p"
    using arg_cong [OF eq, of pg_id] arg_cong [OF eq, of pg_pin] arg_cong [OF eq, of pg_dirty]
      arg_cong [OF eq, of pg_latch] by simp_all
qed

lemma set_slot_dead:
  "\<not> live_slot m i \<Longrightarrow> 0 \<le> i \<Longrightarrow> set_slot (nat i) f (slots m) = slots m"
  by (auto simp: live_slot_iff set_slot_def split: option.splits)

lemma set_slot_live:
  "live_slot m i \<Longrightarrow> slots m ! nat i = Some y \<Longrightarrow> set_slot (nat i) f (slots m) = (slots m)[nat i := f y]"
  by (auto simp: live_slot_iff set_slot_def)

lemma update_tuple_marked:
  assumes "tp_inv s (pg_data p)" "live_slot (pg_data p) (rid_slot r)" "tuple_ok s t"
    "slots (pg_data p) ! nat (rid_slot r) = Some (bs, True)"
  shows "update_tuple p t r = Inr (False, p)"
proof -
  have "get_slot_size (pg_data p) (rid_slot r) = s - 2147483648"
    using live_slotE [OF assms(1,2)] assms(4) by (metis option.inject prod.inject)
  then show ?thesis
    using assms rec_ok_slot [OF assms(1)] by (auto simp: update_tuple_def Let_def live_slot_def tuple_ok_def)
qed

lemma tp_exec_refines:
  assumes "slot_safe s" and inv: "tp_inv s (pg_data p)" and ok: "op_ok s (pg_id p) (slots (pg_data p)) op"
  shows "\<exists>p'. tp_exec p op = Inr p' \<and> tp_frame p p' \<and> tp_inv s (pg_data p') \<and>
    slots (pg_data p') = slots_exec s (slots (pg_data p)) op"
proof (cases op)
  case (OpInsert t)
  then show ?thesis using insert_tuple_spec [of s p t] assms by fastforce
next
  case (OpMark r)
  show ?thesis
  proof (cases "live_slot (pg_data p) (rid_slot r)")
    case True
    then show ?thesis
      using mark_delete_spec [OF inv True] ok OpMark set_slot_live [OF True] by fastforce
  qed (use OpMark ok inv dead_slot_ops [of r p] set_slot_dead in auto)
next
  case (OpRollback r)
  show ?thesis
  proof (cases "live_slot (pg_data p) (rid_slot r)")
    case True
    then show ?thesis
      using rollback_delete_spec [OF inv True] ok OpRollback set_slot_live [OF True] by fastforce
  qed (use OpRollback ok inv dead_slot_ops [of r p] set_slot_dead in auto)
next
  case (OpApply r)
  then have "live_slot (pg_data p) (rid_slot r)" using ok by (simp add: live_slot_iff)
  then show ?thesis
    using apply_delete_spec [OF inv, of r] OpApply ok by (auto simp: set_slot_def)
next
  case (OpUpdate t r)
  show ?thesis
  proof (cases "live_slot (pg_data p) (rid_slot r)")
    case True
    then obtain bs b where v: "slots (pg_data p) ! nat (rid_slot r) = Some (bs, b)"
      by (auto simp: live_slot_iff)
    show ?thesis
    proof (cases b)
      case True
      then have "(slots (pg_data p))[nat (rid_slot r) := Some (bs, True)] = slots (pg_data p)"
        using v by (metis list_update_id)
      with True show ?thesis
        using update_tuple_marked [OF inv \<open>live_slot _ _\<close>] v ok OpUpdate inv set_slot_live [OF \<open>live_slot _ _\<close> v]
        by auto
    next
      case False
      then show ?thesis
        using update_tuple_spec [OF inv, of t r bs] v ok OpUpdate \<open>live_slot _ _\<close> set_slot_live [OF \<open>live_slot _ _\<close> v]
        by (fastforce simp: live_slot_iff)
    qed
  qed (use OpUpdate ok inv dead_slot_ops [of r p] set_slot_dead in auto)
qed

lemma tp_run_refines:
  assumes "slot_safe s" "tp_inv s (pg_data p)" "ops_ok s (pg_id p) (slots (pg_data p)) ops"
  shows "\<exists>p'. tp_run p ops = Inr p' \<and> tp_frame p p' \<and> tp_inv s (pg_data p') \<and>
    slots (pg_data p') = slots_run s (slots (pg_data p)) ops"
  using assms(2,3)
proof (induction ops arbitrary: p)
  case Nil
  then show ?case by (simp add: slots_run_def)
next
  case (Cons op ops)
  then obtain q where q: "tp_exec p op = Inr q" "tp_frame p q" "tp_inv s (pg_data q)"
      "slots (pg_data q) = slots_exec s (slots (pg_data p)) op"
    using tp_exec_refines [OF assms(1) Cons.prems(1), of op] by auto
  then have "ops_ok s (pg_id q) (slots (pg_data q)) ops"
    using Cons.prems(2) tp_frame_links(3) [OF q(2)] by simp
  from Cons.IH [OF q(3) this] show ?case
    using q tp_frame_trans [OF q(2)] by (auto simp: slots_run_def)
qed


section \<open>Properties\<close>






lemma slots_insert_fill:
  assumes "0 < s" "int (Suc k) \<le> get_tp_num_capacity s"
  shows "snd (slots_insert s bs (replicate k (Some (bs, False)))) = replicate (Suc k) (Some (bs, False))"
proof -
  have "(int k + 1) * (s + 8) \<le> 3952"
    using assms le_div_iff_mult [of "s + 8" "int k + 1" 3952]
    by (simp add: get_tp_num_capacity_def tp_consts add.assoc)
  then have "s + 8 \<le> 3952 - 8 * int k - s * int k" by (simp add: algebra_simps)
  moreover have "first_empty (replicate k (Some (bs, False))) = None"
    by (simp add: first_empty_None)
  moreover have "live_count (replicate k (Some (bs, False))) = int k"
    by (subst live_count_full) simp_all
  ultimately show ?thesis
    by (simp add: slots_insert_def Let_def tp_consts replicate_append_same)
qed

lemma fill_page:
  assumes "0 < s" "s < 2147483648" "tuple_ok s t" "int k \<le> get_tp_num_capacity s"
  shows "\<exists>p'. tp_run (table_page_init p prev nxt) (replicate k (OpInsert t)) = Inr p' \<and> pg_id p' = pg_id p \<and>
    tp_inv s (pg_data p') \<and> slots (pg_data p') = replicate k (Some (tp_data t, False))"
proof -
  have run: "\<exists>p'. tp_run q (replicate j (OpInsert t)) = Inr p' \<and> pg_id p' = pg_id q \<and>
      tp_inv s (pg_data p') \<and> slots (pg_data p') = replicate (i + j) (Some (tp_data t, False))"
    if "tp_inv s (pg_data q)" "slots (pg_data q) = replicate i (Some (tp_data t, False))" "i + j = k" for q i j
    using that
  proof (induction j arbitrary: q i)
    case (Suc j)
    have l: "live_count (slots (pg_data q)) = int i"
      using Suc.prems(2) by (subst live_count_full) simp_all
    have "snd (slots_insert s (tp_data t) (slots (pg_data q))) = replicate (Suc i) (Some (tp_data t, False))"
      using slots_insert_fill [OF assms(1), of i] Suc.prems assms(4) by simp
    moreover obtain m' where "tp_exec q (OpInsert t) = Inr (q\<lparr>pg_data := m'\<rparr>)" "tp_inv s m'"
        "slots m' = snd (slots_insert s (tp_data t) (slots (pg_data q)))"
      using insert_tuple_spec [of s q t] Suc.prems l assms by auto
    ultimately show ?case
      using Suc.IH [of "q\<lparr>pg_data := m'\<rparr>" "Suc i"] Suc.prems(3) by auto
  qed simp
  show ?thesis
    using run [of "table_page_init p prev nxt" 0 k] table_page_init_inv [OF assms(1,2), of p prev nxt]
    by (simp add: table_page_init_def Let_def)
qed

text \<open>
  C4. The tuple sizes that are not safe (1, 2, 3, 4 and 7 bytes, so a table with a single integer
  column).  The page takes as many tuples as its capacity says; the next insertion finds no slot
  (\<^verbatim>\<open>get_empty_slot\<close> returns -1) but enough free bytes, reports success with slot number -1, and its
  record overwrites the tuple count with the tuple size: of the stored tuples only the first \<open>s\<close> remain.
\<close>

theorem tiny_tuples_corrupt_page:
  assumes "0 < s" and "s < 2147483648" and "\<not> slot_safe s" and "tuple_ok s t"
  shows "\<exists>p1 p2. tp_run (table_page_init p prev nxt) (replicate (nat (get_tp_num_capacity s)) (OpInsert t)) = Inr p1 \<and>
    get_stored_tuple_cnt p1 = Inr (get_tp_num_capacity s) \<and>
    insert_tuple p1 t = Inr (Some (RID (pg_id p) (- 1)), p2) \<and>
    get_tuple_count (pg_data p2) = s \<and> s < 8 \<and> 200 < get_tp_num_capacity s"
proof -
  let ?c = "get_tp_num_capacity s"
  have r: "s \<le> 3952 mod (s + 8)" "3952 mod (s + 8) < 8" "s < 8"
    using assms(1-3) by (auto simp: slot_safe_def tp_consts)
  have c: "?c = 3952 div (s + 8)" by (simp add: get_tp_num_capacity_def tp_consts add.assoc)
  have big: "200 < ?c" using r(3) assms(1) zdiv_mono2 [of 3952 "s + 8" 16] by (simp add: c)
  obtain p1 where p1: "tp_run (table_page_init p prev nxt) (replicate (nat ?c) (OpInsert t)) = Inr p1"
      "pg_id p1 = pg_id p" "tp_inv s (pg_data p1)"
      "slots (pg_data p1) = replicate (nat ?c) (Some (tp_data t, False))"
    using fill_page [OF assms(1,2,4), of "nat ?c" p prev nxt] big by auto
  let ?m = "pg_data p1"
  note D = tp_invD [OF p1(3)]
  have full: "None \<notin> set (slots ?m)" by (simp add: p1(4))
  have n: "get_tuple_count ?m = ?c" using arg_cong [OF p1(4), of length] D(3) big by simp
  have live: "live_count (slots ?m) = ?c" using live_count_full [OF full] n D(3) by simp
  have "get_free_space ?m = 3952 - ?c * (s + 8)"
    using free_space_eq [OF p1(3)] n live D(3) by (simp add: tp_consts algebra_simps)
  then have free: "get_free_space ?m = 3952 mod (s + 8)" by (simp add: c minus_div_mult_eq_mod)
  have ges: "get_empty_slot ?m = Inr (- 1, ?m)"
    using full first_empty_None [of "slots ?m"] r free
    by (simp add: get_empty_slot_inv [OF p1(3)] tp_consts)
  let ?f = "get_free_space_pointer ?m - s"
  have f: "144 \<le> ?f" "?f + s \<le> 4096"
    using free r(1) fsp_le [OF p1(3)] n big by (simp_all add: get_free_space_def tp_consts)
  have ser: "serialize_tuple t ?m ?f = Inr (put_bytes ?m ?f (tp_data t))"
    using assms(1,4) f by (simp add: serialize_tuple_def tuple_ok_def in_page_def tp_consts)
  have "insert_tuple p1 t = Inr (Some (RID (pg_id p) (- 1)),
      p1\<lparr>pg_data := insert_tuple_record (set_free_space_pointer (put_bytes ?m ?f (tp_data t)) ?f) (- 1) ?f s\<rparr>)"
    using ges ser r free assms(4) p1(2)
    by (simp add: insert_tuple_def place_tuple_def Let_def tuple_ok_def rec_ok_iff)
  moreover have "get_tuple_count (insert_tuple_record (set_free_space_pointer (put_bytes ?m ?f (tp_data t)) ?f) (- 1) ?f s) = s"
    using assms(1,2) by (simp add: tp_field_defs in32_def)
  ultimately show ?thesis
    using p1 live get_stored_tuple_cnt_live [OF p1(3)] r(3) big by simp
qed

theorem tiny_tuples_corrupt_page_witness:
  "\<exists>p1 p2. tp_run (table_page_init (Page_of 0 3 None) (- 1) 7)
      (replicate 329 (OpInsert \<lparr>tp_allocated = True, tp_rid = invalid_rid, tp_size = 4, tp_data = [1, 2, 3, 4]\<rparr>)) = Inr p1 \<and>
    get_stored_tuple_cnt p1 = Inr 329 \<and>
    insert_tuple p1 \<lparr>tp_allocated = True, tp_rid = invalid_rid, tp_size = 4, tp_data = [1, 2, 3, 4]\<rparr>
      = Inr (Some (RID 3 (- 1)), p2) \<and> get_tuple_count (pg_data p2) = 4"
  using tiny_tuples_corrupt_page [of 4 "\<lparr>tp_allocated = True, tp_rid = invalid_rid, tp_size = 4, tp_data = [1, 2, 3, 4]\<rparr>"
      "Page_of 0 3 None" "- 1" 7]
  by (simp add: slot_safe_def tp_consts tuple_ok_def get_tp_num_capacity_def Page_of_def)


text \<open>A page to try the operations on.\<close>

lemma fresh_page:
  "tp_inv 8 (pg_data (table_page_init (Page_of 0 3 None) (- 1) 7))"
  "slots (pg_data (table_page_init (Page_of 0 3 None) (- 1) 7)) = []"
  "pg_id (table_page_init (Page_of 0 3 None) (- 1) 7) = 3"
  using table_page_init_inv [of 8 "Page_of 0 3 None" "- 1" 7]
  by (simp_all add: table_page_init_links in32_def) (simp add: Page_of_def)

lemma fresh_page_run:
  assumes "slots_run 8 [] ops = xs" "ops_ok 8 3 [] ops"
  shows "\<exists>p'. tp_run (table_page_init (Page_of 0 3 None) (- 1) 7) ops = Inr p' \<and> tp_inv 8 (pg_data p') \<and>
    slots (pg_data p') = xs"
  using tp_run_refines [of 8, OF _ fresh_page(1), of ops] assms unfolding fresh_page
  by (auto simp: slot_safe_def tp_consts)

text \<open>Reading a page with \<^verbatim>\<open>get_next_tuple_rid\<close>, as the table iterators do.\<close>

fun tp_scan :: "nat \<Rightarrow> page \<Rightarrow> rid \<Rightarrow> rid list result" where
  "tp_scan 0 p cur = Inl OutOfFuel"
| "tp_scan (Suc n) p cur =
     bindR (get_next_tuple_rid p cur invalid_rid) (\<lambda>(ok, r).
       if ok then bindR (tp_scan n p r) (\<lambda>rs. Inr (r # rs)) else Inr [])"

definition live_rids :: "page \<Rightarrow> nat \<Rightarrow> rid list" where
  "live_rids p k = map (\<lambda>j. RID (pg_id p) (int j))
     (filter (\<lambda>j. slots (pg_data p) ! j \<noteq> None) [k..<length (slots (pg_data p))])"

lemma filter_upt_find:
  "filter P [k..<n] = (case find P [k..<n] of None \<Rightarrow> [] | Some j \<Rightarrow> j # filter P [Suc j..<n])"
proof (induction "n - k" arbitrary: k)
  case (Suc d)
  then have "[k..<n] = k # [Suc k..<n]" by (simp add: upt_conv_Cons)
  then show ?case using Suc(1) [of "Suc k"] Suc(2) by (cases "P k") simp_all
qed simp

lemma live_rids_next:
  "live_rids p k = (case next_live (slots (pg_data p)) k of
     None \<Rightarrow> [] | Some j \<Rightarrow> RID (pg_id p) (int j) # live_rids p (Suc j))"
  unfolding live_rids_def next_live_def
  by (subst filter_upt_find) (simp split: option.split)

lemma tp_scan_from:
  assumes inv: "tp_inv s (pg_data p)" and pid: "pg_id p \<noteq> INVALID_PAGE_ID"
  shows "length (slots (pg_data p)) < n + Suc k \<Longrightarrow> 0 < n \<Longrightarrow>
    tp_scan n p (RID (pg_id p) (int k)) = Inr (live_rids p (Suc k))"
proof (induction n arbitrary: k)
  case (Suc n)
  note N = get_next_tuple_rid_spec(2) [OF inv, of "RID (pg_id p) (int k)"]
  show ?case
  proof (cases "next_live (slots (pg_data p)) (Suc k)")
    case None
    then show ?thesis using N pid by (simp add: RID_def live_rids_next [of p "Suc k"])
  next
    case (Some j)
    then have "Suc k \<le> j" "j < length (slots (pg_data p))" by (simp_all add: next_live_Some)
    then have "tp_scan n p (RID (pg_id p) (int j)) = Inr (live_rids p (Suc j))"
      using Suc.prems by (intro Suc.IH) simp_all
    then show ?thesis using N pid Some by (simp add: RID_def live_rids_next [of p "Suc k"])
  qed
qed simp

text \<open>
  C5. Starting from an invalid id and following \<^verbatim>\<open>get_next_tuple_rid\<close> visits every slot that holds a
  tuple exactly once and in ascending order, and stops.
\<close>

theorem tp_scan_complete:
  assumes "tp_inv s (pg_data p)" and "pg_id p \<noteq> INVALID_PAGE_ID"
  shows "tp_scan (Suc (Suc (length (slots (pg_data p))))) p invalid_rid =
    Inr (map (\<lambda>j. RID (pg_id p) (int j))
          (filter (\<lambda>j. live_slot (pg_data p) (int j)) [0..<length (slots (pg_data p))]))"
proof -
  have "filter (\<lambda>j. live_slot (pg_data p) (int j)) [0..<length (slots (pg_data p))] =
      filter (\<lambda>j. slots (pg_data p) ! j \<noteq> None) [0..<length (slots (pg_data p))]"
    by (rule filter_cong) (simp_all add: live_slot_iff)
  moreover have "tp_scan (Suc (Suc (length (slots (pg_data p))))) p invalid_rid = Inr (live_rids p 0)"
  proof -
    have "get_next_tuple_rid p invalid_rid invalid_rid = Inr (case next_live (slots (pg_data p)) 0 of
        Some k \<Rightarrow> (True, RID (pg_id p) (int k)) | None \<Rightarrow> (False, invalid_rid))"
      by (rule get_next_tuple_rid_spec(1) [OF assms(1)]) (simp add: invalid_rid_def RID_def)
    then show ?thesis
      using tp_scan_from [OF assms, of "Suc (length (slots (pg_data p)))"]
      by (subst tp_scan.simps, subst live_rids_next)
        (simp del: tp_scan.simps length_slots split: option.split)
  qed
  ultimately show ?thesis by (simp add: live_rids_def del: tp_scan.simps)
qed

theorem tp_scan_complete_witness:
  "tp_scan 2 (table_page_init (Page_of 0 3 None) (- 1) 7) invalid_rid = Inr []"
  using tp_scan_complete [OF fresh_page(1)] fresh_page(2,3)
  by (simp add: config_defs numeral_2_eq_2 del: tp_scan.simps length_slots)

text \<open>
  C6. \<^verbatim>\<open>apply_delete\<close> on a slot that is already empty: the guard returns early only when the size is
  also marked, which it never is for an empty slot, so the code goes on and calls \<^verbatim>\<open>memmove\<close> with a
  negative length.
\<close>

theorem apply_delete_empty_slot:
  assumes "tp_inv s (pg_data p)" and "0 \<le> rid_slot r" and "rid_slot r < get_tuple_count (pg_data p)"
    and "\<not> live_slot (pg_data p) (rid_slot r)"
  shows "apply_delete p r = Inl UndefBehaviour"
proof -
  note D = tp_invD [OF assms(1)]
  have e: "get_tuple_offset (pg_data p) (rid_slot r) = 0" using assms by (simp add: live_slot_def)
  have "get_slot_size (pg_data p) (rid_slot r) = 0"
    using D(7) [OF assms(2,3)] D(3,6) e by (simp add: slot_wf_def)
  then show ?thesis
    using e rec_ok_slot [OF assms(1-3)] D(3,6)
    by (simp add: apply_delete_def Let_def is_deleted_def in_page_def)
qed

theorem apply_delete_empty_slot_witness:
  "\<exists>p'. tp_run (table_page_init (Page_of 0 3 None) (- 1) 7)
      [OpInsert \<lparr>tp_allocated = True, tp_rid = invalid_rid, tp_size = 8, tp_data = [1, 2, 3, 4, 5, 6, 7, 8]\<rparr>,
       OpApply (RID 3 0)] = Inr p' \<and> apply_delete p' (RID 3 0) = Inl UndefBehaviour"
proof -
  let ?p = "table_page_init (Page_of 0 3 None) (- 1) 7"
  let ?ops = "[OpInsert \<lparr>tp_allocated = True, tp_rid = invalid_rid, tp_size = 8, tp_data = [1, 2, 3, 4, 5, 6, 7, 8]\<rparr>,
       OpApply (RID 3 0)]"
  have "slots_run 8 [] ?ops = [None]" "ops_ok 8 3 [] ?ops"
    by (simp_all add: slots_run_def slots_insert_def Let_def first_empty_def tp_consts set_slot_def RID_def tuple_ok_def)
  then obtain p' where p': "tp_run ?p ?ops = Inr p'" "tp_inv 8 (pg_data p')" "slots (pg_data p') = [None]"
    using fresh_page_run by blast
  moreover have "get_tuple_count (pg_data p') = 1"
    using arg_cong [OF p'(3), of length] tp_invD(3) [OF p'(2)] by simp
  ultimately show ?thesis
    using apply_delete_empty_slot [OF p'(2), of "RID 3 0"] by (auto simp: live_slot_iff RID_def)
qed

text \<open>
  C7. \<^verbatim>\<open>get_the_first_tuple\<close> does not remove the delete mark from the size it reads: when the first
  tuple of the page is marked, the temporary tuple is built with a negative size, is not allocated,
  and the assertion in \<^verbatim>\<open>Tuple::deserialize_from\<close> stops the program.  \<^verbatim>\<open>get_tuple\<close> reads the same tuple.
\<close>

theorem first_tuple_marked:
  assumes "tp_inv s (pg_data p)" and "next_live (slots (pg_data p)) 0 = Some k"
    and "slots (pg_data p) ! k = Some (bs, True)"
  shows "get_the_first_tuple junk p t = Inl AssertFail \<and>
    get_tuple p t (RID (pg_id p) (int k)) =
      Inr (True, \<lparr>tp_allocated = True, tp_rid = RID (pg_id p) (int k), tp_size = s, tp_data = bs\<rparr>)"
proof -
  have live: "live_slot (pg_data p) (int k)" using assms(2) by (simp add: next_live_Some live_slot_iff)
  have "get_slot_size (pg_data p) (int k) = s - 2147483648"
    using live_slotE [OF assms(1) live] assms(3) by (metis nat_int option.inject prod.inject)
  then have "get_slot_size (pg_data p) (int k) < 0" using tp_invD(2) [OF assms(1)] by simp
  then show ?thesis
    using find_next_live [OF assms(1), of 0] assms live get_tuple_spec [OF assms(1), of "RID (pg_id p) (int k)" bs True t]
    by (simp add: get_the_first_tuple_def Let_def Tuple_sized_def deserialize_tuple_def RID_def)
qed

theorem first_tuple_marked_witness:
  "\<exists>p'. tp_run (table_page_init (Page_of 0 3 None) (- 1) 7)
      [OpInsert \<lparr>tp_allocated = True, tp_rid = invalid_rid, tp_size = 8, tp_data = [1, 2, 3, 4, 5, 6, 7, 8]\<rparr>,
       OpMark (RID 3 0)] = Inr p' \<and> get_the_first_tuple (\<lambda>_ _. 0) p' Tuple_default = Inl AssertFail"
proof -
  let ?p = "table_page_init (Page_of 0 3 None) (- 1) 7"
  let ?ops = "[OpInsert \<lparr>tp_allocated = True, tp_rid = invalid_rid, tp_size = 8, tp_data = [1, 2, 3, 4, 5, 6, 7, 8]\<rparr>,
       OpMark (RID 3 0)]"
  have "slots_run 8 [] ?ops = [Some ([1, 2, 3, 4, 5, 6, 7, 8], True)]" "ops_ok 8 3 [] ?ops"
    by (simp_all add: slots_run_def slots_insert_def Let_def first_empty_def tp_consts set_slot_def RID_def
        tuple_ok_def rec_ok_iff)
  then obtain p' where p': "tp_run ?p ?ops = Inr p'" "tp_inv 8 (pg_data p')"
      "slots (pg_data p') = [Some ([1, 2, 3, 4, 5, 6, 7, 8], True)]"
    using fresh_page_run by blast
  moreover have "next_live (slots (pg_data p')) 0 = Some 0" by (simp add: p'(3) next_live_Some)
  ultimately show ?thesis
    using first_tuple_marked [OF p'(2), of 0] by auto
qed

end
