(* ===== verification/Link_Hash_Page.thy ===== *)
theory Link_Hash_Page
  imports Buffer_Pool Table_Page
begin

text \<open>
  The directory page of the link hash index, \<^verbatim>\<open>src/src/include/storage/page/link_hash_page.h\<close>: an
  array of page ids behind the common header.  The theory also holds the way every client of the
  buffer pool reaches a page: a pointer is dereferenced, a latch is taken around an access and
  released behind it.
\<close>

section \<open>The slots\<close>

definition FIRST_SLOT_NUM_OFFSET :: int where [tp_defs]: "FIRST_SLOT_NUM_OFFSET = COM_PG_HEADER_SZ"
definition SLOT_SIZE :: int where [tp_defs]: "SLOT_SIZE = PGID_T_SIZE"

definition slot_addr :: "int \<Rightarrow> int" where
  "slot_addr slot = FIRST_SLOT_NUM_OFFSET + slot * SLOT_SIZE"

definition link_hash_page_init :: "page \<Rightarrow> page" where
  "link_hash_page_init p =
    p\<lparr>pg_data := fold (\<lambda>i m. wr32 m (slot_addr i) INVALID_PAGE_ID) [0..LK_HA_PG_SLOT_NUM - 1] (pg_data p)\<rparr>"

definition get_pgid_in_slot :: "page \<Rightarrow> int \<Rightarrow> int" where
  "get_pgid_in_slot p slot =
    (if slot < 0 \<or> LK_HA_PG_SLOT_NUM \<le> slot then INVALID_PAGE_ID else rd32 (pg_data p) (slot_addr slot))"

definition set_pgid_in_slot :: "page \<Rightarrow> int \<Rightarrow> int \<Rightarrow> page" where
  "set_pgid_in_slot p slot pid =
    (if slot < 0 \<or> LK_HA_PG_SLOT_NUM \<le> slot then p
     else p\<lparr>pg_data := wr32 (pg_data p) (slot_addr slot) pid\<rparr>)"

text \<open>
  \<^verbatim>\<open>get_next_pgid_in_slot\<close> assigns its uninitialised local \<^verbatim>\<open>page_id\<close> to every slot it visits instead
  of reading the slot; the value of that local in each round is the argument \<open>garbage\<close>.  The start slot
  only matters when it is \<^const>\<open>INVALID_PAGE_ID\<close>, and then the search starts at 0 as in every other case.
\<close>

fun next_pgid_loop :: "(int \<Rightarrow> int) \<Rightarrow> int list \<Rightarrow> page \<Rightarrow> int \<times> page" where
  "next_pgid_loop garbage [] p = (INVALID_PAGE_ID, p)"
| "next_pgid_loop garbage (slot # rest) p =
     (let pid = garbage slot; p = p\<lparr>pg_data := wr32 (pg_data p) (slot_addr slot) pid\<rparr>
      in if pid = INVALID_PAGE_ID then next_pgid_loop garbage rest p else (pid, p))"

definition get_next_pgid_in_slot :: "(int \<Rightarrow> int) \<Rightarrow> page \<Rightarrow> int \<Rightarrow> int \<times> page" where
  "get_next_pgid_in_slot garbage p start_slot =
    (let slot_num = (if start_slot = INVALID_PAGE_ID then start_slot + 1 else 0)
     in next_pgid_loop garbage [slot_num..LK_HA_PG_SLOT_NUM - 1] p)"


section \<open>Access through a pointer\<close>

definition deref :: "bpm \<Rightarrow> int option \<Rightarrow> page result" where
  "deref b ptr =
    (case ptr of
       None \<Rightarrow> Inl NullDeref
     | Some f \<Rightarrow> if f < 0 \<or> length (bp_pages b) \<le> nat f then Inl UndefBehaviour else Inr (bp_pages b ! nat f))"

definition at_page :: "bpm \<Rightarrow> int option \<Rightarrow> (page \<Rightarrow> ('a \<times> page) result) \<Rightarrow> ('a \<times> bpm) result" where
  "at_page b ptr g =
    bindR (deref b ptr) (\<lambda>p. bindR (g p) (\<lambda>(x, p).
      Inr (x, b\<lparr>bp_pages := (bp_pages b)[nat (the ptr) := p]\<rparr>)))"

definition reading :: "bpm \<Rightarrow> int option \<Rightarrow> (page \<Rightarrow> 'a result) \<Rightarrow> ('a \<times> bpm) result" where
  "reading b ptr g =
    at_page b ptr (\<lambda>p. bindR (page_r_lock p) (\<lambda>p. bindR (g p) (\<lambda>x. Inr (x, page_r_unlock p))))"

definition writing :: "bpm \<Rightarrow> int option \<Rightarrow> (page \<Rightarrow> ('a \<times> page) result) \<Rightarrow> ('a \<times> bpm) result" where
  "writing b ptr g =
    at_page b ptr (\<lambda>p. bindR (page_w_lock p) (\<lambda>p. bindR (g p) (\<lambda>(x, p). Inr (x, page_w_unlock p))))"

definition lock_page :: "bpm \<Rightarrow> int option \<Rightarrow> bpm result" where
  "lock_page b ptr =
    bindR (at_page b ptr (\<lambda>p. bindR (page_w_lock p) (\<lambda>p. Inr ((), p)))) (\<lambda>(_, b). Inr b)"

definition unlock_page :: "bpm \<Rightarrow> int option \<Rightarrow> bpm result" where
  "unlock_page b ptr = bindR (at_page b ptr (\<lambda>p. Inr ((), page_w_unlock p))) (\<lambda>(_, b). Inr b)"

definition r_lock_page :: "bpm \<Rightarrow> int option \<Rightarrow> bpm result" where
  "r_lock_page b ptr =
    bindR (at_page b ptr (\<lambda>p. bindR (page_r_lock p) (\<lambda>p. Inr ((), p)))) (\<lambda>(_, b). Inr b)"

definition r_unlock_page :: "bpm \<Rightarrow> int option \<Rightarrow> bpm result" where
  "r_unlock_page b ptr = bindR (at_page b ptr (\<lambda>p. Inr ((), page_r_unlock p))) (\<lambda>(_, b). Inr b)"

text \<open>A change of the page's data without any latch, as the constructors do it.\<close>

definition edit_page :: "bpm \<Rightarrow> int option \<Rightarrow> (page \<Rightarrow> page result) \<Rightarrow> bpm result" where
  "edit_page b ptr g = bindR (at_page b ptr (\<lambda>p. bindR (g p) (\<lambda>p. Inr ((), p)))) (\<lambda>(_, b). Inr b)"

definition page_id_of :: "bpm \<Rightarrow> int option \<Rightarrow> int result" where
  "page_id_of b ptr = bindR (deref b ptr) (\<lambda>p. Inr (pg_id p))"

end
