(* ===== verification/Pool_Access.thy ===== *)
theory Pool_Access
  imports Page_Store Link_Hash_Page
begin

text \<open>
  How the clients of the buffer pool use it: a page is fetched, read or written through its pointer under its latch,
  and unpinned.  The lemmas compose the operations of the pool with several pages pinned at a time, in terms of the
  contents \<^const>\<open>pool_view\<close> of the pages, whatever the frames hold.
\<close>

section \<open>Pinned pages\<close>

text \<open>Exactly the pages of \<open>P\<close> are pinned, once each; what the others hold is on the disk or marked dirty.\<close>

definition held :: "bpm \<Rightarrow> int set \<Rightarrow> bool" where
  "held b P \<longleftrightarrow> bp_inv b \<and> 0 < bp_pool b \<and> (\<forall>q. pins b q = (if q \<in> P then 1 else 0)) \<and> (\<forall>q. q \<notin> P \<longrightarrow> saved b q)"

lemma held_empty: "held b {} \<longleftrightarrow> pool_idle b"
  by (auto simp: held_def pool_idle_def)

lemma heldD:
  assumes "held b P"
  shows "bp_inv b" "bp_core b" "bp_latch b = new_latch" "0 < bp_pool b" "\<And>q. q \<in> P \<Longrightarrow> pins b q = 1" "\<And>q. q \<notin> P \<Longrightarrow> pins b q = 0"
    "\<And>q. q \<notin> P \<Longrightarrow> saved b q"
  using assms by (auto simp: held_def bp_inv_def)

lemma held_frame:
  assumes "held b P" "p \<in> P"
  obtains f where "bp_map b p = Some f" "0 \<le> f" "nat f < length (bp_pages b)" "pg_id (frame_of b f) = p"
    "pg_latch (frame_of b f) = new_latch" "payload (pg_data (frame_of b f)) = the (pool_view b p)" "p \<in> dom (pool_view b)"
    "pg_data (frame_of b f) STATUS_OFFSET = STATUS_EXIST"
proof -
  note H = heldD [OF assms(1)]
  note B = bp_coreD [OF H(2)]
  obtain f where m: "bp_map b p = Some f" using H(5) [OF assms(2)] by (auto simp: pins_def split: option.splits)
  note F = B(11) [OF m, unfolded frame_inv_def]
  have "nat f < length (bp_pages b)" using F B(4) by auto
  moreover have "pg_latch (frame_of b f) = new_latch" using F B(5) by blast
  ultimately show thesis using F m by (intro that [of f]) (auto simp: pool_view_def page_mem_def dom_pool_view)
qed

text \<open>As long as fewer pages are pinned than there are frames, a frame can be had.\<close>

lemma held_room:
  assumes "held b P" "finite P" "int (card P) < bp_pool b"
  shows "bp_free b \<noteq> [] \<or> evictable (bp_replacer b) \<noteq> {}"
proof (rule ccontr)
  assume c: "\<not> ?thesis"
  note H = heldD [OF assms(1)]
  note B = bp_coreD [OF H(2)]
  have r: "ran (bp_map b) = {0..<bp_pool b}" using B(7) c by simp
  have "\<exists>p \<in> P. bp_map b p = Some f" if f: "f \<in> {0..<bp_pool b}" for f
  proof -
    have "f \<in> ran (bp_map b)" using f r by simp
    then obtain p where p: "bp_map b p = Some f" by (auto simp: ran_def)
    have "pg_pin (frame_of b f) \<noteq> 0" using B(11) [OF p] c by (auto simp: frame_inv_def)
    then have "pins b p \<noteq> 0" using p by (simp add: pins_def)
    then show ?thesis using H(6) p by blast
  qed
  then have "{0..<bp_pool b} \<subseteq> (\<lambda>p. the (bp_map b p)) ` P" by force
  then have "card {0..<bp_pool b} \<le> card P" using surj_card_le [OF assms(2)] by blast
  then show False using assms(3) by simp
qed

lemma held_step:
  assumes "held b P" "bp_inv b'" "pool_step b b' p" "pins b' p = 1"
  shows "held b' (insert p P)"
  unfolding held_def
proof (intro conjI allI impI)
  show "bp_inv b'" "0 < bp_pool b'" using assms(1-3) by (simp_all add: held_def pool_step_def)
  show "pins b' q = (if q \<in> insert p P then 1 else 0)" for q
    using assms(1,4) pool_stepD(2) [OF assms(3), of q] by (cases "q = p") (simp_all add: held_def)
  show "saved b' q" if "q \<notin> insert p P" for q
    using that pool_stepD(3) [OF assms(3), of q] heldD(7) [OF assms(1)] by simp
qed

lemma held_stays:
  assumes "held b P" "pool_step b b' p" "p \<notin> P" "q \<in> P"
  shows "bp_map b' q = bp_map b q"
proof -
  obtain f where f: "bp_map b q = Some f" by (rule held_frame [OF assms(1,4)])
  then have "0 < pg_pin (frame_of b f)" using heldD(5) [OF assms(1,4)] by (simp add: pins_def)
  then show ?thesis using f assms(2-4) unfolding pool_step_def by metis
qed

lemma held_get:
  assumes "held b P" "finite P" "int (card P) < bp_pool b" "p \<notin> P" "p \<in> dom (pool_view b)"
  obtains f b' where "get_page b p = Inr (Some f, b')" "held b' (insert p P)" "pool_view b' = pool_view b" "bp_pool b' = bp_pool b"
    "bp_map b' p = Some f" "\<And>q. saved b q \<Longrightarrow> saved b' q" "\<And>q. q \<in> P \<Longrightarrow> bp_map b' q = bp_map b q" "saved b' p"
proof -
  note H = heldD [OF assms(1)]
  have al: "p \<in> alloced_pgid (bp_disk b)" using assms(5) by (simp add: dom_pool_view)
  obtain f b' where g: "get_page b p = Inr (Some f, b')" "bp_inv b'" "bp_map b' p = Some f" "pool_view b' = pool_view b"
      "pins b' p = 1" "saved b p \<longrightarrow> saved b' p" "pool_step b b' p"
    using get_page_spec [OF H(1) al] held_room [OF assms(1-3)] H(6) [OF assms(4)] by auto
  note pin = held_stays [OF assms(1) g(7) assms(4)]
  have "saved b' q" if "saved b q" for q using that g(6) pool_stepD(3) [OF g(7), of q] by (cases "q = p") auto
  then show thesis using that [OF g(1) held_step [OF assms(1) g(2,7,5)] g(4) _ g(3)] pin g(7) H(7) [OF assms(4)]
    by (auto simp: pool_step_def)
qed

lemma held_unpin:
  assumes "held b P" "p \<in> P" "d \<or> saved b p"
  obtains b' where "unpin_page b p d = Inr b'" "held b' (P - {p})" "pool_view b' = pool_view b" "bp_map b' = bp_map b"
    "bp_pool b' = bp_pool b" "\<And>q. saved b q \<Longrightarrow> saved b' q"
proof -
  note H = heldD [OF assms(1)]
  have "0 < pins b p" using H(5) [OF assms(2)] by simp
  then obtain b' where u: "unpin_page b p d = Inr b'" "bp_inv b'" "bp_map b' = bp_map b" "pool_view b' = pool_view b"
      "pins b' p = 0" "saved b' p" "pool_step b b' p"
    using unpin_page_spec [OF H(1), of p d] assms(3) H(5) [OF assms(2)] by auto
  have "pins b' q = (if q \<in> P - {p} then 1 else 0)" for q
    using u(5) H(5,6) pool_stepD(2) [OF u(7), of q] by (cases "q = p") auto
  moreover have sv: "saved b' q" if "saved b q" for q using that u(6) pool_stepD(3) [OF u(7), of q] by (cases "q = p") auto
  moreover have "saved b' q" if "q \<notin> P - {p}" for q using that u(6) sv H(7) by (cases "q = p") auto
  ultimately show thesis using that [OF u(1) _ u(4,3)] u(2,7) H(4) by (simp add: held_def pool_step_def)
qed

lemma held_new:
  assumes "held b P" "finite P" "int (card P) < bp_pool b" "card (dom (pool_view b)) < PAGE_LIMIT"
  obtains f p d b' where "new_page b = Inr (f, b')" "p \<notin> dom (pool_view b)" "0 \<le> p" "p < int PAGE_LIMIT" "pg_id (frame_of b' f) = p" "held b' (insert p P)"
    "bp_map b' p = Some f" "pool_view b' = (pool_view b)(p \<mapsto> d)" "bp_pool b' = bp_pool b" "saved b' p"
    "\<And>q. saved b q \<Longrightarrow> saved b' q" "\<And>q. q \<in> P \<Longrightarrow> bp_map b' q = bp_map b q"
proof -
  note H = heldD [OF assms(1)]
  let ?p = "next_pgid (bp_disk b)"
  have di: "dm_inv (bp_disk b)" using bp_coreD(1) [OF H(2)] .
  note N = next_pgid_fresh [OF di]
  have "{0..<?p} \<subseteq> alloced_pgid (bp_disk b)" using N(3) by auto
  from card_mono [OF dm_invD(16) [OF di] this] have lt: "?p < int PAGE_LIMIT"
    using assms(4) N(1) by (simp add: dom_pool_view)
  have room: "in32 (2 * max_ava_pgid (bp_disk b))" if "free_pgid (bp_disk b) = {}"
    using that lt dm_invD(9) [OF di] by (simp add: next_pgid_def in32_def PAGE_LIMIT_def)
  obtain f b' where g: "new_page b = Inr (f, b')" "bp_inv b'" "bp_map b' ?p = Some f" "pg_id (frame_of b' f) = ?p"
      "pins b' ?p = 1" "saved b' ?p" "alloced_pgid (bp_disk b') = insert ?p (alloced_pgid (bp_disk b))" "pool_step b b' ?p"
    using new_page_spec [OF H(1) held_room [OF assms(1-3)] room PAGE_LIMIT_addr [OF N(1) lt]] by blast
  have new: "?p \<notin> dom (pool_view b)" using N(2) by (simp add: dom_pool_view)
  have nP: "?p \<notin> P" using held_frame [OF assms(1)] new by metis
  note pin = held_stays [OF assms(1) g(8) nP]
  have "pool_view b' = (pool_view b)(?p \<mapsto> payload (page_mem b' ?p))"
  proof
    fix q show "pool_view b' q = ((pool_view b)(?p \<mapsto> payload (page_mem b' ?p))) q"
      using pool_stepD(1) [OF g(8), of q] g(7) by (cases "q = ?p") (simp_all add: pool_view_def)
  qed
  moreover have "saved b' q" if "saved b q" for q using that g(6) pool_stepD(3) [OF g(8), of q] by (cases "q = ?p") auto
  ultimately show thesis
    using that [OF g(1) new N(1) lt g(4) held_step [OF assms(1) g(2,8,5)] g(3)] pin g(6,8) by (auto simp: pool_step_def)
qed


section \<open>Access through the pointer\<close>

lemma held_deref:
  assumes "held b P" "p \<in> P" "bp_map b p = Some f"
  shows "deref b (Some f) = Inr (frame_of b f)"
  using held_frame [OF assms(1,2)] assms(3) by (fastforce simp: deref_def)

text \<open>Reading needs only the id and the contents of the page.\<close>

lemma held_reading:
  assumes "held b P" "p \<in> P" "bp_map b p = Some f" "pool_view b p = Some d"
    and "\<And>q. pg_id q = p \<Longrightarrow> payload (pg_data q) = d \<Longrightarrow> g q = Inr x"
  shows "reading b (Some f) g = Inr (x, b)"
proof -
  obtain f' where F: "bp_map b p = Some f'" "nat f' < length (bp_pages b)" "pg_id (frame_of b f') = p" "pg_latch (frame_of b f') = new_latch"
      "payload (pg_data (frame_of b f')) = d"
    using held_frame [OF assms(1,2)] assms(4) by (metis option.sel)
  then have F: "nat f < length (bp_pages b)" "pg_id (frame_of b f) = p" "pg_latch (frame_of b f) = new_latch" "payload (pg_data (frame_of b f)) = d"
    using assms(3) by simp_all
  have lk: "page_r_lock (frame_of b f) = Inr ((frame_of b f)\<lparr>pg_latch := \<lparr>reader_count = 1, writer_entered = False\<rparr>\<rparr>)"
    using F(3) by (simp add: page_r_lock_def)
  have gx: "g ((frame_of b f)\<lparr>pg_latch := \<lparr>reader_count = 1, writer_entered = False\<rparr>\<rparr>) = Inr x" using assms(5) F(2,4) by simp
  have un: "page_r_unlock ((frame_of b f)\<lparr>pg_latch := \<lparr>reader_count = 1, writer_entered = False\<rparr>\<rparr>) = frame_of b f"
    using F(3) by (simp add: page_r_unlock_def)
  show ?thesis using held_deref [OF assms(1-3)] F(1) by (simp add: reading_def at_page_def lk gx un)
qed

lemma held_write:
  assumes "held b P" "p \<in> P" "bp_map b p = Some f" "m STATUS_OFFSET = STATUS_EXIST"
  shows "held (write_frame b f m) P" "pool_view (write_frame b f m) = (pool_view b)(p \<mapsto> payload m)"
    "bp_map (write_frame b f m) = bp_map b" "bp_pool (write_frame b f m) = bp_pool b"
    "\<And>q. q \<noteq> p \<Longrightarrow> saved b q \<Longrightarrow> saved (write_frame b f m) q"
    "frame_of (write_frame b f m) f = (frame_of b f)\<lparr>pg_data := m\<rparr>"
proof -
  note H = heldD [OF assms(1)]
  have pin: "0 < pins b p" using H(5) [OF assms(2)] by simp
  note W = write_frame_spec [where data = m, OF H(1) assms(3) pin assms(4)]
  show "pool_view (write_frame b f m) = (pool_view b)(p \<mapsto> payload m)" "bp_map (write_frame b f m) = bp_map b"
    "frame_of (write_frame b f m) f = (frame_of b f)\<lparr>pg_data := m\<rparr>" by (fact W)+
  show pool: "bp_pool (write_frame b f m) = bp_pool b" by (simp add: write_frame_def)
  show sv: "saved (write_frame b f m) q" if "q \<noteq> p" "saved b q" for q using pool_stepD(3) [OF W(6)] that by blast
  show "held (write_frame b f m) P"
    unfolding held_def
  proof (intro conjI allI impI)
    show "saved (write_frame b f m) q" if "q \<notin> P" for q using sv [of q] that assms(2) H(7) by blast
  qed (use W(1,4) H pool in simp_all)
qed

lemma held_edit:
  assumes "held b P" "p \<in> P" "bp_map b p = Some f" "g (frame_of b f) = Inr ((frame_of b f)\<lparr>pg_data := m\<rparr>)"
  shows "edit_page b (Some f) g = Inr (write_frame b f m)"
  using held_deref [OF assms(1-3)] assms(4) by (simp add: edit_page_def at_page_def write_frame_def)

lemma held_writing:
  assumes "held b P" "p \<in> P" "bp_map b p = Some f"
    and "\<And>q. pg_id q = p \<Longrightarrow> pg_data q = pg_data (frame_of b f) \<Longrightarrow> g q = Inr (x, q\<lparr>pg_data := m\<rparr>)"
  shows "writing b (Some f) g = Inr (x, write_frame b f m)"
proof -
  obtain f' where "bp_map b p = Some f'" "nat f' < length (bp_pages b)" "pg_id (frame_of b f') = p" "pg_latch (frame_of b f') = new_latch"
    using held_frame [OF assms(1,2)] by metis
  then have F: "nat f < length (bp_pages b)" "pg_id (frame_of b f) = p" "pg_latch (frame_of b f) = new_latch"
    using assms(3) by simp_all
  let ?lk = "\<lparr>reader_count = 0, writer_entered = True\<rparr>"
  have lk: "page_w_lock (frame_of b f) = Inr ((frame_of b f)\<lparr>pg_latch := ?lk\<rparr>)" using F(3) by (simp add: page_w_lock_new)
  have gx: "g ((frame_of b f)\<lparr>pg_latch := ?lk\<rparr>) = Inr (x, (frame_of b f)\<lparr>pg_latch := ?lk, pg_data := m\<rparr>)"
    using assms(4) [of "(frame_of b f)\<lparr>pg_latch := ?lk\<rparr>"] F(2) by simp
  have un: "page_w_unlock ((frame_of b f)\<lparr>pg_latch := ?lk, pg_data := m\<rparr>) = (frame_of b f)\<lparr>pg_data := m\<rparr>"
    using F(3) by (simp add: page_w_unlock_def)
  show ?thesis using held_deref [OF assms(1-3)] F(1) by (simp add: writing_def at_page_def lk gx un write_frame_def)
qed

end
