(* ===== verification/Link_Hash.thy ===== *)
theory Link_Hash
  imports Link_Hash_Page
begin

text \<open>
  The link hash index of \<^verbatim>\<open>src/src/index/link_hash.cpp\<close>: a first level directory page, second level
  directory pages and, in the third level, lists of table pages.  Every operation is translated with its
  calls of the buffer pool in their order, the latches it takes and the pins it keeps or forgets.
  A list of pages can be a cycle on the disk, so the walks along it have fuel.  \<^verbatim>\<open>new_page\<close> never
  returns a null pointer, so the result \<^const>\<open>NEW_PG_FAIL\<close> does not occur.
\<close>

definition hash_to_slot :: "64 word \<Rightarrow> int \<times> int" where
  "hash_to_slot hash_val =
    (let slot_num = uint hash_val mod Lk_HA_TOTAL_SLOT_NUM
     in (slot_num div LK_HA_PG_SLOT_NUM, slot_num mod LK_HA_PG_SLOT_NUM))"

text \<open>One step down the directory: the page id in a slot of a directory page.\<close>

definition slot_lookup :: "bpm \<Rightarrow> int \<Rightarrow> int \<Rightarrow> (int \<times> bpm) result" where
  "slot_lookup b pid slot =
    bindR (get_page b pid) (\<lambda>(pg, b).
    bindR (reading b pg (\<lambda>p. Inr (get_pgid_in_slot p slot))) (\<lambda>(sub, b).
    bindR (unpin_page b pid False) (\<lambda>b. Inr (sub, b))))"

text \<open>
  The search in one table page, a do-while loop: the tuple at \<open>rid\<close> is read and compared, then the id
  moves to the next occupied slot.
\<close>

fun dup_in_page :: "nat \<Rightarrow> page \<Rightarrow> schema \<Rightarrow> value \<Rightarrow> tuple \<Rightarrow> rid \<Rightarrow> rid option result" where
  "dup_in_page 0 p s key t rid = Inl OutOfFuel"
| "dup_in_page (Suc n) p s key t rid =
     bindR (get_tuple p t rid) (\<lambda>(_, t).
     bindR (get_value t s (get_key_idx s)) (\<lambda>v.
       if value_eq key v then Inr (Some rid)
       else bindR (get_next_tuple_rid p (tp_rid t) rid) (\<lambda>(more, rid).
              if more then dup_in_page n p s key t rid else Inr None)))"

text \<open>The answer of one page: the search ends there, or goes on at the next page.\<close>

datatype page_answer = Empty_page | Found_at rid | Go_on int

definition dup_page_step :: "junk \<Rightarrow> schema \<Rightarrow> value \<Rightarrow> page \<Rightarrow> page_answer result" where
  "dup_page_step junk s key p =
    bindR (get_the_first_tuple junk p Tuple_default) (\<lambda>(ok, t).
      if \<not> ok then Inr Empty_page
      else bindR (dup_in_page (nat (get_tuple_count (pg_data p)) + 2) p s key t (tp_rid t)) (\<lambda>r.
             case r of Some rid \<Rightarrow> Inr (Found_at rid) | None \<Rightarrow> Inr (Go_on (get_next_page_id p))))"

fun dup_in_list :: "nat \<Rightarrow> junk \<Rightarrow> bpm \<Rightarrow> schema \<Rightarrow> value \<Rightarrow> int \<Rightarrow> (rid option \<times> bpm) result" where
  "dup_in_list 0 junk b s key pid = Inl OutOfFuel"
| "dup_in_list (Suc n) junk b s key pid =
     (if pid = INVALID_PAGE_ID then Inr (None, b)
      else bindR (get_page b pid) (\<lambda>(pg, b).
           bindR (reading b pg (dup_page_step junk s key)) (\<lambda>(ans, b).
             case ans of
               Empty_page \<Rightarrow> bindR (unpin_page b pid False) (\<lambda>b. Inr (None, b))
             | Found_at rid \<Rightarrow> bindR (unpin_page b pid False) (\<lambda>b. Inr (Some rid, b))
             | Go_on next_pid \<Rightarrow>
                 bindR (page_id_of b pg) (\<lambda>q. bindR (unpin_page b q False) (\<lambda>b.
                   dup_in_list n junk b s key next_pid)))))"

definition lk_ha_check_duplicate_key ::
  "nat \<Rightarrow> junk \<Rightarrow> bpm \<Rightarrow> int \<Rightarrow> value \<Rightarrow> schema \<Rightarrow> (rid option \<times> bpm) result" where
  "lk_ha_check_duplicate_key n junk b first_page_id key s =
    (let (sec_slot, tb_slot) = hash_to_slot (get_hash_value key)
     in bindR (slot_lookup b first_page_id sec_slot) (\<lambda>(second, b).
          if second = INVALID_PAGE_ID then Inr (None, b)
          else bindR (slot_lookup b second tb_slot) (\<lambda>(third, b).
                 dup_in_list n junk b s key third)))"


section \<open>Removing empty pages\<close>

fun collect_empty ::
  "nat \<Rightarrow> bpm \<Rightarrow> int option \<Rightarrow> int \<Rightarrow> int option list \<Rightarrow> (int \<times> int option \<times> int option list \<times> bpm) result" where
  "collect_empty 0 b pg pid acc = Inl OutOfFuel"
| "collect_empty (Suc n) b pg pid acc =
     bindR (deref b pg) (\<lambda>p. bindR (get_stored_tuple_cnt p) (\<lambda>cnt.
       if cnt \<noteq> 0 then Inr (pid, pg, acc, b)
       else let acc = acc @ [pg]; pid = get_next_page_id p
            in if pid = INVALID_PAGE_ID then Inr (pid, pg, acc, b)
               else bindR (get_page b pid) (\<lambda>(pg, b). bindR (lock_page b pg) (\<lambda>b.
                      collect_empty n b pg pid acc))))"

text \<open>A page somebody else has pinned is asked for again every 20 milliseconds, in one thread for ever.\<close>

fun delete_empty :: "bpm \<Rightarrow> int option list \<Rightarrow> bpm result" where
  "delete_empty b [] = Inr b"
| "delete_empty b (pg # pgs) =
     bindR (unlock_page b pg) (\<lambda>b. bindR (page_id_of b pg) (\<lambda>pid.
     bindR (unpin_page b pid False) (\<lambda>b. bindR (page_id_of b pg) (\<lambda>pid.
     bindR (delete_page b pid) (\<lambda>(ok, b). if ok then delete_empty b pgs else Inl Blocked)))))"

definition lk_ha_clear_empty_page :: "nat \<Rightarrow> bpm \<Rightarrow> int \<Rightarrow> int \<Rightarrow> int \<Rightarrow> bpm result" where
  "lk_ha_clear_empty_page n b first_page_id sec_slot tb_slot =
    bindR (slot_lookup b first_page_id sec_slot) (\<lambda>(sec_pid, b).
    bindR (get_page b sec_pid) (\<lambda>(sec, b).
    bindR (lock_page b sec) (\<lambda>b.
    bindR (deref b sec) (\<lambda>p.
    let pid = get_pgid_in_slot p tb_slot
    in bindR (get_page b pid) (\<lambda>(pg, b).
       bindR (lock_page b pg) (\<lambda>b.
       bindR (collect_empty n b pg pid []) (\<lambda>(pid, pg, empty_pages, b).
       bindR (delete_empty b empty_pages) (\<lambda>b.
       bindR (edit_page b sec (\<lambda>p. Inr (set_pgid_in_slot p tb_slot pid))) (\<lambda>b.
         if pid = INVALID_PAGE_ID
         then bindR (unlock_page b sec) (\<lambda>b. unpin_page b sec_pid True)
         else bindR (edit_page b pg (\<lambda>p. Inr (page_w_unlock (set_prev_page_id p INVALID_PAGE_ID)))) (\<lambda>b.
              bindR (unlock_page b sec) (\<lambda>b.
              bindR (unpin_page b pid True) (\<lambda>b. unpin_page b sec_pid True))))))))))))"


section \<open>Insertion\<close>

text \<open>
  The directory pages on the way to a slot are created when they are missing.  The pointer and the id of
  the page below are returned; the directory page is unpinned.
\<close>

definition descend ::
  "bpm \<Rightarrow> int option \<Rightarrow> int \<Rightarrow> int \<Rightarrow> (page \<Rightarrow> page) \<Rightarrow> (int option \<times> int \<times> bpm) result" where
  "descend b dir dir_pid slot init =
    bindR (reading b dir (\<lambda>p. Inr (get_pgid_in_slot p slot))) (\<lambda>(pid, b).
      if pid = INVALID_PAGE_ID
      then bindR (new_page b) (\<lambda>(f, b).
           bindR (page_id_of b (Some f)) (\<lambda>pid.
           bindR (edit_page b (Some f) (\<lambda>p. Inr (init p))) (\<lambda>b.
           bindR (writing b dir (\<lambda>p. Inr ((), set_pgid_in_slot p slot pid))) (\<lambda>(_, b).
           bindR (unpin_page b dir_pid True) (\<lambda>b. Inr (Some f, pid, b))))))
      else bindR (get_page b pid) (\<lambda>(pg, b).
           bindR (unpin_page b dir_pid False) (\<lambda>b. Inr (pg, pid, b))))"

text \<open>
  The insertion loop, entered with the page latched.  A new page at the end of the list is linked but
  not initialised.
\<close>

fun insert_in_list :: "nat \<Rightarrow> bpm \<Rightarrow> int option \<Rightarrow> int \<Rightarrow> tuple \<Rightarrow> (rid \<times> bpm) result" where
  "insert_in_list 0 b pg pid t = Inl OutOfFuel"
| "insert_in_list (Suc n) b pg pid t =
     bindR (at_page b pg (\<lambda>p. insert_tuple p t)) (\<lambda>(r, b).
       case r of
         Some rid \<Rightarrow>
           bindR (unlock_page b pg) (\<lambda>b. bindR (unpin_page b pid True) (\<lambda>b. Inr (rid, b)))
       | None \<Rightarrow>
           bindR (deref b pg) (\<lambda>p.
           let next_pid = get_next_page_id p
           in if next_pid = INVALID_PAGE_ID
              then bindR (new_page b) (\<lambda>(f, b).
                   bindR (lock_page b (Some f)) (\<lambda>b.
                   bindR (page_id_of b (Some f)) (\<lambda>new_pid.
                   bindR (edit_page b pg (\<lambda>p. Inr (set_next_page_id p new_pid))) (\<lambda>b.
                   bindR (page_id_of b pg) (\<lambda>old_pid.
                   bindR (edit_page b (Some f) (\<lambda>p. Inr (set_prev_page_id p old_pid))) (\<lambda>b.
                   bindR (unlock_page b pg) (\<lambda>b.
                   bindR (unpin_page b old_pid True) (\<lambda>b.
                     insert_in_list n b (Some f) new_pid t))))))))
              else bindR (get_page b next_pid) (\<lambda>(next_pg, b).
                   bindR (unlock_page b pg) (\<lambda>b.
                   bindR (page_id_of b pg) (\<lambda>q.
                   bindR (unpin_page b q False) (\<lambda>b.
                   bindR (lock_page b next_pg) (\<lambda>b.
                     insert_in_list n b next_pg next_pid t)))))))"

definition lk_ha_insert_tuple ::
  "nat \<Rightarrow> junk \<Rightarrow> bpm \<Rightarrow> int \<Rightarrow> tuple \<Rightarrow> schema \<Rightarrow> (int \<times> tuple \<times> bpm) result" where
  "lk_ha_insert_tuple n junk b first_page_id t s =
    bindR (get_value t s (get_key_idx s)) (\<lambda>key.
    bindR (lk_ha_check_duplicate_key n junk b first_page_id key s) (\<lambda>(dup, b).
      if dup \<noteq> None then Inr (DUP_KEY, t, b)
      else
        let (sec_slot, tb_slot) = hash_to_slot (get_hash_value key)
        in bindR (get_page b first_page_id) (\<lambda>(first, b).
           bindR (descend b first first_page_id sec_slot link_hash_page_init) (\<lambda>(second, second_pid, b).
           bindR (descend b second second_pid tb_slot
                    (\<lambda>p. table_page_init p INVALID_PAGE_ID INVALID_PAGE_ID)) (\<lambda>(third, third_pid, b).
           bindR (lock_page b third) (\<lambda>b.
           bindR (insert_in_list n b third third_pid t) (\<lambda>(rid, b).
             Inr (OP_SUCCESS, t\<lparr>tp_rid := rid\<rparr>, b))))))))"


section \<open>Lookup, update and deletion\<close>

text \<open>\<^verbatim>\<open>get_tuple_directly\<close> of \<^verbatim>\<open>src/src/include/table/tb_common_op.h\<close>.\<close>

definition get_tuple_directly :: "bpm \<Rightarrow> rid \<Rightarrow> tuple \<Rightarrow> (int \<times> tuple \<times> bpm) result" where
  "get_tuple_directly b rid t =
    bindR (get_page b (rid_page rid)) (\<lambda>(pg, b).
      if pg = None then Inr (TUPLE_NOT_FOUND, t, b)
      else bindR (reading b pg (\<lambda>p. get_tuple p t rid)) (\<lambda>((ok, t), b).
           bindR (unpin_page b (rid_page rid) False) (\<lambda>b.
             Inr (if ok then OP_SUCCESS else TUPLE_NOT_FOUND, t, b))))"

definition lk_ha_get_tuple ::
  "nat \<Rightarrow> junk \<Rightarrow> bpm \<Rightarrow> int \<Rightarrow> value \<Rightarrow> tuple \<Rightarrow> schema \<Rightarrow> (int \<times> tuple \<times> bpm) result" where
  "lk_ha_get_tuple n junk b first_page_id key t s =
    bindR (lk_ha_check_duplicate_key n junk b first_page_id key s) (\<lambda>(dup, b).
      case dup of
        None \<Rightarrow> Inr (TUPLE_NOT_FOUND, t, b)
      | Some rid \<Rightarrow>
          bindR (get_page b (rid_page rid)) (\<lambda>(pg, b).
          bindR (reading b pg (\<lambda>p. get_tuple p t rid)) (\<lambda>((ok, t), b).
          bindR (unpin_page b (rid_page rid) False) (\<lambda>b.
            Inr (if ok then OP_SUCCESS else TUPLE_NOT_FOUND, t, b)))))"

definition lk_ha_update_tuple ::
  "nat \<Rightarrow> junk \<Rightarrow> bpm \<Rightarrow> int \<Rightarrow> tuple \<Rightarrow> rid \<Rightarrow> schema \<Rightarrow> (int \<times> tuple \<times> bpm) result" where
  "lk_ha_update_tuple n junk b first_page_id new_tuple old_rid s =
    bindR (get_value new_tuple s (get_key_idx s)) (\<lambda>key.
    bindR (get_tuple_directly b old_rid Tuple_default) (\<lambda>(code, old_tuple, b).
      if code \<noteq> OP_SUCCESS then Inr (TUPLE_NOT_FOUND, new_tuple, b)
      else bindR (get_page b (rid_page old_rid)) (\<lambda>(pg, b).
           bindR (get_value old_tuple s (get_key_idx s)) (\<lambda>old_key.
             if value_eq key old_key
             then bindR (writing b pg (\<lambda>p. update_tuple p new_tuple old_rid)) (\<lambda>(_, b).
                  bindR (unpin_page b (rid_page old_rid) True) (\<lambda>b.
                    Inr (OP_SUCCESS, new_tuple\<lparr>tp_rid := old_rid\<rparr>, b)))
             else bindR (lk_ha_insert_tuple n junk b first_page_id new_tuple s) (\<lambda>(code, new_tuple, b).
                    if code = DUP_KEY then Inr (DUP_KEY, new_tuple, b)
                    else bindR (writing b pg (\<lambda>p. bindR (mark_delete p old_rid) (\<lambda>(ok, p).
                                if ok then bindR (apply_delete p old_rid) (\<lambda>p. Inr (True, p))
                                else Inr (False, p)))) (\<lambda>(ok, b).
                         bindR (unpin_page b (rid_page old_rid) ok) (\<lambda>b.
                           Inr (if ok then OP_SUCCESS else MARK_DELETE_FAIL, new_tuple, b))))))))"

text \<open>
  \<^verbatim>\<open>lk_ha_mark_delete\<close> tests \<^verbatim>\<open>!lk_ha_get_tuple(...)\<close>, which is true exactly for \<^const>\<open>OP_SUCCESS\<close>, and
  returns \<^verbatim>\<open>false\<close>, the code of \<^const>\<open>OP_SUCCESS\<close>.
\<close>

definition lk_ha_mark_delete :: "nat \<Rightarrow> junk \<Rightarrow> bpm \<Rightarrow> int \<Rightarrow> value \<Rightarrow> schema \<Rightarrow> (int \<times> bpm) result" where
  "lk_ha_mark_delete n junk b first_page_id key s =
    bindR (lk_ha_get_tuple n junk b first_page_id key Tuple_default s) (\<lambda>(code, t, b).
      if code = 0 then Inr (0, b)
      else let pid = rid_page (tp_rid t)
           in bindR (get_page b pid) (\<lambda>(pg, b).
              bindR (writing b pg (\<lambda>p. mark_delete p (tp_rid t))) (\<lambda>(ok, b).
              bindR (unpin_page b pid True) (\<lambda>b.
                Inr (if ok then OP_SUCCESS else TUPLE_NOT_FOUND, b)))))"

definition lk_ha_apply_delete :: "nat \<Rightarrow> junk \<Rightarrow> bpm \<Rightarrow> int \<Rightarrow> value \<Rightarrow> schema \<Rightarrow> bpm result" where
  "lk_ha_apply_delete n junk b first_page_id key s =
    bindR (lk_ha_get_tuple n junk b first_page_id key Tuple_default s) (\<lambda>(code, t, b).
      if code \<noteq> OP_SUCCESS then Inr b
      else let pid = rid_page (tp_rid t)
           in bindR (get_page b pid) (\<lambda>(pg, b).
              bindR (writing b pg (\<lambda>p. bindR (apply_delete p (tp_rid t)) (\<lambda>p.
                       bindR (get_stored_tuple_cnt p) (\<lambda>cnt. Inr (cnt, p))))) (\<lambda>(cnt, b).
              bindR (unpin_page b pid True) (\<lambda>b.
                if cnt = 0
                then let (sec_slot, tb_slot) = hash_to_slot (get_hash_value key)
                     in lk_ha_clear_empty_page n b first_page_id sec_slot tb_slot
                else Inr b))))"

text \<open>The body of \<^verbatim>\<open>lk_ha_rollback_delete\<close> is empty.\<close>

definition lk_ha_rollback_delete :: "bpm \<Rightarrow> int \<Rightarrow> value \<Rightarrow> schema \<Rightarrow> bpm" where
  "lk_ha_rollback_delete b first_page_id key s = b"

end
