(* ===== verification/Index_Pages.thy ===== *)
theory Index_Pages
  imports Pool_Access Link_Hash
begin

text \<open>
  The pages of the link hash index by their contents: what a directory page and a bucket page hold depends only on the
  bytes behind the common header, and searching a bucket page finds the first tuple with the key.
\<close>

section \<open>Contents of a page\<close>

definition pmem :: "byte list \<Rightarrow> mem" where
  "pmem d = put_bytes (\<lambda>_. 0) COM_PG_HEADER_SZ d"

lemma length_payload [simp]: "length (payload m) = PAYLOAD_SZ"
  by (simp add: payload_def PAYLOAD_SZ_def)

lemma pmem_payload: "same_payload m (pmem (payload m))"
  by (auto simp: same_payload_def pmem_def put_bytes_def payload_def get_bytes_def)

lemma same_payload_pmem: "payload m = d \<Longrightarrow> same_payload m (pmem d)"
  using pmem_payload by blast

lemma same_payload_tp:
  assumes "same_payload m m'"
  shows "get_tuple_count m' = get_tuple_count m" "get_free_space_pointer m' = get_free_space_pointer m" "get_free_space m' = get_free_space m"
    "rd32 m' NEXT_PGID_OFFSET = rd32 m NEXT_PGID_OFFSET"
proof -
  show c: "get_tuple_count m' = get_tuple_count m" "get_free_space_pointer m' = get_free_space_pointer m"
    "rd32 m' NEXT_PGID_OFFSET = rd32 m NEXT_PGID_OFFSET"
    using same_payload_rd32 [OF assms] by (simp_all add: tp_field_defs config_defs)
  show "get_free_space m' = get_free_space m" using c by (simp add: get_free_space_def)
qed

lemma tp_inv_payload:
  assumes "same_payload m m'" "tp_inv s m"
  shows "tp_inv s m'" "slots m' = slots m"
proof -
  note D = tp_invD [OF assms(2)] and c = same_payload_tp [OF assms(1)]
  have rec: "get_tuple_offset m' i = get_tuple_offset m i" "get_slot_size m' i = get_slot_size m i"
    if i: "0 \<le> i" "i < get_tuple_count m" for i
    using same_payload_rd32 [OF assms(1)] rec_ok_slot [OF assms(2) i] i
    by (simp_all add: tp_field_defs config_defs rec_ok_iff)
  have sv: "slot_view m' i = slot_view m i" if i: "0 \<le> i" "i < get_tuple_count m" for i
  proof (cases "get_tuple_offset m i = 0")
    case False
    note L = slot_wf_live [OF assms(2) i False]
    have "get_bytes m (get_tuple_offset m i) s = get_bytes m' (get_tuple_offset m i) s"
      using L D(3,6) by (intro same_payload_get_bytes [OF assms(1)]) (simp_all add: tp_consts config_defs)
    then show ?thesis using rec [OF i] L(3) False by (simp add: slot_view_def)
  qed (use rec [OF i] in \<open>simp add: slot_view_def\<close>)
  then show sl: "slots m' = slots m" using c(1) by (auto simp: slots_def)
  show "tp_inv s m'"
  proof (rule tp_invI)
    show "slot_wf s m' i" if "0 \<le> i" "i < get_tuple_count m'" for i using D(7) [of i] that c rec [of i] by (simp add: slot_wf_def)
    show "slots_disjoint s m' i j" if "0 \<le> i" "i < get_tuple_count m'" "0 \<le> j" "j < get_tuple_count m'" "i \<noteq> j" for i j
      using D(8) [of i j] that c rec [of i] rec [of j] by (simp add: slots_disjoint_def)
    show "m' a = 0" if "144 + 8 * get_tuple_count m' \<le> a" "a < 4096 - s * get_tuple_count m'" for a
    proof -
      have "0 \<le> s * get_tuple_count m'" using D(1,3) c(1) by simp
      then have "64 \<le> a" "a < 4096" using that c(1) D(3) by linarith+
      then have "m a = m' a" using assms(1) by (simp add: same_payload_def config_defs)
      then show ?thesis using D(9) [of a] that c(1) by simp
    qed
  qed (use D c sl in simp_all)
qed

section \<open>Directory pages\<close>

definition dir_slot :: "byte list \<Rightarrow> int \<Rightarrow> int" where
  "dir_slot d i = rd32 (pmem d) (slot_addr i)"

abbreviation slot_ok :: "int \<Rightarrow> bool" where
  "slot_ok i \<equiv> 0 \<le> i \<and> i < LK_HA_PG_SLOT_NUM"

lemma slot_num: "LK_HA_PG_SLOT_NUM = 1008"
  by (simp add: config_defs)

lemma slot_addr_eq: "slot_addr i = 64 + 4 * i"
  by (simp add: slot_addr_def tp_defs config_defs)

lemma hash_to_slot_ok: "hash_to_slot h = (a, t) \<Longrightarrow> slot_ok a \<and> slot_ok t"
proof -
  assume "hash_to_slot h = (a, t)"
  then have e: "a = uint h mod 1016064 div 1008" "t = uint h mod 1016064 mod 1008"
    by (simp_all add: hash_to_slot_def Let_def config_defs)
  have "uint h mod 1016064 < 1016064" "0 \<le> uint h mod 1016064" by simp_all
  then have "uint h mod 1016064 div 1008 < 1008" "0 \<le> uint h mod 1016064 div 1008"
    by (simp_all add: div_less_iff_less_mult pos_imp_zdiv_nonneg_iff)
  then show ?thesis unfolding e slot_num by simp
qed

lemma get_pgid_dir: "slot_ok i \<Longrightarrow> payload (pg_data q) = d \<Longrightarrow> get_pgid_in_slot q i = dir_slot d i"
  using same_payload_rd32 [OF same_payload_pmem, of "pg_data q" d "slot_addr i"]
  by (simp add: get_pgid_in_slot_def dir_slot_def slot_addr_eq config_defs)

lemma dir_slot_payload: "slot_ok i \<Longrightarrow> dir_slot (payload m) i = rd32 m (slot_addr i)"
  using same_payload_rd32 [OF pmem_payload, of "slot_addr i" m]
  by (simp add: dir_slot_def slot_addr_eq config_defs)

lemma set_pgid_dir:
  assumes "slot_ok i" "slot_ok j" "in32 pid"
  shows "dir_slot (payload (pg_data (set_pgid_in_slot q i pid))) j = (if j = i then pid else dir_slot (payload (pg_data q)) j)"
proof -
  have "j \<noteq> i \<Longrightarrow> slot_addr j + 4 \<le> slot_addr i \<or> slot_addr i + 4 \<le> slot_addr j" by (auto simp: slot_addr_eq)
  then show ?thesis using assms by (auto simp: dir_slot_payload set_pgid_in_slot_def rd32_wr32_other)
qed

lemma fold_wr32_slots:
  assumes "distinct is" "\<forall>i \<in> set is. 0 \<le> i"
  shows "0 \<le> j \<Longrightarrow> rd32 (fold (\<lambda>i m. wr32 m (slot_addr i) INVALID_PAGE_ID) is m) (slot_addr j) =
    (if j \<in> set is then - 1 else rd32 m (slot_addr j))"
  using assms
proof (induction "is" arbitrary: m)
  case (Cons i "is")
  have "i \<noteq> j \<Longrightarrow> rd32 (wr32 m (slot_addr i) INVALID_PAGE_ID) (slot_addr j) = rd32 m (slot_addr j)"
    by (rule rd32_wr32_other) (auto simp: slot_addr_eq)
  then show ?case using Cons by (auto simp: INVALID_PAGE_ID_def)
qed simp

lemma link_hash_page_init_dir: "slot_ok j \<Longrightarrow> dir_slot (payload (pg_data (link_hash_page_init q))) j = - 1"
  using fold_wr32_slots [of "[0..LK_HA_PG_SLOT_NUM - 1]" j] by (simp add: dir_slot_payload link_hash_page_init_def)

lemma fold_wr32_header:
  "\<forall>i \<in> set is. 0 \<le> i \<Longrightarrow> a < 64 \<Longrightarrow> fold (\<lambda>i m. wr32 m (slot_addr i) INVALID_PAGE_ID) is m a = m a"
  by (induction "is" arbitrary: m) (auto simp: slot_addr_eq wr32_other)

lemma dir_ops_frame:
  "link_hash_page_init q = q\<lparr>pg_data := pg_data (link_hash_page_init q)\<rparr>"
  "set_pgid_in_slot q i pid = q\<lparr>pg_data := pg_data (set_pgid_in_slot q i pid)\<rparr>"
  "pg_data (link_hash_page_init q) STATUS_OFFSET = pg_data q STATUS_OFFSET"
  "pg_data (set_pgid_in_slot q i pid) STATUS_OFFSET = pg_data q STATUS_OFFSET"
  by (simp_all add: link_hash_page_init_def fold_wr32_header STATUS_OFFSET_def)
    (simp_all add: set_pgid_in_slot_def wr32_other slot_addr_eq)


section \<open>Bucket pages\<close>

text \<open>A bucket page with the rows \<open>xs\<close> of \<open>sz\<close> bytes each, the only page of its list.\<close>

definition bucket_ok :: "int \<Rightarrow> byte list \<Rightarrow> byte list list \<Rightarrow> bool" where
  "bucket_ok sz d xs \<longleftrightarrow>
    tp_inv sz (pmem d) \<and> slots (pmem d) = map (\<lambda>bs. Some (bs, False)) xs \<and> rd32 (pmem d) NEXT_PGID_OFFSET = INVALID_PAGE_ID"

lemma bucket_page:
  assumes "bucket_ok sz d xs" "payload (pg_data q) = d"
  shows "tp_inv sz (pg_data q)" "slots (pg_data q) = map (\<lambda>bs. Some (bs, False)) xs" "get_next_page_id q = INVALID_PAGE_ID"
proof -
  have sp: "same_payload (pmem d) (pg_data q)" using same_payload_pmem [OF assms(2)] by (rule same_payload_sym)
  show "tp_inv sz (pg_data q)" "slots (pg_data q) = map (\<lambda>bs. Some (bs, False)) xs"
    using tp_inv_payload [OF sp, of sz] assms(1) by (simp_all add: bucket_ok_def)
  show "get_next_page_id q = INVALID_PAGE_ID" using same_payload_tp(4) [OF sp] assms(1) by (simp add: bucket_ok_def get_next_page_id_def)
qed

lemma bucket_okI:
  assumes "tp_inv sz m" "slots m = map (\<lambda>bs. Some (bs, False)) xs" "rd32 m NEXT_PGID_OFFSET = INVALID_PAGE_ID"
  shows "bucket_ok sz (payload m) xs"
  using tp_inv_payload [OF pmem_payload assms(1)] same_payload_tp(4) [OF pmem_payload, of m] assms by (simp add: bucket_ok_def)

lemma live_count_rows [simp]: "live_count (map (\<lambda>bs. Some (bs, False)) xs) = int (length xs)"
  by (induction xs) simp_all

lemma bucket_rows:
  assumes "bucket_ok sz d xs"
  shows "0 < sz" "\<And>bs. bs \<in> set xs \<Longrightarrow> int (length bs) = sz" "get_tuple_count (pmem d) = int (length xs)" "live_count (slots (pmem d)) = int (length xs)"
proof -
  have inv: "tp_inv sz (pmem d)" and sl: "slots (pmem d) = map (\<lambda>bs. Some (bs, False)) xs" using assms by (simp_all add: bucket_ok_def)
  note D = tp_invD [OF inv]
  show "0 < sz" by (fact D)
  have "length (slots (pmem d)) = length xs" using sl by simp
  then show n: "get_tuple_count (pmem d) = int (length xs)" using D(3) by simp
  show "live_count (slots (pmem d)) = int (length xs)" unfolding sl by simp
  show "int (length bs) = sz" if bs: "bs \<in> set xs" for bs
  proof -
    obtain i where i: "i < length xs" "xs ! i = bs" using bs by (auto simp: in_set_conv_nth)
    then have "live_slot (pmem d) (int i)" using sl by (simp add: live_slot_iff)
    then show ?thesis using live_slotE [OF inv, of "int i"] i sl by fastforce
  qed
qed

lemma bucket_init:
  assumes "0 < sz" "sz < 2147483648"
  shows "bucket_ok sz (payload (pg_data (table_page_init q INVALID_PAGE_ID INVALID_PAGE_ID))) []"
  using table_page_init_inv [OF assms] table_page_init_links(2) [of INVALID_PAGE_ID INVALID_PAGE_ID q]
  by (intro bucket_okI) (simp_all add: get_next_page_id_def INVALID_PAGE_ID_def)

lemma table_page_init_frame:
  "table_page_init q a c = q\<lparr>pg_data := pg_data (table_page_init q a c)\<rparr>"
  "pg_data (table_page_init q a c) STATUS_OFFSET = pg_data q STATUS_OFFSET"
  by (simp_all add: table_page_init_def Let_def tp_field_defs STATUS_OFFSET_def mem_simps)

lemma bucket_insert:
  assumes "bucket_ok sz d xs" "payload (pg_data q) = d" "tuple_ok sz t" "int (length xs) < get_tp_num_capacity sz"
  obtains m where "insert_tuple q t = Inr (Some (RID (pg_id q) (int (length xs))), q\<lparr>pg_data := m\<rparr>)"
    "bucket_ok sz (payload m) (xs @ [tp_data t])" "m STATUS_OFFSET = pg_data q STATUS_OFFSET"
proof -
  note B = bucket_page [OF assms(1,2)] and R = bucket_rows [OF assms(1)]
  have lv: "live_count (slots (pg_data q)) < get_tp_num_capacity sz" using B(2) assms(4) by simp
  have fe: "first_empty (slots (pg_data q)) = None" unfolding B(2) first_empty_None by auto
  have "fst (slots_insert sz (tp_data t) (slots (pg_data q))) \<noteq> None" using slots_insert_iff [OF B(1)] lv by simp
  then have si: "slots_insert sz (tp_data t) (slots (pg_data q)) = (Some (length xs), slots (pg_data q) @ [Some (tp_data t, False)])"
    using fe B(2) by (auto simp: slots_insert_def Let_def split: if_splits)
  obtain m where m: "insert_tuple q t = Inr (Some (RID (pg_id q) (int (length xs))), q\<lparr>pg_data := m\<rparr>)" "tp_inv sz m"
      "slots m = slots (pg_data q) @ [Some (tp_data t, False)]" "\<forall>a < FREE_SPACE_PTR_OFFSET. m a = pg_data q a"
    using insert_tuple_spec [OF _ B(1) assms(3)] lv unfolding si by auto
  have "rd32 m NEXT_PGID_OFFSET = rd32 (pg_data q) NEXT_PGID_OFFSET" using m(4) by (intro rd32_cong) (simp add: tp_consts)
  then have "bucket_ok sz (payload m) (xs @ [tp_data t])" using m(2,3) B(2,3) by (intro bucket_okI) (simp_all add: get_next_page_id_def)
  then show thesis using that [OF m(1)] m(4) by (simp add: tp_consts STATUS_OFFSET_def)
qed

section \<open>Keys\<close>

text \<open>
  The schema of a table the index can hold.  Keys of type decimal are left out: 0 and -0 are equal for the code but have
  different hash values.
\<close>

definition wf_index :: "schema \<Rightarrow> bool" where
  "wf_index s \<longleftrightarrow> wf_schema s \<and> 0 \<le> get_key_idx s \<and> nat (get_key_idx s) < length (sch_columns s) \<and>
    col_type (sch_columns s ! nat (get_key_idx s)) \<noteq> kDecimal \<and> 0 < get_tuple_size s \<and> get_tuple_size s < 2147483648"

definition key_of :: "schema \<Rightarrow> byte list \<Rightarrow> value" where
  "key_of s bs =
    projr (get_value \<lparr>tp_allocated = True, tp_rid = invalid_rid, tp_size = get_tuple_size s, tp_data = bs\<rparr> s (get_key_idx s))"

text \<open>A key as a tuple of the schema holds it: characters are padded with zeros to the length of the column.\<close>

definition valid_key :: "schema \<Rightarrow> value \<Rightarrow> bool" where
  "valid_key s k \<longleftrightarrow> (\<exists>bs. int (length bs) = get_tuple_size s \<and> k = key_of s bs)"

lemma c_str_bound: "length (c_str (bs @ [0])) \<le> length bs"
  by (simp add: c_str_def takeWhile_tail length_takeWhile_le)

lemma key_decode:
  assumes "wf_index s" "tuple_of s t"
  defines "c \<equiv> sch_columns s ! nat (get_key_idx s)"
  defines "bs \<equiv> get_slice (tp_data t) (nat (col_offset c)) (nat (get_data_size c))"
  shows "get_value t s (get_key_idx s) = col_decode c bs"
    "col_decode c bs = Inr (case col_type c of
       kBoolean \<Rightarrow> VBoolean (hd bs \<noteq> 0) | kInteger \<Rightarrow> VInteger (bytes_int bs)
     | kChar \<Rightarrow> VChar (c_str (bs @ [0]) @ replicate (nat (get_data_size c + 1) - length (c_str (bs @ [0]))) 0)
     | _ \<Rightarrow> VInvalid)"
    "col_type c = kBoolean \<or> col_type c = kInteger \<or> col_type c = kChar"
proof -
  have wf: "wf_schema s" and i: "nat (get_key_idx s) < length (sch_columns s)" "int (nat (get_key_idx s)) = get_key_idx s"
    using assms(1) by (simp_all add: wf_index_def)
  note w = wf_schema_nth [OF wf i(1)]
  show "get_value t s (get_key_idx s) = col_decode c bs"
    using get_value_decode [OF wf i(1) assms(2)] i(2) by (simp add: c_def bs_def)
  have "col_type c \<noteq> kInvalid" using wf i(1) w(4) by (auto simp: wf_schema_def list_all_length c_def)
  then show ty: "col_type c = kBoolean \<or> col_type c = kInteger \<or> col_type c = kChar"
    using assms(1) by (cases "col_type c") (simp_all add: wf_index_def c_def)
  have len: "int (length bs) = get_data_size c"
    using assms(2) w by (auto simp: get_slice_def tuple_of_def get_tuple_size_def c_def bs_def)
  then have "int (length (c_str (bs @ [0]))) \<le> get_data_size c" using c_str_bound [of bs] by linarith
  then show "col_decode c bs = Inr (case col_type c of
       kBoolean \<Rightarrow> VBoolean (hd bs \<noteq> 0) | kInteger \<Rightarrow> VInteger (bytes_int bs)
     | kChar \<Rightarrow> VChar (c_str (bs @ [0]) @ replicate (nat (get_data_size c + 1) - length (c_str (bs @ [0]))) 0)
     | _ \<Rightarrow> VInvalid)"
    using ty by (auto simp: col_decode_def value_from_def)
qed

lemma key_of_get:
  assumes "wf_index s" "tuple_of s t"
  shows "get_value t s (get_key_idx s) = Inr (key_of s (tp_data t))"
proof -
  have "tuple_of s \<lparr>tp_allocated = True, tp_rid = invalid_rid, tp_size = get_tuple_size s, tp_data = tp_data t\<rparr>"
    using assms(2) by (simp add: tuple_of_def)
  from key_decode(1,2) [OF assms(1) this] key_decode(1,2) [OF assms] show ?thesis by (simp add: key_of_def)
qed

lemma VChar_inj: "VChar a = VChar b \<longleftrightarrow> a = b"
  by simp

lemma value_eq_valid:
  assumes "wf_index s" "valid_key s k" "valid_key s k'"
  shows "value_eq k k' \<longleftrightarrow> k = k'"
proof -
  let ?c = "sch_columns s ! nat (get_key_idx s)"
  let ?pad = "\<lambda>x::byte list. VChar (x @ replicate (nat (get_data_size ?c + 1) - length x) 0)"
  have form: "\<exists>x. (\<exists>bs. x = c_str (bs @ [0]) \<and> int (length x) \<le> get_data_size ?c) \<and> (case col_type ?c of
      kBoolean \<Rightarrow> \<exists>v. k = VBoolean v | kInteger \<Rightarrow> \<exists>v. k = VInteger v | kChar \<Rightarrow> k = ?pad x | _ \<Rightarrow> False)"
    if vk: "valid_key s k" for k
  proof -
    obtain bs where bs: "int (length bs) = get_tuple_size s" "k = key_of s bs" using vk unfolding valid_key_def by blast
    let ?t = "\<lparr>tp_allocated = True, tp_rid = invalid_rid, tp_size = get_tuple_size s, tp_data = bs\<rparr>"
    have "tuple_of s ?t" using bs(1) by (simp add: tuple_of_def)
    note K = key_decode [OF assms(1) this]
    let ?d = "get_slice bs (nat (col_offset ?c)) (nat (get_data_size ?c))"
    have w: "0 \<le> get_data_size ?c" using wf_schema_nth(2) assms(1) by (simp add: wf_index_def)
    have "length ?d \<le> nat (get_data_size ?c)" by (simp add: get_slice_def)
    then have l: "int (length (c_str (?d @ [0]))) \<le> get_data_size ?c" using c_str_bound [of ?d] w by linarith
    show ?thesis
      by (rule exI [of _ "c_str (?d @ [0])"]) (use K l bs(2) in \<open>auto simp: key_of_def\<close>)
  qed
  obtain x where x: "\<exists>bs. x = c_str (bs @ [0]) \<and> int (length x) \<le> get_data_size ?c" "case col_type ?c of
      kBoolean \<Rightarrow> \<exists>v. k = VBoolean v | kInteger \<Rightarrow> \<exists>v. k = VInteger v | kChar \<Rightarrow> k = ?pad x | _ \<Rightarrow> False"
    using form [OF assms(2)] by auto
  obtain y where y: "\<exists>bs. y = c_str (bs @ [0]) \<and> int (length y) \<le> get_data_size ?c" "case col_type ?c of
      kBoolean \<Rightarrow> \<exists>v. k' = VBoolean v | kInteger \<Rightarrow> \<exists>v. k' = VInteger v | kChar \<Rightarrow> k' = ?pad y | _ \<Rightarrow> False"
    using form [OF assms(3)] by auto
  have cs: "c_str (z @ replicate (nat (get_data_size ?c + 1) - length z) 0) = z"
    if ex: "\<exists>bs. z = c_str (bs @ [0]) \<and> int (length z) \<le> get_data_size ?c" for z
  proof -
    obtain bs where z: "z = c_str (bs @ [0])" "int (length z) \<le> get_data_size ?c" using ex by blast
    have "nat (get_data_size ?c + 1) - length z = Suc (nat (get_data_size ?c) - length z)" using z(2) by linarith
    then have "z @ replicate (nat (get_data_size ?c + 1) - length z) 0 = z @ 0 # replicate (nat (get_data_size ?c) - length z) 0" by simp
    then show ?thesis using c_str_append_zero [of "bs @ [0]"] z(1) by metis
  qed
  note cx = cs [OF x(1)] and cy = cs [OF y(1)]
  show ?thesis
  proof (cases "col_type ?c = kChar")
    case True
    then have k: "k = ?pad x" "k' = ?pad y" using x(2) y(2) by simp_all
    then have "value_eq k k' \<longleftrightarrow> x = y" using cx cy by simp
    moreover have "k = k' \<longleftrightarrow> x = y" unfolding k using cx cy by (metis VChar_inj)
    ultimately show ?thesis by simp
  next
    case False
    then show ?thesis using x(2) y(2) by (cases "col_type ?c") auto
  qed
qed


section \<open>Searching a bucket\<close>

lemma bucket_get:
  assumes "bucket_ok sz d xs" "payload (pg_data q) = d" "i < length xs" "rid_slot r = int i"
  shows "get_tuple q t r = Inr (True, \<lparr>tp_allocated = True, tp_rid = r, tp_size = sz, tp_data = xs ! i\<rparr>)"
proof -
  note B = bucket_page [OF assms(1,2)]
  have "live_slot (pg_data q) (rid_slot r)" using B(2) assms(3,4) by (simp add: live_slot_iff)
  then show ?thesis using get_tuple_spec [OF B(1), of r "xs ! i" False t] B(2) assms(3,4) by simp
qed

definition find_key :: "schema \<Rightarrow> value \<Rightarrow> byte list list \<Rightarrow> nat \<Rightarrow> nat option" where
  "find_key s key xs i = find (\<lambda>j. value_eq key (key_of s (xs ! j))) [i..<length xs]"

lemma dup_in_page_spec:
  assumes "wf_index s" "bucket_ok (get_tuple_size s) d xs" "payload (pg_data q) = d" "0 \<le> pg_id q"
  shows "i < length xs \<Longrightarrow> length xs - i \<le> n \<Longrightarrow>
    dup_in_page n q s key t (RID (pg_id q) (int i)) = Inr (map_option (\<lambda>j. RID (pg_id q) (int j)) (find_key s key xs i))"
proof (induction n arbitrary: i t)
  case (Suc n)
  let ?r = "RID (pg_id q) (int i)"
  let ?t = "\<lparr>tp_allocated = True, tp_rid = ?r, tp_size = get_tuple_size s, tp_data = xs ! i\<rparr>"
  have g: "get_tuple q t ?r = Inr (True, ?t)" by (rule bucket_get [OF assms(2,3) Suc.prems(1)]) (simp add: RID_def)
  have "tuple_of s ?t" using bucket_rows(2) [OF assms(2), of "xs ! i"] Suc.prems(1) by (simp add: tuple_of_def)
  then have v: "get_value ?t s (get_key_idx s) = Inr (key_of s (xs ! i))" using key_of_get [OF assms(1)] by fastforce
  have up: "[i..<length xs] = i # [Suc i..<length xs]" using Suc.prems(1) by (simp add: upt_conv_Cons)
  note B = bucket_page [OF assms(2,3)]
  have nl: "next_live (slots (pg_data q)) (Suc i) = (if Suc i < length xs then Some (Suc i) else None)"
    unfolding B(2) by (auto simp: next_live_Some next_live_None)
  have nx: "get_next_tuple_rid q ?r ?r = Inr (if Suc i < length xs then (True, RID (pg_id q) (int (Suc i))) else (False, RID INVALID_PAGE_ID (- 1)))"
    using get_next_tuple_rid_spec(2) [OF B(1), of ?r ?r] assms(4) nl by (simp add: RID_def INVALID_PAGE_ID_def)
  show ?case
  proof (cases "value_eq key (key_of s (xs ! i))")
    case True
    then show ?thesis by (simp add: g v find_key_def up)
  next
    case False
    then have f: "find_key s key xs i = find_key s key xs (Suc i)" by (simp add: find_key_def up)
    show ?thesis
    proof (cases "Suc i < length xs")
      case True
      then show ?thesis using Suc.IH [OF True] Suc.prems False f by (simp add: g v nx)
    next
      case last: False
      then show ?thesis using False f by (simp add: g v nx find_key_def)
    qed
  qed
qed simp

lemma dup_page_step_spec:
  assumes "wf_index s" "bucket_ok (get_tuple_size s) d xs" "payload (pg_data q) = d" "0 \<le> pg_id q"
  shows "dup_page_step junk s key q = Inr (if xs = [] then Empty_page
    else case find_key s key xs 0 of Some j \<Rightarrow> Found_at (RID (pg_id q) (int j)) | None \<Rightarrow> Go_on INVALID_PAGE_ID)"
proof -
  note B = bucket_page [OF assms(2,3)] and R = bucket_rows [OF assms(2)]
  have cnt: "get_tuple_count (pg_data q) = int (length xs)"
    using same_payload_tp(1) [OF same_payload_pmem [OF assms(3)]] R(3) by simp
  have sc: "scan_slots (\<lambda>off. off \<noteq> 0) (pg_data q) [0..get_tuple_count (pg_data q) - 1] = Inr (if xs = [] then None else Some 0)"
    using find_next_live [OF B(1), of 0] B(2) by (auto simp: next_live_Some next_live_None)
  show ?thesis
  proof (cases "xs = []")
    case True
    then show ?thesis using sc by (simp add: dup_page_step_def get_the_first_tuple_def Let_def)
  next
    case False
    then have l0: "live_slot (pg_data q) 0" using B(2) by (simp add: live_slot_iff)
    obtain bs bd where E: "slots (pg_data q) ! nat 0 = Some (bs, bd)" "get_slot_size (pg_data q) 0 = (if bd then get_tuple_size s - 2147483648 else get_tuple_size s)"
      by (rule live_slotE [OF B(1) l0]) blast
    have "\<not> bd" using E(1) False unfolding B(2) by simp
    then have sz: "get_slot_size (pg_data q) 0 = get_tuple_size s" using E(2) by simp
    have off: "get_tuple_offset (pg_data q) 0 \<noteq> 0" using l0 by (simp add: live_slot_def)
    have "in_page (get_tuple_offset (pg_data q) 0) (get_tuple_size s)"
      using slot_wf_live [OF B(1) _ _ off] cnt False tp_invD(1,3,6) [OF B(1)] by (simp add: in_page_def tp_consts)
    then obtain tm where "get_the_first_tuple junk q Tuple_default = Inr (True, tm)" "tp_rid tm = RID (pg_id q) 0"
      using sc False sz R(1) by (simp add: get_the_first_tuple_def Let_def deserialize_tuple_def Tuple_sized_def)
    moreover have "dup_in_page (nat (get_tuple_count (pg_data q)) + 2) q s key tm (RID (pg_id q) (int 0)) =
        Inr (map_option (\<lambda>j. RID (pg_id q) (int j)) (find_key s key xs 0))"
      using False cnt by (intro dup_in_page_spec [OF assms]) auto
    ultimately show ?thesis using False B(3) by (simp add: dup_page_step_def del: dup_in_page.simps split: option.splits)
  qed
qed

end
