(* ===== verification/Index_Tree.thy ===== *)
theory Index_Tree
  imports Index_Pages
begin

text \<open>
  The link hash index as a map from keys to rows: as long as no bucket outgrows its first page, every sequence of
  insertions and lookups on a fresh index answers as the map does, over a buffer pool of two frames or more.
\<close>

section \<open>The tree of pages\<close>

text \<open>The part a page plays in the index: the directory, the directory below one of its slots, or a bucket.\<close>

datatype role = First | Second int | Third int int

text \<open>
  \<open>R\<close> gives the parts of the pages of the index among the contents \<open>V\<close>, \<open>rows\<close> the rows of every bucket.
\<close>

definition idx_rel :: "schema \<Rightarrow> (int \<rightharpoonup> byte list) \<Rightarrow> int \<Rightarrow> (int \<rightharpoonup> role) \<Rightarrow> (int \<times> int \<Rightarrow> byte list list) \<Rightarrow> bool" where
  "idx_rel s V first R rows \<longleftrightarrow>
    dom R \<subseteq> dom V \<and> R first = Some First \<and> inj_on R (dom R) \<and> (\<forall>q \<in> dom R. 0 \<le> q) \<and>
    (\<forall>a. slot_ok a \<longrightarrow> (let q = dir_slot (the (V first)) a in
       if q = - 1 then Second a \<notin> ran R \<and> (\<forall>t. Third a t \<notin> ran R \<and> rows (a, t) = []) else R q = Some (Second a))) \<and>
    (\<forall>q a t. R q = Some (Second a) \<longrightarrow> slot_ok t \<longrightarrow> (let e = dir_slot (the (V q)) t in
       if e = - 1 then Third a t \<notin> ran R \<and> rows (a, t) = [] else R e = Some (Third a t))) \<and>
    (\<forall>q a t. R q = Some (Third a t) \<longrightarrow> bucket_ok (get_tuple_size s) (the (V q)) (rows (a, t)))"

lemma idx_relD:
  assumes "idx_rel s V first R rows"
  shows "dom R \<subseteq> dom V" "R first = Some First" "inj_on R (dom R)" "\<And>q r. R q = Some r \<Longrightarrow> 0 \<le> q"
    "\<And>a. slot_ok a \<Longrightarrow> dir_slot (the (V first)) a = - 1 \<Longrightarrow> Second a \<notin> ran R \<and> (\<forall>t. Third a t \<notin> ran R \<and> rows (a, t) = [])"
    "\<And>a. slot_ok a \<Longrightarrow> dir_slot (the (V first)) a \<noteq> - 1 \<Longrightarrow> R (dir_slot (the (V first)) a) = Some (Second a)"
    "\<And>q a t. R q = Some (Second a) \<Longrightarrow> slot_ok t \<Longrightarrow> dir_slot (the (V q)) t = - 1 \<Longrightarrow> Third a t \<notin> ran R \<and> rows (a, t) = []"
    "\<And>q a t. R q = Some (Second a) \<Longrightarrow> slot_ok t \<Longrightarrow> dir_slot (the (V q)) t \<noteq> - 1 \<Longrightarrow> R (dir_slot (the (V q)) t) = Some (Third a t)"
    "\<And>q a t. R q = Some (Third a t) \<Longrightarrow> bucket_ok (get_tuple_size s) (the (V q)) (rows (a, t))"
    "\<And>q r. R q = Some r \<Longrightarrow> q \<in> dom V" "\<And>q q' r. R q = Some r \<Longrightarrow> R q' = Some r \<Longrightarrow> q = q'"
proof -
  show "q = q'" if "R q = Some r" "R q' = Some r" for q q' r
    using assms that unfolding idx_rel_def by (metis domI inj_onD)
qed (use assms in \<open>auto simp: idx_rel_def Let_def split: if_splits\<close>)

lemma idx_relI:
  assumes "dom R \<subseteq> dom V" "R first = Some First" "inj_on R (dom R)" "\<And>q r. R q = Some r \<Longrightarrow> 0 \<le> q"
    "\<And>a. slot_ok a \<Longrightarrow> dir_slot (the (V first)) a = - 1 \<Longrightarrow> Second a \<notin> ran R \<and> (\<forall>t. Third a t \<notin> ran R \<and> rows (a, t) = [])"
    "\<And>a. slot_ok a \<Longrightarrow> dir_slot (the (V first)) a \<noteq> - 1 \<Longrightarrow> R (dir_slot (the (V first)) a) = Some (Second a)"
    "\<And>q a t. R q = Some (Second a) \<Longrightarrow> slot_ok t \<Longrightarrow> dir_slot (the (V q)) t = - 1 \<Longrightarrow> Third a t \<notin> ran R \<and> rows (a, t) = []"
    "\<And>q a t. R q = Some (Second a) \<Longrightarrow> slot_ok t \<Longrightarrow> dir_slot (the (V q)) t \<noteq> - 1 \<Longrightarrow> R (dir_slot (the (V q)) t) = Some (Third a t)"
    "\<And>q a t. R q = Some (Third a t) \<Longrightarrow> bucket_ok (get_tuple_size s) (the (V q)) (rows (a, t))"
  shows "idx_rel s V first R rows"
  unfolding idx_rel_def Let_def
proof (intro conjI allI impI ballI)
  show "0 \<le> q" if "q \<in> dom R" for q using that assms(4) by auto
  show "if dir_slot (the (V first)) a = - 1 then Second a \<notin> ran R \<and> (\<forall>t. Third a t \<notin> ran R \<and> rows (a, t) = [])
    else R (dir_slot (the (V first)) a) = Some (Second a)" if "slot_ok a" for a
    using assms(5,6) [OF that] by (cases "dir_slot (the (V first)) a = - 1") simp_all
  show "if dir_slot (the (V q)) t = - 1 then Third a t \<notin> ran R \<and> rows (a, t) = []
    else R (dir_slot (the (V q)) t) = Some (Third a t)" if "R q = Some (Second a)" "slot_ok t" for q a t
    using assms(7,8) [OF that] by (cases "dir_slot (the (V q)) t = - 1") simp_all
qed (use assms(1-3,9) in auto)

lemma idx_fresh:
  assumes "V first = Some d" "0 \<le> first" "\<And>j. slot_ok j \<Longrightarrow> dir_slot d j = - 1"
  shows "idx_rel s V first [first \<mapsto> First] (\<lambda>_. [])"
  by (rule idx_relI) (use assms in \<open>auto split: if_splits\<close>)

text \<open>A new page joins the index in a part nobody has.\<close>

lemma new_role:
  assumes "inj_on R (dom R)" "n \<notin> dom R" "r \<notin> ran R"
  shows "inj_on (R(n \<mapsto> r)) (dom (R(n \<mapsto> r)))" "ran (R(n \<mapsto> r)) = insert r (ran R)"
proof -
  have "R n = None" using assms(2) by auto
  then show "ran (R(n \<mapsto> r)) = insert r (ran R)" by simp
  show "inj_on (R(n \<mapsto> r)) (dom (R(n \<mapsto> r)))"
  proof (rule inj_onI)
    fix x y assume xy: "x \<in> dom (R(n \<mapsto> r))" "y \<in> dom (R(n \<mapsto> r))" "(R(n \<mapsto> r)) x = (R(n \<mapsto> r)) y"
    show "x = y" using xy assms inj_onD [OF assms(1), of x y] by (auto simp: ran_def split: if_splits)
  qed
qed

lemma idx_new_second:
  assumes rel: "idx_rel s V first R rows" and a: "slot_ok a" "dir_slot (the (V first)) a = - 1"
    and n: "n \<notin> dom V" "0 \<le> n" and d: "\<And>j. slot_ok j \<Longrightarrow> dir_slot d j = - 1"
    and d': "\<And>j. slot_ok j \<Longrightarrow> dir_slot d' j = (if j = a then n else dir_slot (the (V first)) j)"
  shows "idx_rel s (V(n \<mapsto> d, first \<mapsto> d')) first (R(n \<mapsto> Second a)) rows"
proof -
  note D = idx_relD [OF rel]
  have nR: "n \<notin> dom R" using n(1) D(1) by auto
  note N = new_role [OF D(3) nR conjunct1 [OF D(5) [OF a]]]
  have nf: "n \<noteq> first" using nR D(2) by auto
  have old: "R q = Some r \<Longrightarrow> q \<noteq> n" for q r using nR by auto
  show ?thesis
  proof (rule idx_relI)
    show "dom (R(n \<mapsto> Second a)) \<subseteq> dom (V(n \<mapsto> d, first \<mapsto> d'))" using D(1) by auto
    show "(R(n \<mapsto> Second a)) first = Some First" using D(2) nf by simp
    show "inj_on (R(n \<mapsto> Second a)) (dom (R(n \<mapsto> Second a)))" by (rule N)
    show "0 \<le> q" if "(R(n \<mapsto> Second a)) q = Some r" for q r using that D(4) n(2) by (auto split: if_splits)
    fix c assume c: "slot_ok c"
    show "Second c \<notin> ran (R(n \<mapsto> Second a)) \<and> (\<forall>t. Third c t \<notin> ran (R(n \<mapsto> Second a)) \<and> rows (c, t) = [])"
      if "dir_slot (the ((V(n \<mapsto> d, first \<mapsto> d')) first)) c = - 1"
      using that d' [OF c] D(5) [OF c] n(2) unfolding N(2) by (auto split: if_splits)
    show "(R(n \<mapsto> Second a)) (dir_slot (the ((V(n \<mapsto> d, first \<mapsto> d')) first)) c) = Some (Second c)"
      if "dir_slot (the ((V(n \<mapsto> d, first \<mapsto> d')) first)) c \<noteq> - 1"
      using that d' [OF c] D(6) [OF c] old by (auto split: if_splits)
  next
    fix q c t assume q: "(R(n \<mapsto> Second a)) q = Some (Second c)" "slot_ok t"
    have keep: "q \<noteq> n \<Longrightarrow> R q = Some (Second c) \<and> q \<noteq> first" using q(1) D(2) by auto
    show "Third c t \<notin> ran (R(n \<mapsto> Second a)) \<and> rows (c, t) = []"
      if "dir_slot (the ((V(n \<mapsto> d, first \<mapsto> d')) q)) t = - 1"
      using that q D(5) [OF a] D(7) [of q c t] keep nf unfolding N(2) by (cases "q = n") auto
    show "(R(n \<mapsto> Second a)) (dir_slot (the ((V(n \<mapsto> d, first \<mapsto> d')) q)) t) = Some (Third c t)"
      if "dir_slot (the ((V(n \<mapsto> d, first \<mapsto> d')) q)) t \<noteq> - 1"
      using that q d [OF q(2)] D(8) [of q c t] keep nf old by (cases "q = n") auto
  next
    show "bucket_ok (get_tuple_size s) (the ((V(n \<mapsto> d, first \<mapsto> d')) q)) (rows (c, t))" if "(R(n \<mapsto> Second a)) q = Some (Third c t)" for q c t
      using that D(2) D(9) [of q c t] by (auto split: if_splits)
  qed
qed

lemma idx_new_third:
  assumes rel: "idx_rel s V first R rows" and q: "R q = Some (Second a)" "slot_ok t" "dir_slot (the (V q)) t = - 1"
    and n: "n \<notin> dom V" "0 \<le> n" and d: "bucket_ok (get_tuple_size s) d []"
    and d': "\<And>j. slot_ok j \<Longrightarrow> dir_slot d' j = (if j = t then n else dir_slot (the (V q)) j)"
  shows "idx_rel s (V(n \<mapsto> d, q \<mapsto> d')) first (R(n \<mapsto> Third a t)) rows"
proof -
  note D = idx_relD [OF rel]
  have nR: "n \<notin> dom R" using n(1) D(1) by auto
  have fresh: "Third a t \<notin> ran R" "rows (a, t) = []" using D(7) [OF q] by simp_all
  note N = new_role [OF D(3) nR fresh(1)]
  have ne: "n \<noteq> first" "n \<noteq> q" "q \<noteq> first" using nR D(2) q(1) by auto
  have old: "R p = Some r \<Longrightarrow> p \<noteq> n" for p r using nR by auto
  have sec: "Second a \<in> ran R" using q(1) by (auto intro: ranI)
  show ?thesis
  proof (rule idx_relI)
    show "dom (R(n \<mapsto> Third a t)) \<subseteq> dom (V(n \<mapsto> d, q \<mapsto> d'))" using D(1) by auto
    show "(R(n \<mapsto> Third a t)) first = Some First" using D(2) ne by simp
    show "inj_on (R(n \<mapsto> Third a t)) (dom (R(n \<mapsto> Third a t)))" by (rule N)
    show "0 \<le> p" if "(R(n \<mapsto> Third a t)) p = Some r" for p r using that D(4) n(2) by (auto split: if_splits)
    fix c assume c: "slot_ok c"
    show "Second c \<notin> ran (R(n \<mapsto> Third a t)) \<and> (\<forall>u. Third c u \<notin> ran (R(n \<mapsto> Third a t)) \<and> rows (c, u) = [])"
      if "dir_slot (the ((V(n \<mapsto> d, q \<mapsto> d')) first)) c = - 1"
      using that D(5) [OF c] ne sec unfolding N(2) by auto
    show "(R(n \<mapsto> Third a t)) (dir_slot (the ((V(n \<mapsto> d, q \<mapsto> d')) first)) c) = Some (Second c)"
      if "dir_slot (the ((V(n \<mapsto> d, q \<mapsto> d')) first)) c \<noteq> - 1"
      using that D(6) [OF c] ne old by auto
  next
    fix p c u assume p: "(R(n \<mapsto> Third a t)) p = Some (Second c)" "slot_ok u"
    have R: "R p = Some (Second c)" "p \<noteq> n" using p(1) by (auto split: if_splits)
    have at: "p = q \<longleftrightarrow> c = a" using D(11) [OF q(1), of p] R(1) q(1) by auto
    show "Third c u \<notin> ran (R(n \<mapsto> Third a t)) \<and> rows (c, u) = []"
      if "dir_slot (the ((V(n \<mapsto> d, q \<mapsto> d')) p)) u = - 1"
      using that d' [OF p(2)] D(7) [OF R(1) p(2)] R at n(2) unfolding N(2) by (cases "p = q") (auto split: if_splits)
    show "(R(n \<mapsto> Third a t)) (dir_slot (the ((V(n \<mapsto> d, q \<mapsto> d')) p)) u) = Some (Third c u)"
      if "dir_slot (the ((V(n \<mapsto> d, q \<mapsto> d')) p)) u \<noteq> - 1"
      using that d' [OF p(2)] D(8) [OF R(1) p(2)] R at old by (cases "p = q") (auto split: if_splits)
  next
    show "bucket_ok (get_tuple_size s) (the ((V(n \<mapsto> d, q \<mapsto> d')) p)) (rows (c, u))" if "(R(n \<mapsto> Third a t)) p = Some (Third c u)" for p c u
      using that d fresh(2) q(1) ne D(9) [of p c u] by (auto split: if_splits)
  qed
qed

lemma idx_insert_row:
  assumes rel: "idx_rel s V first R rows" and e: "R e = Some (Third a t)"
    and d: "bucket_ok (get_tuple_size s) d (rows (a, t) @ [bs])" and ok: "slot_ok a" "slot_ok t"
  shows "idx_rel s (V(e \<mapsto> d)) first R (rows((a, t) := rows (a, t) @ [bs]))"
proof -
  note D = idx_relD [OF rel]
  have ran: "Third a t \<in> ran R" using e by (auto intro: ranI)
  have nf: "e \<noteq> first" "R q = Some (Second c) \<Longrightarrow> q \<noteq> e" for q c using e D(2) by auto
  show ?thesis
  proof (rule idx_relI)
    show "R first = Some First" "inj_on R (dom R)" by (fact D)+
    show "0 \<le> q" if "R q = Some r" for q r by (rule D(4) [OF that])
    show "R (dir_slot (the ((V(e \<mapsto> d)) first)) c) = Some (Second c)"
      if "slot_ok c" "dir_slot (the ((V(e \<mapsto> d)) first)) c \<noteq> - 1" for c
      using that D(6) [of c] nf(1) by simp
    show "R (dir_slot (the ((V(e \<mapsto> d)) q)) u) = Some (Third c u)"
      if "R q = Some (Second c)" "slot_ok u" "dir_slot (the ((V(e \<mapsto> d)) q)) u \<noteq> - 1" for q c u
      using that D(8) [of q c u] nf(2) [of q c] by simp
    show "dom R \<subseteq> dom (V(e \<mapsto> d))" using D(1) by auto
    show "Second c \<notin> ran R \<and> (\<forall>u. Third c u \<notin> ran R \<and> (rows((a, t) := rows (a, t) @ [bs])) (c, u) = [])"
      if "slot_ok c" "dir_slot (the ((V(e \<mapsto> d)) first)) c = - 1" for c
      using that D(5) [of c] nf(1) ran by auto
    show "Third c u \<notin> ran R \<and> (rows((a, t) := rows (a, t) @ [bs])) (c, u) = []"
      if "R q = Some (Second c)" "slot_ok u" "dir_slot (the ((V(e \<mapsto> d)) q)) u = - 1" for q c u
      using that D(7) [of q c u] nf(2) [of q c] ran by auto
    show "bucket_ok (get_tuple_size s) (the ((V(e \<mapsto> d)) q)) ((rows((a, t) := rows (a, t) @ [bs])) (c, u))" if "R q = Some (Third c u)" for q c u
    proof (cases "q = e")
      case True
      then show ?thesis using that d e by simp
    next
      case False
      then have "(c, u) \<noteq> (a, t)" using D(11) [OF that] e by blast
      then show ?thesis using D(9) [OF that] False by auto
    qed
  qed
qed


section \<open>Reading through the pool\<close>

text \<open>Fetching a page, reading it and giving it back leaves an idle pool with the same contents.\<close>

lemma fetch_read:
  assumes "pool_idle b" "pool_view b p = Some d"
    and "\<And>q. pg_id q = p \<Longrightarrow> payload (pg_data q) = d \<Longrightarrow> g q = Inr x"
  obtains f b1 b2 where "get_page b p = Inr (Some f, b1)" "reading b1 (Some f) g = Inr (x, b1)" "page_id_of b1 (Some f) = Inr p"
    "unpin_page b1 p False = Inr b2" "pool_idle b2" "pool_view b2 = pool_view b" "bp_pool b2 = bp_pool b"
proof -
  have h: "held b {}" using assms(1) held_empty by simp
  have room: "int (card {}) < bp_pool b" "p \<notin> {}" "p \<in> dom (pool_view b)" using heldD(4) [OF h] assms(2) by auto
  obtain f b1 where g: "get_page b p = Inr (Some f, b1)" "held b1 {p}" "pool_view b1 = pool_view b" "bp_pool b1 = bp_pool b"
      "bp_map b1 p = Some f" "saved b1 p"
    by (rule held_get [OF h finite.emptyI room]) (rule that, assumption+)
  have p: "p \<in> {p}" by simp
  have v: "pool_view b1 p = Some d" using g(3) assms(2) by simp
  note rd = held_reading [OF g(2) p g(5) v assms(3)]
  obtain b2 where u: "unpin_page b1 p False = Inr b2" "held b2 ({p} - {p})" "pool_view b2 = pool_view b1" "bp_pool b2 = bp_pool b1"
    by (rule held_unpin [OF g(2) p, of False]) (use g(6) in blast, rule that, assumption+)
  have "pg_id (frame_of b1 f) = p" using held_frame [OF g(2) p] g(5) by force
  then have "page_id_of b1 (Some f) = Inr p" using held_deref [OF g(2) p g(5)] by (simp add: page_id_of_def)
  moreover have "pool_idle b2" using u(2) held_empty by simp
  ultimately show thesis using that [OF g(1) rd _ u(1)] u(3,4) g(3,4) by simp
qed

lemma slot_lookup_spec:
  assumes "pool_idle b" "pool_view b p = Some d" "slot_ok i"
  obtains b' where "slot_lookup b p i = Inr (dir_slot d i, b')" "pool_idle b'" "pool_view b' = pool_view b" "bp_pool b' = bp_pool b"
proof -
  obtain f b1 b2 where F: "get_page b p = Inr (Some f, b1)" "reading b1 (Some f) (\<lambda>q. Inr (get_pgid_in_slot q i)) = Inr (dir_slot d i, b1)"
      "unpin_page b1 p False = Inr b2" "pool_idle b2" "pool_view b2 = pool_view b" "bp_pool b2 = bp_pool b"
    by (rule fetch_read [OF assms(1,2), where g = "\<lambda>q. Inr (get_pgid_in_slot q i)" and x = "dir_slot d i"]) (simp add: get_pgid_dir [OF assms(3)], blast)
  then show thesis by (intro that [of b2]) (simp_all add: slot_lookup_def bindR_simps)
qed

lemma dup_in_list_spec:
  assumes "pool_idle b" "pool_view b e = Some d" "wf_index s" "bucket_ok (get_tuple_size s) d xs" "0 \<le> e" "1 < n"
  obtains b' where "dup_in_list n junk b s key e = Inr (map_option (\<lambda>j. RID e (int j)) (find_key s key xs 0), b')"
    "pool_idle b'" "pool_view b' = pool_view b" "bp_pool b' = bp_pool b"
proof -
  obtain n' where n: "n = Suc (Suc n')" using assms(6) by (cases n; cases "n - 1") auto
  let ?x = "if xs = [] then Empty_page else case find_key s key xs 0 of Some j \<Rightarrow> Found_at (RID e (int j)) | None \<Rightarrow> Go_on INVALID_PAGE_ID"
  have G: "dup_page_step junk s key q = Inr ?x" if "pg_id q = e" "payload (pg_data q) = d" for q
    using dup_page_step_spec [OF assms(3,4) that(2), where junk = junk and key = key] assms(5) unfolding that(1) by simp
  obtain f b1 b2 where F: "get_page b e = Inr (Some f, b1)" "reading b1 (Some f) (dup_page_step junk s key) = Inr (?x, b1)"
      "page_id_of b1 (Some f) = Inr e" "unpin_page b1 e False = Inr b2" "pool_idle b2" "pool_view b2 = pool_view b" "bp_pool b2 = bp_pool b"
    by (rule fetch_read [OF assms(1,2), where g = "dup_page_step junk s key" and x = ?x]) (simp only: G, blast)
  have ne: "e \<noteq> INVALID_PAGE_ID" using assms(5) by (simp add: INVALID_PAGE_ID_def)
  have "dup_in_list n junk b s key e = Inr (map_option (\<lambda>j. RID e (int j)) (find_key s key xs 0), b2)"
  proof (cases "xs = []")
    case True
    then have "find_key s key xs 0 = None" by (simp add: find_key_def)
    then show ?thesis using F True ne by (simp add: n bindR_simps)
  next
    case False
    then show ?thesis using F ne by (cases "find_key s key xs 0") (simp_all add: n bindR_simps)
  qed
  then show thesis using that F(5-7) by blast
qed


section \<open>Searching a key\<close>

text \<open>Where the search ends: at the first row of the bucket with the key.\<close>

definition bucket_of :: "(int \<times> int \<Rightarrow> byte list list) \<Rightarrow> value \<Rightarrow> byte list list" where
  "bucket_of rows key = rows (hash_to_slot (get_hash_value key))"

definition located :: "schema \<Rightarrow> (int \<rightharpoonup> role) \<Rightarrow> (int \<times> int \<Rightarrow> byte list list) \<Rightarrow> value \<Rightarrow> rid option \<Rightarrow> bool" where
  "located s R rows key r \<longleftrightarrow>
    (case find_key s key (bucket_of rows key) 0 of
       None \<Rightarrow> r = None
     | Some j \<Rightarrow> \<exists>e. R e = Some (case_prod Third (hash_to_slot (get_hash_value key))) \<and> r = Some (RID e (int j)))"

lemma find_key_Nil [simp]: "find_key s key [] i = None"
  by (simp add: find_key_def)

lemma find_key_SomeD:
  assumes "find_key s key xs 0 = Some j"
  shows "j < length xs" "value_eq key (key_of s (xs ! j))"
  using assms by (auto simp: find_key_def find_Some_iff)

lemma find_key_None: "find_key s key xs 0 = None \<longleftrightarrow> (\<forall>bs \<in> set xs. \<not> value_eq key (key_of s bs))"
  by (auto simp: find_key_def find_None_iff) (metis in_set_conv_nth)

lemma check_duplicate_spec:
  assumes "pool_idle b" "idx_rel s (pool_view b) first R rows" "wf_index s" "1 < n"
  obtains r b' where "lk_ha_check_duplicate_key n junk b first key s = Inr (r, b')" "located s R rows key r"
    "pool_idle b'" "pool_view b' = pool_view b" "bp_pool b' = bp_pool b"
proof -
  note D = idx_relD [OF assms(2)]
  obtain a t where h: "hash_to_slot (get_hash_value key) = (a, t)" by fastforce
  have ok: "slot_ok a" "slot_ok t" using hash_to_slot_ok [OF h] by simp_all
  obtain n' where n: "n = Suc n'" using assms(4) by (cases n) auto
  obtain d1 where d1: "pool_view b first = Some d1" using D(10) [OF D(2)] by auto
  obtain b1 where s1: "slot_lookup b first a = Inr (dir_slot d1 a, b1)" "pool_idle b1" "pool_view b1 = pool_view b" "bp_pool b1 = bp_pool b"
    by (rule slot_lookup_spec [OF assms(1) d1 ok(1)])
  show thesis
  proof (cases "dir_slot d1 a = - 1")
    case True
    then have "located s R rows key None" using D(5) [OF ok(1)] d1 h by (simp add: located_def bucket_of_def)
    then show thesis using that [of None b1] s1 h True by (simp add: lk_ha_check_duplicate_key_def INVALID_PAGE_ID_def bindR_simps)
  next
    case False
    then have sec: "R (dir_slot d1 a) = Some (Second a)" using D(6) [OF ok(1)] d1 by simp
    then obtain d2 where d2: "pool_view b1 (dir_slot d1 a) = Some d2" using D(10) s1(3) by fastforce
    obtain b2 where s2: "slot_lookup b1 (dir_slot d1 a) t = Inr (dir_slot d2 t, b2)" "pool_idle b2" "pool_view b2 = pool_view b1" "bp_pool b2 = bp_pool b1"
      by (rule slot_lookup_spec [OF s1(2) d2 ok(2)])
    have code: "lk_ha_check_duplicate_key n junk b first key s = dup_in_list n junk b2 s key (dir_slot d2 t)"
      using s1(1) s2(1) h False by (simp add: lk_ha_check_duplicate_key_def INVALID_PAGE_ID_def bindR_simps)
    show thesis
    proof (cases "dir_slot d2 t = - 1")
      case True
      then have "located s R rows key None" using D(7) [OF sec ok(2)] d2 h s1(3) by (simp add: located_def bucket_of_def)
      then show thesis using that [of None b2] s1 s2 True code by (simp add: n INVALID_PAGE_ID_def)
    next
      case False
      then have th: "R (dir_slot d2 t) = Some (Third a t)" using D(8) [OF sec ok(2)] d2 s1(3) by simp
      then obtain d3 where d3: "pool_view b2 (dir_slot d2 t) = Some d3" using D(10) s1(3) s2(3) by fastforce
      have bk: "bucket_ok (get_tuple_size s) d3 (rows (a, t))" using D(9) [OF th] d3 s1(3) s2(3) by simp
      obtain b3 where s3: "dup_in_list n junk b2 s key (dir_slot d2 t) =
          Inr (map_option (\<lambda>j. RID (dir_slot d2 t) (int j)) (find_key s key (rows (a, t)) 0), b3)"
          "pool_idle b3" "pool_view b3 = pool_view b2" "bp_pool b3 = bp_pool b2"
        by (rule dup_in_list_spec [OF s2(2) d3 assms(3) bk D(4) [OF th] assms(4)])
      moreover have "located s R rows key (map_option (\<lambda>j. RID (dir_slot d2 t) (int j)) (find_key s key (rows (a, t)) 0))"
        using th h by (auto simp: located_def bucket_of_def split: option.splits)
      ultimately show thesis using that s1 s2 code by simp
    qed
  qed
qed

lemma lk_get_spec:
  assumes "pool_idle b" "idx_rel s (pool_view b) first R rows" "wf_index s" "1 < n"
  obtains r b' where
    "lk_ha_get_tuple n junk b first key t s = Inr (case find_key s key (bucket_of rows key) 0 of
       None \<Rightarrow> (TUPLE_NOT_FOUND, t, b')
     | Some j \<Rightarrow> (OP_SUCCESS, \<lparr>tp_allocated = True, tp_rid = r, tp_size = get_tuple_size s, tp_data = bucket_of rows key ! j\<rparr>, b'))"
    "pool_idle b'" "pool_view b' = pool_view b" "bp_pool b' = bp_pool b"
proof -
  obtain r b1 where c: "lk_ha_check_duplicate_key n junk b first key s = Inr (r, b1)" "located s R rows key r"
      "pool_idle b1" "pool_view b1 = pool_view b" "bp_pool b1 = bp_pool b"
    by (rule check_duplicate_spec [OF assms])
  show thesis
  proof (cases "find_key s key (bucket_of rows key) 0")
    case None
    then show thesis using that [where b' = b1] c by (simp add: located_def lk_ha_get_tuple_def bindR_simps)
  next
    case (Some j)
    obtain a u where h: "hash_to_slot (get_hash_value key) = (a, u)" by fastforce
    obtain e where e: "R e = Some (Third a u)" "r = Some (RID e (int j))" using c(2) Some h by (auto simp: located_def)
    note D = idx_relD [OF assms(2)]
    obtain d where d: "pool_view b1 e = Some d" using D(10) [OF e(1)] c(4) by auto
    have bk: "bucket_ok (get_tuple_size s) d (bucket_of rows key)" using D(9) [OF e(1)] d c(4) h by (simp add: bucket_of_def)
    let ?t = "\<lparr>tp_allocated = True, tp_rid = RID e (int j), tp_size = get_tuple_size s, tp_data = bucket_of rows key ! j\<rparr>"
    have G: "get_tuple q t (RID e (int j)) = Inr (True, ?t)" if "pg_id q = e" "payload (pg_data q) = d" for q
      by (rule bucket_get [OF bk that(2) find_key_SomeD(1) [OF Some]]) (simp add: RID_def)
    obtain f b2 b3 where F: "get_page b1 e = Inr (Some f, b2)" "reading b2 (Some f) (\<lambda>q. get_tuple q t (RID e (int j))) = Inr ((True, ?t), b2)"
        "unpin_page b2 e False = Inr b3" "pool_idle b3" "pool_view b3 = pool_view b1" "bp_pool b3 = bp_pool b1"
      by (rule fetch_read [OF c(3) d, where g = "\<lambda>q. get_tuple q t (RID e (int j))" and x = "(True, ?t)"]) (simp only: G, blast)
    show thesis using that [where r = "RID e (int j)" and b' = b3] c(1,4,5) F Some e(2)
      by (simp add: lk_ha_get_tuple_def bindR_simps RID_def)
  qed
qed


section \<open>Inserting a row\<close>

lemma descend_old:
  assumes "held b {p}" "bp_map b p = Some f" "pool_view b p = Some d" "slot_ok i" "dir_slot d i = q" "q \<noteq> - 1" "q \<noteq> p"
    "q \<in> dom (pool_view b)" "saved b p" "2 \<le> bp_pool b"
  obtains f' b' where "descend b (Some f) p i g = Inr (Some f', q, b')" "held b' {q}" "bp_map b' q = Some f'" "saved b' q"
    "pool_view b' = pool_view b" "bp_pool b' = bp_pool b"
proof -
  have rd: "reading b (Some f) (\<lambda>p. Inr (get_pgid_in_slot p i)) = Inr (q, b)"
    using get_pgid_dir [OF assms(4)] assms(5) by (intro held_reading [OF assms(1) _ assms(2,3)]) simp_all
  have side: "finite {p}" "int (card {p}) < bp_pool b" "q \<notin> {p}" using assms(7,10) by simp_all
  obtain f' b1 where g: "get_page b q = Inr (Some f', b1)" "held b1 (insert q {p})" "pool_view b1 = pool_view b" "bp_pool b1 = bp_pool b"
      "bp_map b1 q = Some f'" "\<And>x. saved b x \<Longrightarrow> saved b1 x" "saved b1 q"
    by (rule held_get [OF assms(1) side assms(8)]) blast
  have pin: "p \<in> insert q {p}" "False \<or> saved b1 p" using g(6) assms(9) by simp_all
  obtain b2 where u: "unpin_page b1 p False = Inr b2" "held b2 (insert q {p} - {p})" "pool_view b2 = pool_view b1" "bp_map b2 = bp_map b1"
      "bp_pool b2 = bp_pool b1" "\<And>x. saved b1 x \<Longrightarrow> saved b2 x"
    by (rule held_unpin [OF g(2) pin]) blast
  have "insert q {p} - {p} = {q}" using assms(7) by auto
  moreover have "descend b (Some f) p i g = Inr (Some f', q, b2)"
    using rd g(1) u(1) assms(6) by (simp add: descend_def INVALID_PAGE_ID_def bindR_simps)
  ultimately show thesis using that [of f' b2] u g by simp
qed

lemma descend_new:
  assumes "held b {p}" "bp_map b p = Some f" "pool_view b p = Some d" "slot_ok i" "dir_slot d i = - 1"
    "2 \<le> bp_pool b" "card (dom (pool_view b)) < PAGE_LIMIT"
    and init: "\<And>q. init q = q\<lparr>pg_data := pg_data (init q)\<rparr>" "\<And>q. pg_data (init q) STATUS_OFFSET = pg_data q STATUS_OFFSET"
  obtains f' n x d' b' where "descend b (Some f) p i init = Inr (Some f', n, b')" "held b' {n}" "bp_map b' n = Some f'" "0 \<le> n"
    "n \<notin> dom (pool_view b)" "pool_view b' = (pool_view b)(n \<mapsto> payload (pg_data (init x)), p \<mapsto> d')"
    "\<And>j. slot_ok j \<Longrightarrow> dir_slot d' j = (if j = i then n else dir_slot d j)" "bp_pool b' = bp_pool b"
proof -
  have rd: "reading b (Some f) (\<lambda>p. Inr (get_pgid_in_slot p i)) = Inr (- 1, b)"
    using get_pgid_dir [OF assms(4)] assms(5) by (intro held_reading [OF assms(1) _ assms(2,3)]) simp_all
  have side: "finite {p}" "int (card {p}) < bp_pool b" using assms(6) by simp_all
  obtain f' n e b1 where N: "new_page b = Inr (f', b1)" "n \<notin> dom (pool_view b)" "0 \<le> n" "n < int PAGE_LIMIT" "pg_id (frame_of b1 f') = n"
      "held b1 (insert n {p})" "bp_map b1 n = Some f'" "pool_view b1 = (pool_view b)(n \<mapsto> e)" "bp_pool b1 = bp_pool b"
      "\<And>q. q \<in> {p} \<Longrightarrow> bp_map b1 q = bp_map b q"
    by (rule held_new [OF assms(1) side assms(7)]) blast
  have np: "n \<noteq> p" using N(2) assms(3) by auto
  have in32: "in32 n" using N(3,4) by (simp add: in32_def PAGE_LIMIT_def)
  have n1: "n \<in> insert n {p}" by simp
  have id: "page_id_of b1 (Some f') = Inr n" using held_deref [OF N(6) n1 N(7)] N(5) by (simp add: page_id_of_def)
  let ?x = "frame_of b1 f'"
  have st: "pg_data (init ?x) STATUS_OFFSET = STATUS_EXIST" using init(2) held_frame [OF N(6) n1] N(7) by (metis option.inject)
  have ed: "edit_page b1 (Some f') (\<lambda>p. Inr (init p)) = Inr (write_frame b1 f' (pg_data (init ?x)))" (is "_ = Inr ?b2")
    using init(1) by (intro held_edit [OF N(6) n1 N(7)]) simp
  note W = held_write [where m = "pg_data (init ?x)", OF N(6) n1 N(7) st]
  have p1: "p \<in> insert n {p}" and m2: "bp_map ?b2 p = Some f" using W(3) N(10) assms(2) by simp_all
  have v2: "pool_view ?b2 p = Some d" using W(2) N(8) np assms(3) by simp
  let ?y = "pg_data (set_pgid_in_slot (frame_of ?b2 f) i n)"
  have wr: "writing ?b2 (Some f) (\<lambda>p. Inr ((), set_pgid_in_slot p i n)) = Inr ((), write_frame ?b2 f ?y)" (is "_ = Inr (_, ?b3)")
    by (rule held_writing [OF W(1) p1 m2]) (simp add: set_pgid_in_slot_def)
  have fr: "payload (pg_data (frame_of ?b2 f)) = d" "pg_data (frame_of ?b2 f) STATUS_OFFSET = STATUS_EXIST"
    using held_frame [OF W(1) p1] m2 v2 by (metis option.inject option.sel)+
  have sy: "?y STATUS_OFFSET = STATUS_EXIST" using fr(2) dir_ops_frame(4) by simp
  note Y = held_write [where m = ?y, OF W(1) p1 m2 sy]
  obtain b4 where u: "unpin_page ?b3 p True = Inr b4" "held b4 (insert n {p} - {p})" "pool_view b4 = pool_view ?b3" "bp_map b4 = bp_map ?b3"
      "bp_pool b4 = bp_pool ?b3"
    using held_unpin [OF Y(1) p1, of True] by blast
  have "insert n {p} - {p} = {n}" using np by auto
  moreover have "descend b (Some f) p i init = Inr (Some f', n, b4)"
    using rd N(1) id ed wr u(1) by (simp add: descend_def INVALID_PAGE_ID_def bindR_simps)
  moreover have "dir_slot (payload ?y) j = (if j = i then n else dir_slot d j)" if "slot_ok j" for j
    using set_pgid_dir [OF assms(4) that in32] fr(1) by simp
  moreover have "pool_view b4 = (pool_view b)(n \<mapsto> payload (pg_data (init ?x)), p \<mapsto> payload ?y)" using u(3) Y(2) W(2) N(8) by simp
  ultimately show thesis using that [of f' n b4 ?x "payload ?y"] u N Y W by simp
qed

lemma insert_in_list_spec:
  assumes "held b {e}" "bp_map b e = Some f" "pool_view b e = Some d" "bucket_ok sz d xs" "tuple_ok sz t"
    "int (length xs) < get_tp_num_capacity sz" "0 < n"
  obtains d' b' where "bindR (lock_page b (Some f)) (\<lambda>b. insert_in_list n b (Some f) e t) = Inr (RID e (int (length xs)), b')"
    "pool_idle b'" "pool_view b' = (pool_view b)(e \<mapsto> d')" "bucket_ok sz d' (xs @ [tp_data t])" "bp_pool b' = bp_pool b"
proof -
  obtain n' where n: "n = Suc n'" using assms(7) by (cases n) auto
  have e: "e \<in> {e}" by simp
  have F: "nat f < length (bp_pages b)" "pg_id (frame_of b f) = e" "pg_latch (frame_of b f) = new_latch" "payload (pg_data (frame_of b f)) = d"
      "pg_data (frame_of b f) STATUS_OFFSET = STATUS_EXIST" "0 \<le> f"
    using held_frame [OF assms(1) e] assms(2,3) by (metis option.inject option.sel)+
  let ?lk = "\<lparr>reader_count = 0, writer_entered = True\<rparr>"
  let ?q = "(frame_of b f)\<lparr>pg_latch := ?lk\<rparr>"
  have "payload (pg_data ?q) = d" using F(4) by simp
  then obtain m where I: "insert_tuple ?q t = Inr (Some (RID (pg_id ?q) (int (length xs))), ?q\<lparr>pg_data := m\<rparr>)"
      "bucket_ok sz (payload m) (xs @ [tp_data t])" "m STATUS_OFFSET = pg_data ?q STATUS_OFFSET"
    by (rule bucket_insert [OF assms(4) _ assms(5,6)])
  have lk: "page_w_lock (frame_of b f) = Inr ?q" using F(3) by (simp add: page_w_lock_new)
  have un: "page_w_unlock (?q\<lparr>pg_data := m\<rparr>) = (frame_of b f)\<lparr>pg_data := m\<rparr>"
    using F(3) by (simp add: page_w_unlock_def)
  have st: "m STATUS_OFFSET = STATUS_EXIST" using I(3) F(5) by simp
  note W = held_write [where m = m, OF assms(1) e assms(2) st]
  obtain b2 where u: "unpin_page (write_frame b f m) e True = Inr b2" "held b2 ({e} - {e})" "pool_view b2 = pool_view (write_frame b f m)"
      "bp_pool b2 = bp_pool (write_frame b f m)"
    using held_unpin [OF W(1) e, of True] by blast
  have "bindR (lock_page b (Some f)) (\<lambda>b. insert_in_list n b (Some f) e t) = Inr (RID e (int (length xs)), b2)"
    using held_deref [OF assms(1) e assms(2)] lk I(1) un u(1) F(1,2,6)
    by (simp add: n lock_page_def edit_page_def at_page_def unlock_page_def bindR_simps write_frame_def deref_def)
  moreover have "pool_idle b2" using u(2) held_empty by simp
  ultimately show thesis using that [of b2 "payload m"] u W I(2) by simp
qed


text \<open>What the index does to the pool: pages join it, and the pages of others keep their contents.\<close>

definition grown :: "bpm \<Rightarrow> (int \<rightharpoonup> role) \<Rightarrow> bpm \<Rightarrow> (int \<rightharpoonup> role) \<Rightarrow> nat \<Rightarrow> bool" where
  "grown b R b' R' k \<longleftrightarrow> bp_pool b' = bp_pool b \<and> card (dom (pool_view b')) \<le> card (dom (pool_view b)) + k \<and>
    pool_view b' |` (- dom R') = pool_view b |` (- dom R)"

lemma grown_trans: "grown b R b1 R1 j \<Longrightarrow> grown b1 R1 b2 R2 k \<Longrightarrow> grown b R b2 R2 (j + k)"
  by (simp add: grown_def)

lemma grown_same: "pool_view b' = pool_view b \<Longrightarrow> bp_pool b' = bp_pool b \<Longrightarrow> grown b R b' R k"
  by (simp add: grown_def)

lemma grown_page:
  assumes "pool_view b' = (pool_view b)(n \<mapsto> x, p \<mapsto> y)" "p \<in> dom R" "p \<in> dom (pool_view b)" "n \<notin> dom (pool_view b)" "bp_pool b' = bp_pool b"
  shows "grown b R b' (R(n \<mapsto> r)) 1"
proof -
  have "dom (pool_view b') = insert n (dom (pool_view b))" using assms(1,3) by auto
  then have "card (dom (pool_view b')) \<le> card (dom (pool_view b)) + 1" by (simp add: card_insert_le_m1 card_insert_if)
  moreover have "(pool_view b' |` (- dom (R(n \<mapsto> r)))) q = (pool_view b |` (- dom R)) q" for q
    using assms(1,2,4) by (cases "q = n") (auto simp: restrict_map_def)
  ultimately show ?thesis using assms(5) unfolding grown_def by blast
qed

lemma grown_row:
  assumes "pool_view b' = (pool_view b)(e \<mapsto> x)" "e \<in> dom R" "e \<in> dom (pool_view b)" "bp_pool b' = bp_pool b"
  shows "grown b R b' R 0"
proof -
  have "dom (pool_view b') = dom (pool_view b)" using assms(1,3) by auto
  moreover have "(pool_view b' |` (- dom R)) q = (pool_view b |` (- dom R)) q" for q
    using assms(1,2) by (auto simp: restrict_map_def)
  ultimately show ?thesis using assms(4) unfolding grown_def by fastforce
qed

text \<open>A directory page on the way down: its pin is held, and it is unsaved only when it is new, with every slot empty.\<close>

definition dir_held :: "bpm \<Rightarrow> int \<Rightarrow> int \<Rightarrow> bool" where
  "dir_held b p f \<longleftrightarrow> held b {p} \<and> bp_map b p = Some f \<and>
    (saved b p \<or> (\<forall>j. slot_ok j \<longrightarrow> dir_slot (the (pool_view b p)) j = - 1))"

lemma reach_second:
  assumes rel: "idx_rel s (pool_view b) first R rows" and h: "dir_held b first f" and a: "slot_ok a"
    and room: "2 \<le> bp_pool b" "card (dom (pool_view b)) < PAGE_LIMIT"
  obtains f' q R' b' where "descend b (Some f) first a link_hash_page_init = Inr (Some f', q, b')" "dir_held b' q f'"
    "idx_rel s (pool_view b') first R' rows" "R' q = Some (Second a)" "grown b R b' R' 1"
proof -
  note D = idx_relD [OF rel]
  have H: "held b {first}" "bp_map b first = Some f" using h by (simp_all add: dir_held_def)
  obtain d where d: "pool_view b first = Some d" using D(10) [OF D(2)] by auto
  have fR: "first \<in> dom R" using D(2) by auto
  show thesis
  proof (cases "dir_slot d a = - 1")
    case True
    obtain f' n x d' b' where N: "descend b (Some f) first a link_hash_page_init = Inr (Some f', n, b')" "held b' {n}" "bp_map b' n = Some f'" "0 \<le> n"
        "n \<notin> dom (pool_view b)" "pool_view b' = (pool_view b)(n \<mapsto> payload (pg_data (link_hash_page_init x)), first \<mapsto> d')"
        "\<And>j. slot_ok j \<Longrightarrow> dir_slot d' j = (if j = a then n else dir_slot d j)" "bp_pool b' = bp_pool b"
      by (rule descend_new [OF H d a True room dir_ops_frame(1,3)]) blast
    have "n \<noteq> first" using N(5) d by auto
    then have "dir_held b' n f'" using N(2,3,6) link_hash_page_init_dir by (simp add: dir_held_def)
    moreover have "idx_rel s (pool_view b') first (R(n \<mapsto> Second a)) rows"
      unfolding N(6) using True d N(4,5,7) link_hash_page_init_dir by (intro idx_new_second [OF rel a]) simp_all
    moreover have "grown b R b' (R(n \<mapsto> Second a)) 1" by (rule grown_page [OF N(6) fR _ N(5,8)]) (use d in auto)
    ultimately show thesis using that [OF N(1)] by simp
  next
    case False
    then have sec: "R (dir_slot d a) = Some (Second a)" using D(6) [OF a] d by simp
    have ne: "dir_slot d a \<noteq> first" using sec D(2) by auto
    have sv: "saved b first" using h a d False by (auto simp: dir_held_def)
    obtain f' b' where O: "descend b (Some f) first a link_hash_page_init = Inr (Some f', dir_slot d a, b')" "held b' {dir_slot d a}"
        "bp_map b' (dir_slot d a) = Some f'" "saved b' (dir_slot d a)" "pool_view b' = pool_view b" "bp_pool b' = bp_pool b"
      by (rule descend_old [OF H d a refl False ne D(10) [OF sec] sv room(1)])
    show thesis using that [OF O(1) _ _ sec grown_same [OF O(5,6)]] O rel by (simp add: dir_held_def)
  qed
qed

lemma reach_third:
  assumes rel: "idx_rel s (pool_view b) first R rows" and h: "dir_held b q f" and q: "R q = Some (Second a)" and t: "slot_ok t"
    and room: "2 \<le> bp_pool b" "card (dom (pool_view b)) < PAGE_LIMIT" and sz: "0 < get_tuple_size s" "get_tuple_size s < 2147483648"
  obtains f' e R' b' where "descend b (Some f) q t (\<lambda>p. table_page_init p INVALID_PAGE_ID INVALID_PAGE_ID) = Inr (Some f', e, b')"
    "held b' {e}" "bp_map b' e = Some f'" "idx_rel s (pool_view b') first R' rows" "R' e = Some (Third a t)" "grown b R b' R' 1"
proof -
  let ?init = "\<lambda>p. table_page_init p INVALID_PAGE_ID INVALID_PAGE_ID"
  note D = idx_relD [OF rel]
  have H: "held b {q}" "bp_map b q = Some f" using h by (simp_all add: dir_held_def)
  obtain d where d: "pool_view b q = Some d" using D(10) [OF q] by auto
  show thesis
  proof (cases "dir_slot d t = - 1")
    case True
    obtain f' n x d' b' where N: "descend b (Some f) q t ?init = Inr (Some f', n, b')" "held b' {n}" "bp_map b' n = Some f'" "0 \<le> n"
        "n \<notin> dom (pool_view b)" "pool_view b' = (pool_view b)(n \<mapsto> payload (pg_data (?init x)), q \<mapsto> d')"
        "\<And>j. slot_ok j \<Longrightarrow> dir_slot d' j = (if j = t then n else dir_slot d j)" "bp_pool b' = bp_pool b"
      by (rule descend_new [where init = ?init, OF H d t True room table_page_init_frame]) blast
    have "idx_rel s (pool_view b') first (R(n \<mapsto> Third a t)) rows"
      unfolding N(6) using True d N(4,5,7) bucket_init [OF sz] by (intro idx_new_third [OF rel q t]) simp_all
    moreover have "grown b R b' (R(n \<mapsto> Third a t)) 1" by (rule grown_page [OF N(6) _ _ N(5,8)]) (use d q in auto)
    ultimately show thesis using that [OF N(1-3)] by simp
  next
    case False
    then have th: "R (dir_slot d t) = Some (Third a t)" using D(8) [OF q t] d by simp
    have ne: "dir_slot d t \<noteq> q" using th q by auto
    have sv: "saved b q" using h t d False by (auto simp: dir_held_def)
    obtain f' b' where O: "descend b (Some f) q t ?init = Inr (Some f', dir_slot d t, b')" "held b' {dir_slot d t}"
        "bp_map b' (dir_slot d t) = Some f'" "saved b' (dir_slot d t)" "pool_view b' = pool_view b" "bp_pool b' = bp_pool b"
      by (rule descend_old [OF H d t refl False ne D(10) [OF th] sv room(1)])
    show thesis using that [OF O(1-3) _ th grown_same [OF O(5,6)]] O rel by simp
  qed
qed


text \<open>The way from the first page to the bucket, whose page is pinned at the end.\<close>

lemma reach_bucket:
  assumes idle: "pool_idle b" and rel: "idx_rel s (pool_view b) first R rows" and wf: "wf_index s" and ok: "slot_ok a" "slot_ok u"
    and room: "2 \<le> bp_pool b" "card (dom (pool_view b)) + 2 \<le> PAGE_LIMIT"
  obtains f b1 f' q b2 f'' e R' b' where "get_page b first = Inr (Some f, b1)"
    "descend b1 (Some f) first a link_hash_page_init = Inr (Some f', q, b2)"
    "descend b2 (Some f') q u (\<lambda>p. table_page_init p INVALID_PAGE_ID INVALID_PAGE_ID) = Inr (Some f'', e, b')"
    "held b' {e}" "bp_map b' e = Some f''" "idx_rel s (pool_view b') first R' rows" "R' e = Some (Third a u)" "grown b R b' R' 2"
proof -
  have sz: "0 < get_tuple_size s" "get_tuple_size s < 2147483648" using wf by (simp_all add: wf_index_def)
  have h1: "held b {}" "first \<notin> {}" "int (card {}) < bp_pool b" "first \<in> dom (pool_view b)"
    using idle held_empty room idx_relD(10) [OF rel idx_relD(2) [OF rel]] by auto
  obtain f b1 where g: "get_page b first = Inr (Some f, b1)" "held b1 {first}" "pool_view b1 = pool_view b" "bp_pool b1 = bp_pool b"
      "bp_map b1 first = Some f" "saved b1 first"
    by (rule held_get [OF h1(1) finite.emptyI h1(3,2,4)]) blast
  have s1: "idx_rel s (pool_view b1) first R rows" "dir_held b1 first f" "2 \<le> bp_pool b1" "card (dom (pool_view b1)) < PAGE_LIMIT"
    using g rel room by (simp_all add: dir_held_def)
  obtain f' q R1 b2 where S: "descend b1 (Some f) first a link_hash_page_init = Inr (Some f', q, b2)" "dir_held b2 q f'"
      "idx_rel s (pool_view b2) first R1 rows" "R1 q = Some (Second a)" "grown b1 R b2 R1 1"
    by (rule reach_second [OF s1(1,2) ok(1) s1(3,4)])
  have s2: "2 \<le> bp_pool b2" "card (dom (pool_view b2)) < PAGE_LIMIT" using S(5) g room by (simp_all add: grown_def)
  obtain f'' e R2 b3 where T: "descend b2 (Some f') q u (\<lambda>p. table_page_init p INVALID_PAGE_ID INVALID_PAGE_ID) = Inr (Some f'', e, b3)"
      "held b3 {e}" "bp_map b3 e = Some f''" "idx_rel s (pool_view b3) first R2 rows" "R2 e = Some (Third a u)" "grown b2 R1 b3 R2 1"
    by (rule reach_third [OF S(3,2,4) ok(2) s2 sz])
  from grown_trans [OF grown_trans [OF grown_same [where k = 0] S(5)] T(6)]
  have "grown b R b3 R2 2" using g(3,4) by (simp add: numeral_2_eq_2)
  then show thesis using that [OF g(1) S(1) T(1-5)] by blast
qed

lemma insert_tuple_new:
  assumes idle: "pool_idle b" and rel: "idx_rel s (pool_view b) first R rows" and wf: "wf_index s" and n: "1 < n"
    and room: "2 \<le> bp_pool b" "card (dom (pool_view b)) + 2 \<le> PAGE_LIMIT" and t: "tuple_of s t"
    and slot: "hash_to_slot (get_hash_value (key_of s (tp_data t))) = p"
    and cap: "int (length (rows p)) < get_tp_num_capacity (get_tuple_size s)"
    and new: "find_key s (key_of s (tp_data t)) (rows p) 0 = None"
  obtains r R' b' where "lk_ha_insert_tuple n junk b first t s = Inr (OP_SUCCESS, t\<lparr>tp_rid := r\<rparr>, b')" "pool_idle b'"
    "idx_rel s (pool_view b') first R' (rows(p := rows p @ [tp_data t]))" "grown b R b' R' 2"
proof -
  let ?k = "key_of s (tp_data t)"
  obtain a u where p: "p = (a, u)" by fastforce
  have ok: "slot_ok a" "slot_ok u" using hash_to_slot_ok slot p by blast+
  obtain x b1 where c: "lk_ha_check_duplicate_key n junk b first ?k s = Inr (x, b1)" "located s R rows ?k x"
      "pool_idle b1" "pool_view b1 = pool_view b" "bp_pool b1 = bp_pool b"
    by (rule check_duplicate_spec [OF idle rel wf n])
  have x: "x = None" using c(2) new slot by (simp add: located_def bucket_of_def)
  have s1: "idx_rel s (pool_view b1) first R rows" "2 \<le> bp_pool b1" "card (dom (pool_view b1)) + 2 \<le> PAGE_LIMIT"
    using rel room c(4,5) by simp_all
  obtain f b2 f' q b3 f'' e R' b4 where T: "get_page b1 first = Inr (Some f, b2)"
      "descend b2 (Some f) first a link_hash_page_init = Inr (Some f', q, b3)"
      "descend b3 (Some f') q u (\<lambda>p. table_page_init p INVALID_PAGE_ID INVALID_PAGE_ID) = Inr (Some f'', e, b4)"
      "held b4 {e}" "bp_map b4 e = Some f''" "idx_rel s (pool_view b4) first R' rows" "R' e = Some (Third a u)" "grown b1 R b4 R' 2"
    by (rule reach_bucket [OF c(3) s1(1) wf ok s1(2,3)])
  obtain d where d: "pool_view b4 e = Some d" using idx_relD(10) [OF T(6,7)] by auto
  have bk: "bucket_ok (get_tuple_size s) d (rows (a, u))" using idx_relD(9) [OF T(6,7)] d by simp
  have side: "tuple_ok (get_tuple_size s) t" "int (length (rows (a, u))) < get_tp_num_capacity (get_tuple_size s)" "0 < n"
    using t cap p n by (simp_all add: tuple_ok_def tuple_of_def)
  obtain d' b5 where I: "bindR (lock_page b4 (Some f'')) (\<lambda>b. insert_in_list n b (Some f'') e t) = Inr (RID e (int (length (rows (a, u)))), b5)"
      "pool_idle b5" "pool_view b5 = (pool_view b4)(e \<mapsto> d')" "bucket_ok (get_tuple_size s) d' (rows (a, u) @ [tp_data t])" "bp_pool b5 = bp_pool b4"
    by (rule insert_in_list_spec [OF T(4,5) d bk side])
  have "lk_ha_insert_tuple n junk b first t s = Inr (OP_SUCCESS, t\<lparr>tp_rid := RID e (int (length (rows (a, u))))\<rparr>, b5)"
    using key_of_get [OF wf t] c(1) x slot p T(1-3) I(1) by (auto simp: lk_ha_insert_tuple_def bindR_simps bindR_eq_Inr)
  moreover have "idx_rel s (pool_view b5) first R' (rows(p := rows p @ [tp_data t]))"
    unfolding I(3) p by (rule idx_insert_row [OF T(6,7) I(4) ok])
  moreover have "grown b R b5 R' 2"
    using grown_trans [OF T(8) grown_row [OF I(3) _ _ I(5), of R']] T(7) d c(4,5) by (auto simp: grown_def)
  ultimately show thesis using that I(2) by blast
qed

lemma insert_tuple_dup:
  assumes "pool_idle b" "idx_rel s (pool_view b) first R rows" "wf_index s" "1 < n" "tuple_of s t"
    "find_key s (key_of s (tp_data t)) (bucket_of rows (key_of s (tp_data t))) 0 \<noteq> None"
  obtains b' where "lk_ha_insert_tuple n junk b first t s = Inr (DUP_KEY, t, b')" "pool_idle b'" "pool_view b' = pool_view b"
    "bp_pool b' = bp_pool b"
proof -
  obtain x b1 where c: "lk_ha_check_duplicate_key n junk b first (key_of s (tp_data t)) s = Inr (x, b1)"
      "located s R rows (key_of s (tp_data t)) x" "pool_idle b1" "pool_view b1 = pool_view b" "bp_pool b1 = bp_pool b"
    by (rule check_duplicate_spec [OF assms(1-4)])
  have "x \<noteq> None" using c(2) assms(6) by (auto simp: located_def)
  then show thesis using that [of b1] c key_of_get [OF assms(3,5)] by (simp add: lk_ha_insert_tuple_def bindR_simps)
qed

end
