(* ===== verification/Table.thy ===== *)
theory Table
  imports Link_Hash
begin

text \<open>
  \<^verbatim>\<open>Table\<close>, \<^verbatim>\<open>TableIterator\<close> and \<^verbatim>\<open>LinkHashTableIter\<close> of \<^verbatim>\<open>src/src/table\<close>.  A table is the id of its first
  page; the six function pointers of the class always hold the functions of the link hash index, because
  the constructor switches on the constant \<^verbatim>\<open>LINK_HASH\<close>.  The buffer pool the object points to is passed
  along.
\<close>

section \<open>Tables\<close>

definition LINK_HASH :: int where [config_defs]: "LINK_HASH = 1"
definition BP_TREE :: int where [config_defs]: "BP_TREE = 2"

record table =
  first_table_page_id :: int
  tb_latch :: rwlatch
  index_type :: int

definition Table :: "bpm \<Rightarrow> int \<Rightarrow> bool \<Rightarrow> (table \<times> bpm) result" where
  "Table b first_pid scratch =
    (let t = \<lparr>first_table_page_id = first_pid, tb_latch = new_latch, index_type = LINK_HASH\<rparr>
     in if \<not> scratch then Inr (t, b)
        else bindR (get_page b first_pid) (\<lambda>(pg, b).
          if pg = None then Inl ExitProcess
          else bindR (edit_page b pg (\<lambda>p. Inr (link_hash_page_init p))) (\<lambda>b.
               bindR (unpin_page b first_pid True) (\<lambda>b. Inr (t, b)))))"

text \<open>
  \<^verbatim>\<open>delete_all_data\<close> follows the "next page" field from the first page, which is a directory page and has
  no such field.  The ids collected are a \<^verbatim>\<open>std::set\<close>, walked in ascending order.
\<close>

fun collect_pages :: "nat \<Rightarrow> bpm \<Rightarrow> int \<Rightarrow> int list \<Rightarrow> (int list option \<times> bpm) result" where
  "collect_pages 0 b pid acc = Inl OutOfFuel"
| "collect_pages (Suc n) b pid acc =
     (if pid = - 1 then Inr (Some acc, b)
      else let acc = insort_insert pid acc
           in bindR (get_page b pid) (\<lambda>(pg, b).
                if pg = None then Inr (None, b)
                else bindR (unpin_page b pid False) (\<lambda>b.
                     bindR (deref b pg) (\<lambda>p. collect_pages n b (get_next_page_id p) acc))))"

fun delete_pages :: "bpm \<Rightarrow> int list \<Rightarrow> bpm result" where
  "delete_pages b [] = Inr b"
| "delete_pages b (pid # pids) = bindR (delete_page b pid) (\<lambda>(_, b). delete_pages b pids)"

definition delete_all_data :: "nat \<Rightarrow> bpm \<Rightarrow> table \<Rightarrow> bpm result" where
  "delete_all_data n b tb =
    bindR (collect_pages n b (first_table_page_id tb) []) (\<lambda>(pids, b).
      case pids of None \<Rightarrow> Inr b | Some pids \<Rightarrow> delete_pages b pids)"

definition tb_mark_delete :: "nat \<Rightarrow> junk \<Rightarrow> bpm \<Rightarrow> table \<Rightarrow> value \<Rightarrow> schema \<Rightarrow> (bool \<times> bpm) result" where
  "tb_mark_delete n junk b tb key s =
    bindR (lk_ha_mark_delete n junk b (first_table_page_id tb) key s) (\<lambda>(code, b). Inr (code = OP_SUCCESS, b))"

definition tb_mark_delete_rid :: "bpm \<Rightarrow> table \<Rightarrow> rid \<Rightarrow> (bool \<times> bpm) result" where
  "tb_mark_delete_rid b tb rid =
    (let pid = rid_page rid
     in if pid < 0 then Inr (False, b)
        else bindR (get_page b pid) (\<lambda>(pg, b).
             bindR (writing b pg (\<lambda>p. mark_delete p rid)) (\<lambda>(ok, b).
             bindR (unpin_page b pid True) (\<lambda>b. Inr (ok, b)))))"

definition tb_get_tuple_rid :: "bpm \<Rightarrow> table \<Rightarrow> tuple \<Rightarrow> rid \<Rightarrow> (bool \<times> tuple \<times> bpm) result" where
  "tb_get_tuple_rid b tb t rid =
    bindR (get_tuple_directly b rid t) (\<lambda>(code, t, b). Inr (code = OP_SUCCESS, t, b))"

definition tb_get_tuple ::
  "nat \<Rightarrow> junk \<Rightarrow> bpm \<Rightarrow> table \<Rightarrow> value \<Rightarrow> tuple \<Rightarrow> schema \<Rightarrow> (bool \<times> tuple \<times> bpm) result" where
  "tb_get_tuple n junk b tb key t s =
    bindR (lk_ha_get_tuple n junk b (first_table_page_id tb) key t s) (\<lambda>(code, t, b).
      Inr (code = OP_SUCCESS, t, b))"

definition tb_apply_delete :: "nat \<Rightarrow> junk \<Rightarrow> bpm \<Rightarrow> table \<Rightarrow> value \<Rightarrow> schema \<Rightarrow> bpm result" where
  "tb_apply_delete n junk b tb key s =
    bindR (tb_get_tuple n junk b tb key Tuple_default s) (\<lambda>(ok, t, b).
      if \<not> ok then Inr b else lk_ha_apply_delete n junk b (first_table_page_id tb) key s)"

definition tb_apply_delete_rid :: "bpm \<Rightarrow> table \<Rightarrow> rid \<Rightarrow> bpm result" where
  "tb_apply_delete_rid b tb rid =
    (let pid = rid_page rid
     in if pid < 0 then Inr b
        else bindR (get_page b pid) (\<lambda>(pg, b).
             if pg = None then Inr b
             else bindR (writing b pg (\<lambda>p. bindR (apply_delete p rid) (\<lambda>p. Inr ((), p)))) (\<lambda>(_, b).
                  unpin_page b pid True)))"

definition tb_rollback_delete :: "bpm \<Rightarrow> table \<Rightarrow> value \<Rightarrow> schema \<Rightarrow> bpm" where
  "tb_rollback_delete b tb key s = lk_ha_rollback_delete b (first_table_page_id tb) key s"

definition tb_rollback_delete_rid :: "bpm \<Rightarrow> table \<Rightarrow> rid \<Rightarrow> bpm result" where
  "tb_rollback_delete_rid b tb rid =
    (let pid = rid_page rid
     in if pid < 0 then Inr b
        else bindR (get_page b pid) (\<lambda>(pg, b).
             bindR (writing b pg (\<lambda>p. bindR (rollback_delete p rid) (\<lambda>p. Inr ((), p)))) (\<lambda>(_, b).
               unpin_page b pid True)))"

definition tb_insert_tuple ::
  "nat \<Rightarrow> junk \<Rightarrow> bpm \<Rightarrow> table \<Rightarrow> tuple \<Rightarrow> schema \<Rightarrow> (bool \<times> tuple \<times> bpm) result" where
  "tb_insert_tuple n junk b tb t s =
    bindR (lk_ha_insert_tuple n junk b (first_table_page_id tb) t s) (\<lambda>(code, t, b).
      Inr (code = OP_SUCCESS, t, b))"

definition tb_update_tuple ::
  "nat \<Rightarrow> junk \<Rightarrow> bpm \<Rightarrow> table \<Rightarrow> tuple \<Rightarrow> rid \<Rightarrow> schema \<Rightarrow> (bool \<times> tuple \<times> bpm) result" where
  "tb_update_tuple n junk b tb new_tuple old_rid s =
    bindR (lk_ha_update_tuple n junk b (first_table_page_id tb) new_tuple old_rid s) (\<lambda>(code, t, b).
      Inr (code = OP_SUCCESS, t, b))"


section \<open>The iterator along a list of table pages\<close>

text \<open>A \<^verbatim>\<open>TableIterator\<close> is its table and the tuple it stands on.\<close>

record table_iterator =
  ti_table :: table
  ti_tuple :: tuple

definition TableIterator :: "bpm \<Rightarrow> table \<Rightarrow> rid \<Rightarrow> (table_iterator \<times> bpm) result" where
  "TableIterator b tb rid =
    (if rid_page rid \<noteq> INVALID_PAGE_ID
     then bindR (tb_get_tuple_rid b tb Tuple_default rid) (\<lambda>(ok, t, b).
            Inr (\<lparr>ti_table = tb, ti_tuple = (if ok then t else t\<lparr>tp_rid := invalid_rid\<rparr>)\<rparr>, b))
     else Inr (\<lparr>ti_table = tb, ti_tuple = Tuple_default\<rparr>, b))"

definition TableIterator_begin :: "table \<Rightarrow> table_iterator" where
  "TableIterator_begin tb = \<lparr>ti_table = tb, ti_tuple = Tuple_default\<rparr>"

fun ti_loop :: "nat \<Rightarrow> bpm \<Rightarrow> int option \<Rightarrow> rid \<Rightarrow> tuple \<Rightarrow> (tuple \<times> bpm) result" where
  "ti_loop 0 b pg cur t = Inl OutOfFuel"
| "ti_loop (Suc n) b pg cur t =
     bindR (deref b pg) (\<lambda>p. bindR (get_next_tuple_rid p cur invalid_rid) (\<lambda>(more, rid).
       if more
       then bindR (get_tuple p t rid) (\<lambda>(_, t).
            bindR (r_unlock_page b pg) (\<lambda>b. bindR (page_id_of b pg) (\<lambda>pid.
            bindR (unpin_page b pid False) (\<lambda>b. Inr (t, b)))))
       else let next_pid = get_next_page_id p
            in bindR (r_unlock_page b pg) (\<lambda>b. bindR (page_id_of b pg) (\<lambda>pid.
               bindR (unpin_page b pid False) (\<lambda>b.
                 if next_pid = INVALID_PAGE_ID then Inr (t\<lparr>tp_rid := invalid_rid\<rparr>, b)
                 else bindR (get_page b next_pid) (\<lambda>(pg, b).
                      bindR (r_lock_page b pg) (\<lambda>b. bindR (page_id_of b pg) (\<lambda>pid.
                        ti_loop n b pg (RID pid (- 1)) t))))))))"

definition ti_next :: "nat \<Rightarrow> bpm \<Rightarrow> table_iterator \<Rightarrow> (table_iterator \<times> bpm) result" where
  "ti_next n b it =
    bindR (get_page b (rid_page (tp_rid (ti_tuple it)))) (\<lambda>(pg, b).
      if pg = None then Inr (it, b)
      else bindR (r_lock_page b pg) (\<lambda>b.
           bindR (ti_loop n b pg (tp_rid (ti_tuple it)) (ti_tuple it)) (\<lambda>(t, b).
             Inr (it\<lparr>ti_tuple := t\<rparr>, b))))"

text \<open>The postfix operator returns the iterator as it was.\<close>

definition ti_next_post :: "nat \<Rightarrow> bpm \<Rightarrow> table_iterator \<Rightarrow> (table_iterator \<times> table_iterator \<times> bpm) result" where
  "ti_next_post n b it = bindR (ti_next n b it) (\<lambda>(it', b). Inr (it, it', b))"


section \<open>The iterator over a whole table\<close>

record lk_ha_iter =
  it_first_page_id :: int
  it_tuple :: tuple
  it_slot1 :: int
  it_slot2 :: int

text \<open>
  The do-while loops over the slots of a directory page: the next slot that holds a page id, or the
  number of slots.
\<close>

function next_slot :: "page \<Rightarrow> int \<Rightarrow> int \<times> int" where
  "next_slot p slot =
    (let slot = slot + 1; pid = get_pgid_in_slot p slot
     in if slot < LK_HA_PG_SLOT_NUM \<and> pid = INVALID_PAGE_ID then next_slot p slot else (slot, pid))"
  by auto
termination by (relation "measure (\<lambda>(p, slot). nat (LK_HA_PG_SLOT_NUM - slot))") auto

declare next_slot.simps [simp del]

text \<open>
  The loop of the constructor over the first level.  A second level page stays pinned, also when it
  holds no list; the members \<^verbatim>\<open>slot1_num_\<close> and \<^verbatim>\<open>slot2_num_\<close> are set when a list is found.
\<close>

fun iter_first :: "junk \<Rightarrow> bpm \<Rightarrow> page \<Rightarrow> int list \<Rightarrow> tuple \<Rightarrow> ((tuple \<times> int \<times> int) option \<times> bpm) result" where
  "iter_first junk b level1 [] t = Inr (None, b)"
| "iter_first junk b level1 (slot1 # rest) t =
     (let sec_pid = get_pgid_in_slot level1 slot1
      in if sec_pid = INVALID_PAGE_ID then iter_first junk b level1 rest t
         else bindR (get_page b sec_pid) (\<lambda>(level2, b).
              bindR (reading b level2 (\<lambda>p. Inr (next_slot p (- 1)))) (\<lambda>((slot2, pid), b).
                if pid \<noteq> INVALID_PAGE_ID
                then bindR (get_page b pid) (\<lambda>(pg, b).
                     bindR (writing b pg (\<lambda>p. bindR (get_the_first_tuple junk p t) (\<lambda>r. Inr (r, p)))) (\<lambda>((ok, t), b).
                       if \<not> ok then Inl ExitProcess
                       else bindR (unpin_page b pid False) (\<lambda>b. Inr (Some (t, slot1, slot2), b))))
                else iter_first junk b level1 rest t)))"

definition LinkHashTableIter :: "junk \<Rightarrow> int \<Rightarrow> bpm \<Rightarrow> int \<Rightarrow> (lk_ha_iter \<times> bpm) result" where
  "LinkHashTableIter junk slot2_0 b first_page_id =
    bindR (get_page b first_page_id) (\<lambda>(pg, b).
    bindR (r_lock_page b pg) (\<lambda>b.
    bindR (deref b pg) (\<lambda>level1.
    bindR (iter_first junk b level1 [0..LK_HA_PG_SLOT_NUM - 1] Tuple_default) (\<lambda>(r, b).
    bindR (r_unlock_page b pg) (\<lambda>b.
      case r of
        Some (t, slot1, slot2) \<Rightarrow>
          Inr (\<lparr>it_first_page_id = first_page_id, it_tuple = t, it_slot1 = slot1, it_slot2 = slot2\<rparr>, b)
      | None \<Rightarrow>
          Inr (\<lparr>it_first_page_id = first_page_id, it_tuple = Tuple_default\<lparr>tp_rid := invalid_rid\<rparr>,
               it_slot1 = INVALID_SLOT_NUM, it_slot2 = slot2_0\<rparr>, b))))))"

text \<open>
  The three nested loops of \<^verbatim>\<open>operator++\<close>.  The innermost one follows a list of table pages; on the page
  the iterator stands on the tuple behind the current one is asked for, on every other page the first one.
  After a failed \<^verbatim>\<open>get_next_tuple_rid\<close> the code still calls \<^verbatim>\<open>get_tuple\<close> with the invalid id.
\<close>

definition next_in_page :: "junk \<Rightarrow> rid \<Rightarrow> tuple \<Rightarrow> page \<Rightarrow> (bool \<times> tuple) result" where
  "next_in_page junk cur t p =
    (if rid_page cur = pg_id p
     then bindR (get_next_tuple_rid p cur invalid_rid) (\<lambda>(ok, rid).
          bindR (get_tuple p t rid) (\<lambda>(_, t). Inr (ok, t)))
     else get_the_first_tuple junk p t)"

fun iter_list :: "nat \<Rightarrow> junk \<Rightarrow> bpm \<Rightarrow> int \<Rightarrow> rid \<Rightarrow> tuple \<Rightarrow> (bool \<times> tuple \<times> bpm) result" where
  "iter_list 0 junk b pid cur t = Inl OutOfFuel"
| "iter_list (Suc n) junk b pid cur t =
     bindR (get_page b pid) (\<lambda>(pg, b).
     bindR (writing b pg (\<lambda>p. bindR (next_in_page junk cur t p) (\<lambda>r. Inr (r, p)))) (\<lambda>((ok, t), b).
     bindR (unpin_page b pid False) (\<lambda>b.
       if ok then Inr (True, t, b)
       else bindR (deref b pg) (\<lambda>p.
            let pid = get_next_page_id p
            in if pid \<noteq> INVALID_PAGE_ID then iter_list n junk b pid cur t else Inr (False, t, b)))))"

fun iter_level2 ::
  "nat \<Rightarrow> junk \<Rightarrow> bpm \<Rightarrow> int option \<Rightarrow> int \<Rightarrow> int \<Rightarrow> rid \<Rightarrow> tuple \<Rightarrow> (int option \<times> tuple \<times> bpm) result" where
  "iter_level2 0 junk b level2 slot2 pid cur t = Inl OutOfFuel"
| "iter_level2 (Suc n) junk b level2 slot2 pid cur t =
     (if pid = INVALID_PAGE_ID then Inr (None, t, b)
      else bindR (iter_list n junk b pid cur t) (\<lambda>(ok, t, b).
        if ok then Inr (Some slot2, t, b)
        else bindR (deref b level2) (\<lambda>p.
             let (slot2, pid) = next_slot p slot2
             in if slot2 < LK_HA_PG_SLOT_NUM then iter_level2 n junk b level2 slot2 pid cur t
                else Inr (None, t, b))))"

fun iter_level1 ::
  "nat \<Rightarrow> junk \<Rightarrow> bpm \<Rightarrow> int option \<Rightarrow> int \<Rightarrow> int \<Rightarrow> int \<Rightarrow> int \<Rightarrow> rid \<Rightarrow> tuple \<Rightarrow>
   ((int \<times> int) option \<times> tuple \<times> bpm) result" where
  "iter_level1 0 junk b level1 slot1 sec_pid slot2 pid cur t = Inl OutOfFuel"
| "iter_level1 (Suc n) junk b level1 slot1 sec_pid slot2 pid cur t =
     bindR (get_page b sec_pid) (\<lambda>(level2, b).
     bindR (r_lock_page b level2) (\<lambda>b. bindR (deref b level2) (\<lambda>p2.
     let (slot2, pid) = (if pid = INVALID_PAGE_ID \<and> slot2 < LK_HA_PG_SLOT_NUM then next_slot p2 slot2
                         else (slot2, pid))
     in bindR (iter_level2 n junk b level2 slot2 pid cur t) (\<lambda>(found, t, b).
        bindR (r_unlock_page b level2) (\<lambda>b. bindR (page_id_of b level2) (\<lambda>q.
        bindR (unpin_page b q False) (\<lambda>b.
          case found of
            Some slot2 \<Rightarrow> Inr (Some (slot1, slot2), t, b)
          | None \<Rightarrow>
              bindR (deref b level1) (\<lambda>p1.
              let (slot1, sec_pid) = next_slot p1 slot1
              in if slot1 < LK_HA_PG_SLOT_NUM
                 then iter_level1 n junk b level1 slot1 sec_pid (- 1) INVALID_PAGE_ID cur t
                 else Inr (None, t, b))))))))) "

definition lk_ha_iter_next :: "nat \<Rightarrow> junk \<Rightarrow> bpm \<Rightarrow> lk_ha_iter \<Rightarrow> (lk_ha_iter \<times> bpm) result" where
  "lk_ha_iter_next n junk b it =
    (let cur = tp_rid (it_tuple it); pid = rid_page cur
     in if pid = INVALID_PAGE_ID then Inr (it\<lparr>it_tuple := (it_tuple it)\<lparr>tp_rid := invalid_rid\<rparr>\<rparr>, b)
        else bindR (get_page b (it_first_page_id it)) (\<lambda>(level1, b).
             bindR (r_lock_page b level1) (\<lambda>b. bindR (deref b level1) (\<lambda>p1.
             bindR (iter_level1 n junk b level1 (it_slot1 it) (get_pgid_in_slot p1 (it_slot1 it)) (it_slot2 it)
                      pid cur (it_tuple it)) (\<lambda>(found, t, b).
             bindR (r_unlock_page b level1) (\<lambda>b.
             bindR (unpin_page b (it_first_page_id it) False) (\<lambda>b.
               case found of
                 Some (slot1, slot2) \<Rightarrow> Inr (it\<lparr>it_tuple := t, it_slot1 := slot1, it_slot2 := slot2\<rparr>, b)
               | None \<Rightarrow>
                   Inr (it\<lparr>it_tuple := t\<lparr>tp_rid := invalid_rid\<rparr>, it_slot1 := INVALID_SLOT_NUM,
                          it_slot2 := INVALID_SLOT_NUM\<rparr>, b))))))))"

end
