(* ===== verification/Link_Hash_Map.thy ===== *)
theory Link_Hash_Map
  imports Index_Tree Table
begin

text \<open>
  A table as a map from keys to rows: as long as no bucket outgrows its first page, every sequence of insertions and
  lookups on a new table answers as the map does, over a buffer pool of two frames or more.
\<close>

section \<open>Keyed tables\<close>

datatype ('t, 'k) row_op = Put_row 't | Get_row 'k

datatype 'row row_answer = Put_done bool | Got_row "'row option"

fun row_run :: "('st \<Rightarrow> 't \<Rightarrow> (bool \<times> 'st) result) \<Rightarrow> ('st \<Rightarrow> 'k \<Rightarrow> ('row option \<times> 'st) result) \<Rightarrow> 'st \<Rightarrow>
    ('t, 'k) row_op list \<Rightarrow> ('row row_answer list \<times> 'st) result" where
  "row_run put get st [] = Inr ([], st)"
| "row_run put get st (Put_row t # ops) =
     bindR (put st t) (\<lambda>(ok, st). bindR (row_run put get st ops) (\<lambda>(as, st). Inr (Put_done ok # as, st)))"
| "row_run put get st (Get_row k # ops) =
     bindR (get st k) (\<lambda>(r, st). bindR (row_run put get st ops) (\<lambda>(as, st). Inr (Got_row r # as, st)))"

text \<open>The same operations on a map: a row whose key is there is refused.\<close>

fun map_run :: "('t \<Rightarrow> 'k) \<Rightarrow> ('t \<Rightarrow> 'row) \<Rightarrow> ('k \<rightharpoonup> 'row) \<Rightarrow> ('t, 'k) row_op list \<Rightarrow> 'row row_answer list" where
  "map_run key row M [] = []"
| "map_run key row M (Put_row t # ops) =
     Put_done (M (key t) = None) # map_run key row (if M (key t) = None then M(key t \<mapsto> row t) else M) ops"
| "map_run key row M (Get_row k # ops) = Got_row (M k) # map_run key row M ops"

fun put_keys :: "('t \<Rightarrow> 'k) \<Rightarrow> ('t, 'k) row_op list \<Rightarrow> 'k list" where
  "put_keys key [] = []"
| "put_keys key (Put_row t # ops) = key t # put_keys key ops"
| "put_keys key (Get_row k # ops) = put_keys key ops"

fun row_op_ok :: "('t \<Rightarrow> bool) \<Rightarrow> ('k \<Rightarrow> bool) \<Rightarrow> ('t, 'k) row_op \<Rightarrow> bool" where
  "row_op_ok okt okk (Put_row t) = okt t"
| "row_op_ok okt okk (Get_row k) = okk k"

text \<open>
  The contract of a keyed table: \<open>rep\<close> relates its state to a map, \<open>room\<close> is the number of rows for which there are
  pages, and \<open>fits\<close> are the sets of keys it can hold.
\<close>

locale keyed_table =
  fixes rep :: "'st \<Rightarrow> ('k \<rightharpoonup> 'row) \<Rightarrow> bool"
    and room :: "'st \<Rightarrow> nat"
    and fits :: "'k set \<Rightarrow> bool"
    and okt :: "'t \<Rightarrow> bool"
    and okk :: "'k \<Rightarrow> bool"
    and key :: "'t \<Rightarrow> 'k"
    and row :: "'t \<Rightarrow> 'row"
    and put :: "'st \<Rightarrow> 't \<Rightarrow> (bool \<times> 'st) result"
    and get :: "'st \<Rightarrow> 'k \<Rightarrow> ('row option \<times> 'st) result"
  assumes put_new: "rep st M \<Longrightarrow> okt t \<Longrightarrow> M (key t) = None \<Longrightarrow> 0 < room st \<Longrightarrow> fits (insert (key t) (dom M)) \<Longrightarrow>
      \<exists>st'. put st t = Inr (True, st') \<and> rep st' (M(key t \<mapsto> row t)) \<and> room st \<le> Suc (room st')"
    and put_dup: "rep st M \<Longrightarrow> okt t \<Longrightarrow> M (key t) = Some r \<Longrightarrow> \<exists>st'. put st t = Inr (False, st') \<and> rep st' M \<and> room st' = room st"
    and get_row: "rep st M \<Longrightarrow> okk k \<Longrightarrow> \<exists>st'. get st k = Inr (M k, st') \<and> rep st' M \<and> room st' = room st"
    and fits_less: "fits K \<Longrightarrow> K' \<subseteq> K \<Longrightarrow> fits K'"
begin

lemma run_refines:
  "rep st M \<Longrightarrow> list_all (row_op_ok okt okk) ops \<Longrightarrow> length (put_keys key ops) \<le> room st \<Longrightarrow>
    fits (dom M \<union> set (put_keys key ops)) \<Longrightarrow>
    \<exists>st' M'. row_run put get st ops = Inr (map_run key row M ops, st') \<and> rep st' M'"
proof (induction ops arbitrary: st M)
  case (Cons x ops)
  show ?case
  proof (cases x)
    case (Get_row k)
    then obtain st1 where g: "get st k = Inr (M k, st1)" "rep st1 M" "room st1 = room st" using get_row Cons.prems by fastforce
    from Cons.IH [OF g(2)] Cons.prems g(3) Get_row
    obtain st' M' where "row_run put get st1 ops = Inr (map_run key row M ops, st')" "rep st' M'" by auto
    then show ?thesis using g(1) Get_row by (auto simp: bindR_simps)
  next
    case (Put_row t)
    let ?M = "if M (key t) = None then M(key t \<mapsto> row t) else M"
    have "fits (insert (key t) (dom M))" by (rule fits_less [OF Cons.prems(4)]) (use Put_row in auto)
    then obtain st1 where p: "put st t = Inr (M (key t) = None, st1)" "rep st1 ?M" "room st \<le> Suc (room st1)"
      using put_new [OF Cons.prems(1), of t] put_dup [OF Cons.prems(1), of t] Cons.prems(2,3) Put_row
      by (cases "M (key t)") fastforce+
    have "fits (dom ?M \<union> set (put_keys key ops))" by (rule fits_less [OF Cons.prems(4)]) (use Put_row in auto)
    with Cons.IH [OF p(2)] Cons.prems p(3) Put_row
    obtain st' M' where "row_run put get st1 ops = Inr (map_run key row ?M ops, st')" "rep st' M'" by auto
    then show ?thesis using p(1) Put_row by (auto simp: bindR_simps)
  qed
qed auto

end


section \<open>The rows of the index as a map\<close>

definition rows_rep :: "schema \<Rightarrow> (int \<times> int \<Rightarrow> byte list list) \<Rightarrow> (value \<rightharpoonup> byte list) \<Rightarrow> bool" where
  "rows_rep s rows M \<longleftrightarrow>
    (\<forall>p. distinct (map (key_of s) (rows p)) \<and>
      (\<forall>bs \<in> set (rows p). int (length bs) = get_tuple_size s \<and> hash_to_slot (get_hash_value (key_of s bs)) = p)) \<and>
    (\<forall>k. M k = map_of (map (\<lambda>bs. (key_of s bs, bs)) (bucket_of rows k)) k)"

lemma rows_repD:
  assumes "rows_rep s rows M"
  shows "distinct (map (key_of s) (rows p))" "\<And>bs. bs \<in> set (rows p) \<Longrightarrow> int (length bs) = get_tuple_size s"
    "\<And>bs. bs \<in> set (rows p) \<Longrightarrow> hash_to_slot (get_hash_value (key_of s bs)) = p"
    "M k = map_of (map (\<lambda>bs. (key_of s bs, bs)) (bucket_of rows k)) k"
  using assms unfolding rows_rep_def by blast+

lemma rows_rep_empty: "rows_rep s (\<lambda>_. []) Map.empty"
  by (simp add: rows_rep_def bucket_of_def)

lemma find_key_map:
  assumes "wf_index s" "valid_key s k" "rows_rep s rows M"
  shows "map_option ((!) (bucket_of rows k)) (find_key s k (bucket_of rows k) 0) = M k"
proof -
  let ?xs = "bucket_of rows k"
  have ok: "value_eq k (key_of s bs) \<longleftrightarrow> k = key_of s bs" if "bs \<in> set ?xs" for bs
    using value_eq_valid [OF assms(1,2), of "key_of s bs"] rows_repD(2) [OF assms(3)] that
    unfolding valid_key_def bucket_of_def by blast
  have d: "distinct (map fst (map (\<lambda>bs. (key_of s bs, bs)) ?xs))"
    using rows_repD(1) [OF assms(3)] by (simp add: bucket_of_def comp_def)
  show ?thesis
  proof (cases "find_key s k ?xs 0")
    case None
    then have "k \<notin> key_of s ` set ?xs" using ok by (auto simp: find_key_None)
    then have "map_of (map (\<lambda>bs. (key_of s bs, bs)) ?xs) k = None" by (auto simp: map_of_eq_None_iff)
    then show ?thesis using None rows_repD(4) [OF assms(3)] by simp
  next
    case (Some j)
    note S = find_key_SomeD [OF Some]
    then have "(k, ?xs ! j) \<in> set (map (\<lambda>bs. (key_of s bs, bs)) ?xs)" using ok [of "?xs ! j"] by auto
    then have "map_of (map (\<lambda>bs. (key_of s bs, bs)) ?xs) k = Some (?xs ! j)" using map_of_eq_Some_iff [OF d] by blast
    then show ?thesis using Some rows_repD(4) [OF assms(3), of k] by simp
  qed
qed

text \<open>The number of rows in a bucket is the number of keys that hash to it.\<close>

definition slot_keys :: "value set \<Rightarrow> int \<times> int \<Rightarrow> value set" where
  "slot_keys K p = {k \<in> K. hash_to_slot (get_hash_value k) = p}"

lemma slot_keys_rows:
  assumes "rows_rep s rows M"
  shows "slot_keys (dom M) p = key_of s ` set (rows p)" "card (slot_keys (dom M) p) = length (rows p)"
proof -
  have "k \<in> slot_keys (dom M) p \<longleftrightarrow> k \<in> key_of s ` set (rows p)" for k
    using rows_repD(3) [OF assms, of _ p] rows_repD(4) [OF assms, of k]
    by (auto simp: slot_keys_def bucket_of_def dom_def map_of_eq_Some_iff [symmetric] image_iff map_of_eq_None_iff
        dest: map_of_SomeD simp flip: not_None_eq)
  then show s: "slot_keys (dom M) p = key_of s ` set (rows p)" by blast
  show "card (slot_keys (dom M) p) = length (rows p)"
    unfolding s using rows_repD(1) [OF assms] distinct_card [of "map (key_of s) (rows p)"] by simp
qed

lemma rows_rep_insert:
  assumes "rows_rep s rows M" "int (length bs) = get_tuple_size s" "hash_to_slot (get_hash_value (key_of s bs)) = p" "M (key_of s bs) = None"
  shows "rows_rep s (rows(p := rows p @ [bs])) (M(key_of s bs \<mapsto> bs))"
proof -
  note D = rows_repD [OF assms(1)]
  have new: "key_of s bs \<notin> key_of s ` set (rows p)"
    using D(4) [of "key_of s bs", symmetric] assms(3,4) by (force simp: bucket_of_def map_of_eq_None_iff)
  have "(M(key_of s bs \<mapsto> bs)) k = map_of (map (\<lambda>bs. (key_of s bs, bs)) (bucket_of (rows(p := rows p @ [bs])) k)) k" for k
  proof (cases "hash_to_slot (get_hash_value k) = p")
    case True
    then show ?thesis using D(4) [of k] assms(3,4) by (auto simp: bucket_of_def map_add_def split: option.splits)
  next
    case False
    then show ?thesis using D(4) [of k] assms(3) by (auto simp: bucket_of_def)
  qed
  moreover have "distinct (map (key_of s) ((rows(p := rows p @ [bs])) q))" for q using D(1) new by simp
  ultimately show ?thesis using D(2,3) assms(2,3) unfolding rows_rep_def by auto
qed



section \<open>A table implements the map\<close>

text \<open>The state is the buffer pool; \<open>rest\<close> are the contents of the pages that belong to others.\<close>

definition table_rep :: "nat \<Rightarrow> schema \<Rightarrow> table \<Rightarrow> (int \<rightharpoonup> byte list) \<Rightarrow> bpm \<Rightarrow> (value \<rightharpoonup> byte list) \<Rightarrow> bool" where
  "table_rep n s tb rest b M \<longleftrightarrow> wf_index s \<and> 1 < n \<and> pool_idle b \<and> 2 \<le> bp_pool b \<and>
    (\<exists>R rows. idx_rel s (pool_view b) (first_table_page_id tb) R rows \<and> rows_rep s rows M \<and> pool_view b |` (- dom R) = rest)"

definition table_room :: "bpm \<Rightarrow> nat" where
  "table_room b = (PAGE_LIMIT - card (dom (pool_view b))) div 2"

text \<open>The keys of one bucket fit into one page.\<close>

definition keys_fit :: "schema \<Rightarrow> value set \<Rightarrow> bool" where
  "keys_fit s K \<longleftrightarrow> finite K \<and> (\<forall>p. int (card (slot_keys K p)) \<le> get_tp_num_capacity (get_tuple_size s))"

definition table_put :: "nat \<Rightarrow> junk \<Rightarrow> schema \<Rightarrow> table \<Rightarrow> bpm \<Rightarrow> tuple \<Rightarrow> (bool \<times> bpm) result" where
  "table_put n junk s tb b t = bindR (tb_insert_tuple n junk b tb t s) (\<lambda>(ok, _, b). Inr (ok, b))"

definition table_get :: "nat \<Rightarrow> junk \<Rightarrow> schema \<Rightarrow> table \<Rightarrow> bpm \<Rightarrow> value \<Rightarrow> (byte list option \<times> bpm) result" where
  "table_get n junk s tb b k =
    bindR (tb_get_tuple n junk b tb k Tuple_default s) (\<lambda>(ok, t, b). Inr (if ok then Some (tp_data t) else None, b))"

abbreviation tuple_key :: "schema \<Rightarrow> tuple \<Rightarrow> value" where
  "tuple_key s t \<equiv> key_of s (tp_data t)"

lemma tuple_key_valid: "tuple_of s t \<Longrightarrow> valid_key s (tuple_key s t)"
  by (auto simp: valid_key_def tuple_of_def)

lemma table_put_new:
  assumes "table_rep n s tb rest b M" "tuple_of s t" "M (tuple_key s t) = None" "0 < table_room b" "keys_fit s (insert (tuple_key s t) (dom M))"
  shows "\<exists>b'. table_put n junk s tb b t = Inr (True, b') \<and> table_rep n s tb rest b' (M(tuple_key s t \<mapsto> tp_data t)) \<and>
    table_room b \<le> Suc (table_room b')"
proof -
  obtain R rows where r: "wf_index s" "1 < n" "pool_idle b" "2 \<le> bp_pool b" "idx_rel s (pool_view b) (first_table_page_id tb) R rows"
      "rows_rep s rows M" "pool_view b |` (- dom R) = rest"
    using assms(1) unfolding table_rep_def by blast
  let ?p = "hash_to_slot (get_hash_value (tuple_key s t))"
  have nf: "find_key s (tuple_key s t) (rows ?p) 0 = None"
    using find_key_map [OF r(1) tuple_key_valid [OF assms(2)] r(6)] assms(3) by (simp add: bucket_of_def)
  have "slot_keys (insert (tuple_key s t) (dom M)) ?p = insert (tuple_key s t) (slot_keys (dom M) ?p)"
    "tuple_key s t \<notin> slot_keys (dom M) ?p" "finite (slot_keys (dom M) ?p)"
    using assms(3) slot_keys_rows(1) [OF r(6), of ?p] by (auto simp: slot_keys_def)
  then have "card (slot_keys (insert (tuple_key s t) (dom M)) ?p) = Suc (length (rows ?p))"
    using slot_keys_rows(2) [OF r(6), of ?p] by simp
  moreover have "int (card (slot_keys (insert (tuple_key s t) (dom M)) ?p)) \<le> get_tp_num_capacity (get_tuple_size s)"
    using assms(5) unfolding keys_fit_def by blast
  ultimately have cap: "int (length (rows ?p)) < get_tp_num_capacity (get_tuple_size s)" by simp
  have lim: "card (dom (pool_view b)) + 2 \<le> PAGE_LIMIT" using assms(4) by (simp add: table_room_def)
  obtain rd R' b' where I: "lk_ha_insert_tuple n junk b (first_table_page_id tb) t s = Inr (OP_SUCCESS, t\<lparr>tp_rid := rd\<rparr>, b')" "pool_idle b'"
      "idx_rel s (pool_view b') (first_table_page_id tb) R' (rows(?p := rows ?p @ [tp_data t]))" "grown b R b' R' 2"
    by (rule insert_tuple_new [OF r(3,5,1,2,4) lim assms(2) refl cap nf])
  have "table_put n junk s tb b t = Inr (True, b')" using I(1) by (simp add: table_put_def tb_insert_tuple_def bindR_simps)
  moreover have "table_rep n s tb rest b' (M(tuple_key s t \<mapsto> tp_data t))"
    using r I(2-4) rows_rep_insert [OF r(6) _ refl assms(3)] assms(2) unfolding table_rep_def grown_def tuple_of_def by metis
  moreover have "table_room b \<le> Suc (table_room b')" using I(4) by (auto simp: grown_def table_room_def)
  ultimately show ?thesis by blast
qed

lemma table_put_dup:
  assumes "table_rep n s tb rest b M" "tuple_of s t" "M (tuple_key s t) = Some r"
  shows "\<exists>b'. table_put n junk s tb b t = Inr (False, b') \<and> table_rep n s tb rest b' M \<and> table_room b' = table_room b"
proof -
  obtain R rows where r: "wf_index s" "1 < n" "pool_idle b" "2 \<le> bp_pool b" "idx_rel s (pool_view b) (first_table_page_id tb) R rows"
      "rows_rep s rows M" "pool_view b |` (- dom R) = rest"
    using assms(1) unfolding table_rep_def by blast
  have f: "find_key s (tuple_key s t) (bucket_of rows (tuple_key s t)) 0 \<noteq> None"
    using find_key_map [OF r(1) tuple_key_valid [OF assms(2)] r(6)] assms(3) by auto
  obtain b' where "lk_ha_insert_tuple n junk b (first_table_page_id tb) t s = Inr (DUP_KEY, t, b')" "pool_idle b'" "pool_view b' = pool_view b"
      "bp_pool b' = bp_pool b"
    by (rule insert_tuple_dup [OF r(3,5,1,2) assms(2) f])
  then show ?thesis using r
    by (auto simp: table_put_def tb_insert_tuple_def bindR_simps table_rep_def table_room_def config_defs)
qed

lemma table_get_row:
  assumes "table_rep n s tb rest b M" "valid_key s k"
  shows "\<exists>b'. table_get n junk s tb b k = Inr (M k, b') \<and> table_rep n s tb rest b' M \<and> table_room b' = table_room b"
proof -
  obtain R rows where r: "wf_index s" "1 < n" "pool_idle b" "2 \<le> bp_pool b" "idx_rel s (pool_view b) (first_table_page_id tb) R rows"
      "rows_rep s rows M" "pool_view b |` (- dom R) = rest"
    using assms(1) unfolding table_rep_def by blast
  note f = find_key_map [OF r(1) assms(2) r(6)]
  obtain rd b' where G: "lk_ha_get_tuple n junk b (first_table_page_id tb) k Tuple_default s = Inr (case find_key s k (bucket_of rows k) 0 of
       None \<Rightarrow> (TUPLE_NOT_FOUND, Tuple_default, b')
     | Some j \<Rightarrow> (OP_SUCCESS, \<lparr>tp_allocated = True, tp_rid = rd, tp_size = get_tuple_size s, tp_data = bucket_of rows k ! j\<rparr>, b'))"
      "pool_idle b'" "pool_view b' = pool_view b" "bp_pool b' = bp_pool b"
    by (rule lk_get_spec [OF r(3,5,1,2)])
  have "table_get n junk s tb b k = Inr (M k, b')"
    using G(1) f by (cases "find_key s k (bucket_of rows k) 0") (auto simp: table_get_def tb_get_tuple_def bindR_simps config_defs)
  then show ?thesis using G(2-4) r by (auto simp: table_rep_def table_room_def)
qed

interpretation tbl: keyed_table "table_rep n s tb rest" table_room "keys_fit s" "tuple_of s" "valid_key s" "tuple_key s" tp_data
  "table_put n junk s tb" "table_get n junk s tb" for n s tb rest junk
proof
  fix K K' :: "value set" assume K: "keys_fit s K" "K' \<subseteq> K"
  have "card (slot_keys K' p) \<le> card (slot_keys K p)" for p
    using K by (intro card_mono) (auto simp: slot_keys_def keys_fit_def)
  then show "keys_fit s K'" using K finite_subset unfolding keys_fit_def by (meson of_nat_le_iff order_trans)
qed (rule table_put_new table_put_dup table_get_row; assumption)+


lemma pool_page_pos: "pool_idle b \<Longrightarrow> p \<in> dom (pool_view b) \<Longrightarrow> 0 \<le> p"
  using dm_invD(11) [OF bp_coreD(1)] heldD(2) [of b "{}"] unfolding held_empty dom_pool_view by fastforce

text \<open>The pages of others keep their contents.\<close>

lemma table_rep_rest:
  assumes "table_rep n s tb rest b M" "rest q = Some d"
  shows "pool_view b q = Some d"
  using assms by (auto simp: table_rep_def restrict_map_def split: if_splits)

lemma Table_new:
  assumes "pool_idle b" "p \<in> dom (pool_view b)"
  obtains x b' where "Table b p True = Inr (\<lparr>first_table_page_id = p, tb_latch = new_latch, index_type = LINK_HASH\<rparr>, b')" "pool_idle b'"
    "pool_view b' = (pool_view b)(p \<mapsto> payload (pg_data (link_hash_page_init x)))" "bp_pool b' = bp_pool b"
proof -
  have h: "held b {}" "p \<notin> {}" "int (card {}) < bp_pool b" using assms(1) held_empty heldD(4) [of b "{}"] by auto
  obtain f b1 where g: "get_page b p = Inr (Some f, b1)" "held b1 {p}" "pool_view b1 = pool_view b" "bp_pool b1 = bp_pool b" "bp_map b1 p = Some f"
    by (rule held_get [OF h(1) finite.emptyI h(3,2) assms(2)]) blast
  have p: "p \<in> {p}" by simp
  let ?m = "pg_data (link_hash_page_init (frame_of b1 f))"
  have st: "?m STATUS_OFFSET = STATUS_EXIST" using held_frame [OF g(2) p] g(5) dir_ops_frame(3) by (metis option.inject)
  have ed: "edit_page b1 (Some f) (\<lambda>p. Inr (link_hash_page_init p)) = Inr (write_frame b1 f ?m)"
    using dir_ops_frame(1) by (intro held_edit [OF g(2) p g(5)]) simp
  note W = held_write [where m = ?m, OF g(2) p g(5) st]
  obtain b2 where u: "unpin_page (write_frame b1 f ?m) p True = Inr b2" "held b2 ({p} - {p})" "pool_view b2 = pool_view (write_frame b1 f ?m)"
      "bp_pool b2 = bp_pool (write_frame b1 f ?m)"
    using held_unpin [OF W(1) p, of True] by blast
  show thesis using that [of b2 "frame_of b1 f"] g(1,3,4) ed u W(2,4) held_empty by (simp add: Table_def bindR_simps)
qed

text \<open>A new table represents the empty map.\<close>

lemma table_start:
  assumes "pool_idle b" "2 \<le> bp_pool b" "p \<in> dom (pool_view b)" "wf_index s" "1 < n"
  obtains tb b' where "Table b p True = Inr (tb, b')" "table_rep n s tb (pool_view b |` (- {p})) b' Map.empty" "table_room b' = table_room b"
proof -
  let ?tb = "\<lparr>first_table_page_id = p, tb_latch = new_latch, index_type = LINK_HASH\<rparr>"
  obtain x b1 where T: "Table b p True = Inr (?tb, b1)" "pool_idle b1"
      "pool_view b1 = (pool_view b)(p \<mapsto> payload (pg_data (link_hash_page_init x)))" "bp_pool b1 = bp_pool b"
    by (rule Table_new [OF assms(1,3)])
  have p0: "0 \<le> p" using assms(1,3) by (rule pool_page_pos)
  have "idx_rel s (pool_view b1) p [p \<mapsto> First] (\<lambda>_. [])"
    by (rule idx_fresh [OF _ p0 link_hash_page_init_dir]) (simp_all add: T(3))
  then have "table_rep n s ?tb (pool_view b |` (- {p})) b1 Map.empty"
    using rows_rep_empty assms(2,4,5) T(2-4) unfolding table_rep_def
    by (intro conjI exI [of _ "[p \<mapsto> First]"] exI [of _ "\<lambda>_. []"]) (auto simp: restrict_map_def)
  moreover have "dom (pool_view b1) = dom (pool_view b)" using T(3) assms(3) by auto
  ultimately show thesis using that [OF T(1)] by (simp add: table_room_def)
qed

text \<open>A table of one integer column over a pool of two frames, for the examples.\<close>

abbreviation id_schema :: schema where
  "id_schema \<equiv> mk_Schema [Column_fixed kInteger ''id'' 0]"

abbreviation id_row :: "byte list \<Rightarrow> tuple" where
  "id_row bs \<equiv> \<lparr>tp_allocated = True, tp_rid = invalid_rid, tp_size = 4, tp_data = bs\<rparr>"

lemma id_schema_facts:
  "wf_index id_schema" "get_tuple_size id_schema = 4" "1 \<le> get_tp_num_capacity (get_tuple_size id_schema)"
  "key_of id_schema [5, 0, 0, 0] = VInteger 5" "key_of id_schema [6, 0, 0, 0] = VInteger 6"
  by code_simp+

lemma id_keys: "tuple_of id_schema (id_row [5, 0, 0, 0])" "valid_key id_schema (VInteger 5)" "valid_key id_schema (VInteger 6)"
proof -
  show "tuple_of id_schema (id_row [5, 0, 0, 0])" using id_schema_facts(2) by (simp add: tuple_of_def)
  show "valid_key id_schema (VInteger 5)" "valid_key id_schema (VInteger 6)" unfolding valid_key_def id_schema_facts(2)
    using id_schema_facts(4,5) by (intro exI [of _ "[5, 0, 0, 0]"] exI [of _ "[6, 0, 0, 0]"]; simp)+
qed

lemma id_keys_fit: "keys_fit id_schema {VInteger 5}"
proof -
  have "card (slot_keys {VInteger 5} p) \<le> 1" for p using card_mono [of "{VInteger 5}" "slot_keys {VInteger 5} p"] by (auto simp: slot_keys_def)
  then show ?thesis using id_schema_facts(3) unfolding keys_fit_def by (simp, meson le_trans of_nat_le_1_iff order_trans)
qed

lemma two_frame_pool:
  "\<exists>dm. DiskManager (\<lambda>_. None) (\<lambda>_. False) 7 (\<lambda>_. 0) (\<lambda>_. 0) ''t'' True = Inr dm \<and>
    pool_idle (BufferPoolManager 0 dm 2) \<and> bp_pool (BufferPoolManager 0 dm 2) = 2 \<and> dom (pool_view (BufferPoolManager 0 dm 2)) = {0}"
proof -
  obtain dm where dm: "DiskManager (\<lambda>_. None) (\<lambda>_. False) 7 (\<lambda>_. 0) (\<lambda>_. 0) ''t'' True = Inr dm" "dm_inv dm" "alloced_pgid dm = {0}"
      "disk_byte dm 0 STATUS_OFFSET = STATUS_EXIST"
    using fresh_disk by blast
  have st: "\<forall>p\<in>alloced_pgid dm. disk_byte dm p STATUS_OFFSET = STATUS_EXIST" using dm(3,4) by simp
  note P = pool_idle_new [OF dm(2) st, of 2 0]
  have "dom (pool_view (BufferPoolManager 0 dm 2)) = {0}" using dm(3) P(2) by (auto simp: dom_def)
  then show ?thesis using dm(1) P(1) by (auto simp: BufferPoolManager_def)
qed



text \<open>
  C31. \<^verbatim>\<open>lk_ha_mark_delete\<close> tests the result of the lookup the wrong way round: for a row that is there the table
  reports that it is marked for deletion, and marks nothing.  Lookups find the row as before.
\<close>

theorem mark_delete_marks_nothing:
  assumes "table_rep n s tb rest b M" "valid_key s k" "M k = Some r"
  shows "\<exists>b1 b2. tb_mark_delete n junk b tb k s = Inr (True, b1) \<and> pool_view b1 = pool_view b \<and>
    table_get n junk s tb b1 k = Inr (Some r, b2)"
proof -
  obtain R rows where t: "wf_index s" "1 < n" "pool_idle b" "2 \<le> bp_pool b" "idx_rel s (pool_view b) (first_table_page_id tb) R rows"
      "rows_rep s rows M" "pool_view b |` (- dom R) = rest"
    using assms(1) unfolding table_rep_def by blast
  obtain j where j: "find_key s k (bucket_of rows k) 0 = Some j" using find_key_map [OF t(1) assms(2) t(6)] assms(3) by auto
  obtain rd b1 where G: "lk_ha_get_tuple n junk b (first_table_page_id tb) k Tuple_default s = Inr (case find_key s k (bucket_of rows k) 0 of
       None \<Rightarrow> (TUPLE_NOT_FOUND, Tuple_default, b1)
     | Some j \<Rightarrow> (OP_SUCCESS, \<lparr>tp_allocated = True, tp_rid = rd, tp_size = get_tuple_size s, tp_data = bucket_of rows k ! j\<rparr>, b1))"
      "pool_idle b1" "pool_view b1 = pool_view b" "bp_pool b1 = bp_pool b"
    by (rule lk_get_spec [OF t(3,5,1,2)])
  have "table_rep n s tb rest b1 M" using t G(2-4) by (auto simp: table_rep_def)
  then obtain b2 where "table_get n junk s tb b1 k = Inr (Some r, b2)" using table_get_row [OF _ assms(2)] assms(3) by metis
  moreover have "tb_mark_delete n junk b tb k s = Inr (True, b1)"
    using G(1) j by (simp add: tb_mark_delete_def lk_ha_mark_delete_def bindR_simps config_defs)
  ultimately show ?thesis using G(3) by blast
qed


theorem mark_delete_marks_nothing_witness:
  "\<exists>tb b b1 b2. tb_mark_delete 2 (\<lambda>_ _. 9) b tb (VInteger 5) id_schema = Inr (True, b1) \<and>
    table_get 2 (\<lambda>_ _. 9) id_schema tb b1 (VInteger 5) = Inr (Some [5, 0, 0, 0], b2)"
proof -
  obtain b where b: "pool_idle b" "bp_pool b = 2" "dom (pool_view b) = {0}" using two_frame_pool by blast
  have side: "2 \<le> bp_pool b" "0 \<in> dom (pool_view b)" "1 < (2 :: nat)" using b(2,3) by simp_all
  obtain tb b1 where T: "table_rep 2 id_schema tb (pool_view b |` (- {0})) b1 Map.empty" "table_room b1 = table_room b"
    by (rule table_start [OF b(1) side(1,2) id_schema_facts(1) side(3)])
  have "0 < table_room b1" "keys_fit id_schema (insert (tuple_key id_schema (id_row [5, 0, 0, 0])) (dom Map.empty))"
    using T(2) b(3) id_keys_fit id_schema_facts(4) by (simp_all add: table_room_def PAGE_LIMIT_def)
  from table_put_new [OF T(1) id_keys(1) _ this]
  obtain b2 where "table_rep 2 id_schema tb (pool_view b |` (- {0})) b2 [VInteger 5 \<mapsto> [5, 0, 0, 0]]"
    using id_schema_facts(4) by auto
  from mark_delete_marks_nothing [OF this id_keys(2), of "[5, 0, 0, 0]" "\<lambda>_ _. 9"] show ?thesis by auto
qed

end
