(* ===== verification/Expressions.thy ===== *)
theory Expressions
  imports Schema_Tuple
begin

text \<open>
  The expressions of \<^verbatim>\<open>src/src/include/sql/expressions\<close>.  Evaluating an aggregate changes the value it
  accumulates, so \<^verbatim>\<open>evaluate\<close> returns the expression as well.  The calls \<^verbatim>\<open>CMP_EQ(type, ...)\<close> and
  \<^verbatim>\<open>ADD(type, ...)\<close> go to the singleton of the type of their left operand.
\<close>

datatype expr =
    AggregateExpression AggregationType int "value"
  | ColumnValueExpression int
  | ComparisonExpression "expr list" ComparisonType
  | ConstantExpression "value"

definition INT32_MAX :: int where [config_defs]: "INT32_MAX = 2147483647"
definition INT32_MIN :: int where [config_defs]: "INT32_MIN = - 2147483648"

definition new_AggregateExpression :: "AggregationType \<Rightarrow> int \<Rightarrow> expr" where
  "new_AggregateExpression t idx =
    AggregateExpression t idx
      (case t of
         kCountAggregate \<Rightarrow> VInteger 0
       | kSumAggregate \<Rightarrow> VInteger 0
       | kMinAggregate \<Rightarrow> VInteger INT32_MAX
       | kMaxAggregate \<Rightarrow> VInteger INT32_MIN)"

definition perform_aggregation :: "AggregationType \<Rightarrow> int \<Rightarrow> value \<Rightarrow> tuple \<Rightarrow> schema \<Rightarrow> value result" where
  "perform_aggregation t idx val tp s =
    (case t of
       kCountAggregate \<Rightarrow> value_incr val
     | kSumAggregate \<Rightarrow> bindR (get_value tp s idx) (\<lambda>v. value_add (get_type_id val) val v)
     | kMinAggregate \<Rightarrow> bindR (get_value tp s idx) (\<lambda>v.
         bindR (cmp_less (get_type_id val) v val) (\<lambda>r. Inr (if r = kTrue then v else val)))
     | kMaxAggregate \<Rightarrow> bindR (get_value tp s idx) (\<lambda>v.
         bindR (cmp_greater (get_type_id val) v val) (\<lambda>r. Inr (if r = kTrue then v else val))))"

definition perform_cmp :: "ComparisonType \<Rightarrow> value \<Rightarrow> value \<Rightarrow> CmpResult result" where
  "perform_cmp t lhs rhs =
    (case t of
       kEqual \<Rightarrow> cmp_eq (get_type_id lhs) lhs rhs
     | kNotEqual \<Rightarrow> cmp_not_eq (get_type_id lhs) lhs rhs
     | kLessThan \<Rightarrow> cmp_less (get_type_id lhs) lhs rhs
     | kLessThanOrEqual \<Rightarrow> cmp_less_and_eq (get_type_id lhs) lhs rhs
     | kGreaterThan \<Rightarrow> cmp_greater (get_type_id lhs) lhs rhs
     | kGreaterThanOrEqual \<Rightarrow> cmp_greater_and_eq (get_type_id lhs) lhs rhs)"

text \<open>A comparison reads the first two elements of its vector of children.\<close>

fun evaluate :: "expr \<Rightarrow> tuple \<Rightarrow> schema \<Rightarrow> (value \<times> expr) result" where
  "evaluate (AggregateExpression t idx val) tp s =
     bindR (perform_aggregation t idx val tp s) (\<lambda>val. Inr (val, AggregateExpression t idx val))"
| "evaluate (ColumnValueExpression idx) tp s =
     bindR (get_value tp s idx) (\<lambda>v. Inr (v, ColumnValueExpression idx))"
| "evaluate (ComparisonExpression (l # r # rest) t) tp s =
     bindR (evaluate l tp s) (\<lambda>(lhs, l). bindR (evaluate r tp s) (\<lambda>(rhs, r).
     bindR (perform_cmp t lhs rhs) (\<lambda>c. Inr (construct_cmp c, ComparisonExpression (l # r # rest) t))))"
| "evaluate (ComparisonExpression _ t) tp s = Inl UndefBehaviour"
| "evaluate (ConstantExpression v) tp s = Inr (v, ConstantExpression v)"

fun evaluate_all :: "expr list \<Rightarrow> tuple \<Rightarrow> schema \<Rightarrow> (value list \<times> expr list) result" where
  "evaluate_all [] tp s = Inr ([], [])"
| "evaluate_all (e # es) tp s =
     bindR (evaluate e tp s) (\<lambda>(v, e). bindR (evaluate_all es tp s) (\<lambda>(vs, es). Inr (v # vs, e # es)))"

end
