(* ===== verification/Executors.thy ===== *)
theory Executors
  imports Expressions Table
begin

text \<open>
  The executors of \<^verbatim>\<open>src/src/executors\<close>, a tree in which every node pulls tuples from the nodes below it
  with \<^verbatim>\<open>open\<close>, \<^verbatim>\<open>get_next\<close> and \<^verbatim>\<open>close\<close>.  A node is its class with its members; a call returns the tree as
  it is afterwards.  All loops share the fuel of the call.
\<close>

section \<open>The trees\<close>

record union_state =
  avail_tmp_page :: "int list"
  output_schema :: schema
  threshold_pages :: int
  in_mem_pages :: "int list"
  in_mem_idx :: nat
  left_child_tuple :: tuple
  right_child_tuple :: tuple
  pos :: rid
  next_pos :: rid
  inner_next :: bool

datatype executor =
    SeqScanExecutor table "lk_ha_iter option"
  | SelectionExecutor expr executor schema
  | ProjectionExecutor executor "expr list" tuple schema schema "expr list" bool "value list"
  | UnionExecutor executor executor schema schema union_state

definition new_SeqScanExecutor :: "table \<Rightarrow> executor" where
  "new_SeqScanExecutor tb = SeqScanExecutor tb None"

definition new_ProjectionExecutor :: "executor \<Rightarrow> expr list \<Rightarrow> schema \<Rightarrow> schema \<Rightarrow> executor" where
  "new_ProjectionExecutor child exprs input_s output_s =
    ProjectionExecutor child exprs Tuple_default input_s output_s [] False []"

text \<open>The first values of the aggregates; \<^verbatim>\<open>FATAL\<close> ends the process.\<close>

definition init_agg_min_val :: "TypeId \<Rightarrow> value result" where
  "init_agg_min_val t =
    (if t = kInteger then Inr (VInteger INT32_MAX)
     else if t = kDecimal then Inr (VDecimal (dbl_of_int INT32_MAX)) else Inl ExitProcess)"

definition init_agg_max_val :: "TypeId \<Rightarrow> value result" where
  "init_agg_max_val t =
    (if t = kInteger then Inr (VInteger INT32_MIN)
     else if t = kDecimal then Inr (VDecimal (dbl_of_int INT32_MIN)) else Inl ExitProcess)"

definition init_agg_sum_val :: "TypeId \<Rightarrow> value result" where
  "init_agg_sum_val t =
    (if t = kInteger then Inr (VInteger 0)
     else if t = kDecimal then Inr (VDecimal (dbl_of_int 0)) else Inl ExitProcess)"

definition init_agg_cnt_val :: "value" where
  "init_agg_cnt_val = VInteger 0"

fun init_agg_vals :: "AggregationType list \<Rightarrow> schema \<Rightarrow> int \<Rightarrow> value list result" where
  "init_agg_vals [] s i = Inr []"
| "init_agg_vals (t # ts) s i =
     bindR (get_column s i) (\<lambda>col.
     bindR (case t of
              kCountAggregate \<Rightarrow> Inr init_agg_cnt_val
            | kSumAggregate \<Rightarrow> init_agg_sum_val (col_type col)
            | kMinAggregate \<Rightarrow> init_agg_min_val (col_type col)
            | kMaxAggregate \<Rightarrow> init_agg_max_val (col_type col)) (\<lambda>v.
     bindR (init_agg_vals ts s (i + 1)) (\<lambda>vs. Inr (v # vs))))"

definition new_AggregationExecutor ::
  "executor \<Rightarrow> expr list \<Rightarrow> AggregationType list \<Rightarrow> expr list \<Rightarrow> schema \<Rightarrow> schema \<Rightarrow> executor result" where
  "new_AggregationExecutor child exprs agg_types agg_exprs input_s output_s =
    bindR (init_agg_vals agg_types output_s (int (length exprs))) (\<lambda>vals.
      Inr (ProjectionExecutor child exprs Tuple_default input_s output_s agg_exprs True vals))"

definition new_UnionExecutor :: "executor \<Rightarrow> executor \<Rightarrow> schema \<Rightarrow> schema \<Rightarrow> schema \<Rightarrow> int \<Rightarrow> executor" where
  "new_UnionExecutor l r ls rs out0 thr0 =
    UnionExecutor l r ls rs
      \<lparr>avail_tmp_page = [], output_schema = out0, threshold_pages = thr0, in_mem_pages = [], in_mem_idx = 0,
       left_child_tuple = Tuple_default, right_child_tuple = Tuple_default, pos = invalid_rid,
       next_pos = invalid_rid, inner_next = True\<rparr>"


section \<open>The pages of a union\<close>

text \<open>
  The threshold test compares with \<^verbatim>\<open>(1/2) * threshold_pages_\<close>, an integer division that gives 0.
\<close>

definition half_threshold :: "int \<Rightarrow> int" where
  "half_threshold threshold = trunc_div 1 2 * threshold"

fun spill_to_disk :: "bpm \<Rightarrow> int list \<Rightarrow> int list \<Rightarrow> bool \<Rightarrow> (int list \<times> bpm) result" where
  "spill_to_disk b [] avail dirty = Inr (avail, b)"
| "spill_to_disk b (f # fs) avail dirty =
     bindR (page_id_of b (Some f)) (\<lambda>pid. bindR (unpin_page b pid dirty) (\<lambda>b.
     bindR (page_id_of b (Some f)) (\<lambda>pid. spill_to_disk b fs (avail @ [pid]) dirty)))"

fun delete_in_mem :: "bpm \<Rightarrow> int list \<Rightarrow> bpm result" where
  "delete_in_mem b [] = Inr b"
| "delete_in_mem b (f # fs) =
     bindR (page_id_of b (Some f)) (\<lambda>pid. bindR (delete_page b pid) (\<lambda>(_, b). delete_in_mem b fs))"

text \<open>The loop that fetches pages compares with the same 0 and is never entered.\<close>

fun fetch_batch :: "nat \<Rightarrow> bpm \<Rightarrow> int list \<Rightarrow> int list \<Rightarrow> int \<Rightarrow> (int list \<times> int list \<times> bpm) result" where
  "fetch_batch 0 b mem_pages avail limit = Inl OutOfFuel"
| "fetch_batch (Suc n) b mem_pages avail limit =
     (if \<not> int (length mem_pages) < limit then Inr (mem_pages, avail, b)
      else if avail = [] then Inl UndefBehaviour
      else bindR (get_page b (hd avail)) (\<lambda>(pg, b).
             case pg of
               None \<Rightarrow> Inl NullDeref
             | Some f \<Rightarrow> fetch_batch n b (mem_pages @ [f]) (tl avail) limit))"

definition load_another_batch :: "nat \<Rightarrow> bpm \<Rightarrow> union_state \<Rightarrow> (bool \<times> union_state \<times> bpm) result" where
  "load_another_batch n b u =
    bindR (delete_in_mem b (in_mem_pages u)) (\<lambda>b.
    bindR (fetch_batch n b [] (avail_tmp_page u) (half_threshold (threshold_pages u))) (\<lambda>(pages, avail, b).
      let u = u\<lparr>avail_tmp_page := avail, in_mem_pages := pages\<rparr>
      in if pages \<noteq> [] then Inr (True, u\<lparr>in_mem_idx := 0\<rparr>, b) else Inr (False, u, b)))"

text \<open>Putting one tuple of the left child into the pages in memory; the new pages are not initialised.\<close>

fun union_put :: "nat \<Rightarrow> bpm \<Rightarrow> int \<Rightarrow> int list \<Rightarrow> int list \<Rightarrow> int \<Rightarrow> tuple \<Rightarrow> (int \<times> int list \<times> int list \<times> bpm) result" where
  "union_put 0 b f pages avail thr t = Inl OutOfFuel"
| "union_put (Suc n) b f pages avail thr t =
     bindR (at_page b (Some f) (\<lambda>p. insert_tuple p t)) (\<lambda>(r, b).
       if r \<noteq> None then Inr (f, pages, avail, b)
       else bindR (if int (length pages) + 1 > half_threshold thr
                   then bindR (spill_to_disk b pages avail True) (\<lambda>(avail, b). Inr ([], avail, b))
                   else Inr (pages, avail, b)) (\<lambda>(pages, avail, b).
            bindR (new_tmp_page b) (\<lambda>(f, b). union_put n b f (pages @ [f]) avail thr t)))"

text \<open>The next tuple of the left child in the pages in memory, None when they are consumed.\<close>

fun next_left :: "nat \<Rightarrow> bpm \<Rightarrow> int list \<Rightarrow> nat \<Rightarrow> rid \<Rightarrow> rid \<Rightarrow> ((nat \<times> rid \<times> rid) option \<times> rid) result" where
  "next_left 0 b pages idx p np = Inl OutOfFuel"
| "next_left (Suc n) b pages idx p np =
     (if length pages \<le> idx then Inl UndefBehaviour
      else bindR (deref b (Some (pages ! idx))) (\<lambda>pg. bindR (get_next_tuple_rid pg p np) (\<lambda>(more, np).
        if more then Inr (Some (idx, p, np), np)
        else if length pages \<le> Suc idx then Inr (None, np)
        else next_left n b pages (Suc idx) invalid_rid np)))"

fun all_values :: "tuple \<Rightarrow> schema \<Rightarrow> int list \<Rightarrow> value list result" where
  "all_values t s [] = Inr []"
| "all_values t s (i # is) =
     bindR (get_value t s i) (\<lambda>v. bindR (all_values t s is) (\<lambda>vs. Inr (v # vs)))"

definition concat_tuples :: "junk \<Rightarrow> tuple \<Rightarrow> tuple \<Rightarrow> tuple \<Rightarrow> schema \<Rightarrow> schema \<Rightarrow> schema \<Rightarrow> tuple result" where
  "concat_tuples junk t lt rt ls rs out =
    bindR (all_values lt ls [0..get_column_num ls - 1]) (\<lambda>lv.
    bindR (all_values rt rs [0..get_column_num rs - 1]) (\<lambda>rv. reconstruct junk t (lv @ rv) out))"


section \<open>Open, next and close\<close>

type_synonym open_fn = "bpm \<Rightarrow> executor \<Rightarrow> (executor \<times> bpm) result"
type_synonym next_fn = "bpm \<Rightarrow> executor \<Rightarrow> tuple \<Rightarrow> (bool \<times> tuple \<times> executor \<times> bpm) result"

text \<open>\<^verbatim>\<open>UnionExecutor::close\<close> gives its pages back and closes both children.\<close>

fun delete_avail :: "bpm \<Rightarrow> int list \<Rightarrow> bpm result" where
  "delete_avail b [] = Inr b"
| "delete_avail b (pid # pids) = bindR (delete_page b pid) (\<lambda>(_, b). delete_avail b pids)"

definition union_close :: "bpm \<Rightarrow> union_state \<Rightarrow> (union_state \<times> bpm) result" where
  "union_close b u =
    bindR (return_threshold_page b (threshold_pages u)) (\<lambda>b.
    bindR (spill_to_disk b (in_mem_pages u) (avail_tmp_page u) False) (\<lambda>(avail, b).
    bindR (delete_avail b avail) (\<lambda>b.
      Inr (u\<lparr>avail_tmp_page := [], threshold_pages := 0, in_mem_pages := [], pos := invalid_rid\<rparr>, b))))"

primrec exec_close :: "executor \<Rightarrow> bpm \<Rightarrow> (executor \<times> bpm) result" where
  "exec_close (SeqScanExecutor tb it) b = Inr (SeqScanExecutor tb None, b)"
| "exec_close (SelectionExecutor e child s) b =
     bindR (exec_close child b) (\<lambda>(child, b). Inr (SelectionExecutor e child s, b))"
| "exec_close (ProjectionExecutor child es t ins outs aggs is_agg vals) b =
     bindR (exec_close child b) (\<lambda>(child, b). Inr (ProjectionExecutor child es t ins outs aggs is_agg vals, b))"
| "exec_close (UnionExecutor l r ls rs u) b =
     bindR (union_close b u) (\<lambda>(u, b).
     bindR (exec_close l b) (\<lambda>(l, b). bindR (exec_close r b) (\<lambda>(r, b).
       Inr (UnionExecutor l r ls rs u, b))))"

text \<open>
  \<^verbatim>\<open>open\<close> and \<^verbatim>\<open>get_next\<close> call each other: a projection with aggregates reads its child to the end when it is
  opened, a union reads its left child, and opens its right child again in the middle of \<^verbatim>\<open>get_next\<close>.
  The loops below take the operations of the children as arguments.
\<close>

text \<open>
  The loop of \<^verbatim>\<open>ProjectionExecutor::open\<close>: as many aggregates are evaluated as there are values for them.
\<close>

fun aggregate_loop ::
  "nat \<Rightarrow> next_fn \<Rightarrow> bpm \<Rightarrow> executor \<Rightarrow> tuple \<Rightarrow> schema \<Rightarrow> expr list \<Rightarrow> value list \<Rightarrow>
   (executor \<times> tuple \<times> expr list \<times> value list \<times> bpm) result" where
  "aggregate_loop 0 nxt b child t ins aggs vals = Inl OutOfFuel"
| "aggregate_loop (Suc n) nxt b child t ins aggs vals =
     bindR (nxt b child t) (\<lambda>(ok, t, child, b).
       if \<not> ok then Inr (child, t, aggs, vals, b)
       else if length aggs < length vals then Inl UndefBehaviour
       else bindR (evaluate_all (take (length vals) aggs) t ins) (\<lambda>(vals', used).
              aggregate_loop n nxt b child t ins (used @ drop (length vals) aggs) vals'))"

text \<open>The loop of \<^verbatim>\<open>SelectionExecutor::get_next\<close>.\<close>

fun select_loop ::
  "nat \<Rightarrow> next_fn \<Rightarrow> bpm \<Rightarrow> expr \<Rightarrow> executor \<Rightarrow> schema \<Rightarrow> tuple \<Rightarrow> (bool \<times> tuple \<times> executor \<times> bpm) result" where
  "select_loop 0 nxt b e child s t = Inl OutOfFuel"
| "select_loop (Suc n) nxt b e child s t =
     bindR (nxt b child t) (\<lambda>(ok, t, child, b).
       if \<not> ok then Inr (False, t, SelectionExecutor e child s, b)
       else bindR (evaluate e t s) (\<lambda>(v, e).
              if value_eq v (VBoolean True) then Inr (True, t, SelectionExecutor e child s, b)
              else select_loop n nxt b e child s t))"

text \<open>The loop of \<^verbatim>\<open>UnionExecutor::initialize\<close>.\<close>

fun fill_loop ::
  "nat \<Rightarrow> next_fn \<Rightarrow> bpm \<Rightarrow> executor \<Rightarrow> tuple \<Rightarrow> int \<Rightarrow> int list \<Rightarrow> int list \<Rightarrow> int \<Rightarrow>
   (executor \<times> tuple \<times> int list \<times> int list \<times> bpm) result" where
  "fill_loop 0 nxt b l lt f pages avail thr = Inl OutOfFuel"
| "fill_loop (Suc n) nxt b l lt f pages avail thr =
     bindR (nxt b l lt) (\<lambda>(ok, lt, l, b).
       if \<not> ok then Inr (l, lt, pages, avail, b)
       else bindR (union_put n b f pages avail thr lt) (\<lambda>(f, pages, avail, b).
              fill_loop n nxt b l lt f pages avail thr))"

definition union_initialize ::
  "nat \<Rightarrow> next_fn \<Rightarrow> bpm \<Rightarrow> executor \<Rightarrow> union_state \<Rightarrow> (executor \<times> union_state \<times> bpm) result" where
  "union_initialize n nxt b l u =
    bindR (new_tmp_page b) (\<lambda>(f, b).
    bindR (fill_loop n nxt b l (left_child_tuple u) f (in_mem_pages u @ [f]) (avail_tmp_page u) (threshold_pages u))
      (\<lambda>(l, lt, pages, avail, b).
        Inr (l, u\<lparr>left_child_tuple := lt, in_mem_pages := pages, avail_tmp_page := avail\<rparr>, b)))"

text \<open>The loop of \<^verbatim>\<open>UnionExecutor::get_next\<close> over the right child.\<close>

fun outer_loop ::
  "nat \<Rightarrow> open_fn \<Rightarrow> next_fn \<Rightarrow> bpm \<Rightarrow> executor \<Rightarrow> union_state \<Rightarrow>
   (bool \<times> executor \<times> union_state \<times> bpm) result" where
  "outer_loop 0 opn nxt b r u = Inl OutOfFuel"
| "outer_loop (Suc n) opn nxt b r u =
     bindR (nxt b r (right_child_tuple u)) (\<lambda>(ok, rt, r, b).
       let u = u\<lparr>right_child_tuple := rt\<rparr>
       in if ok then Inr (True, r, u\<lparr>inner_next := False\<rparr>, b)
          else bindR (exec_close r b) (\<lambda>(r, b). bindR (opn b r) (\<lambda>(r, b).
               bindR (load_another_batch n b u) (\<lambda>(more, u, b).
                 if more then outer_loop n opn nxt b r u else Inr (False, r, u, b)))))"

text \<open>\<^verbatim>\<open>UnionExecutor::get_next\<close>; its \<^verbatim>\<open>goto\<close> is the recursion.\<close>

fun union_next ::
  "nat \<Rightarrow> junk \<Rightarrow> open_fn \<Rightarrow> next_fn \<Rightarrow> bpm \<Rightarrow> executor \<Rightarrow> schema \<Rightarrow> schema \<Rightarrow> union_state \<Rightarrow> tuple \<Rightarrow>
   (bool \<times> tuple \<times> executor \<times> union_state \<times> bpm) result" where
  "union_next 0 junk opn nxt b r ls rs u t = Inl OutOfFuel"
| "union_next (Suc n) junk opn nxt b r ls rs u t =
     bindR (if inner_next u then outer_loop n opn nxt b r u else Inr (True, r, u, b)) (\<lambda>(ok, r, u, b).
       if \<not> ok then Inr (False, t, r, u, b)
       else bindR (next_left n b (in_mem_pages u) (in_mem_idx u) (pos u) (next_pos u)) (\<lambda>(found, np).
         case found of
           None \<Rightarrow>
             union_next n junk opn nxt b r ls rs
               (u\<lparr>in_mem_idx := 0, pos := invalid_rid, next_pos := np, inner_next := True\<rparr>) t
         | Some (idx, p, np) \<Rightarrow>
             bindR (deref b (Some (in_mem_pages u ! idx))) (\<lambda>pg.
             bindR (get_tuple pg (left_child_tuple u) np) (\<lambda>(got, lt).
               if \<not> got then Inl ExitProcess
               else bindR (concat_tuples junk t lt (right_child_tuple u) ls rs (output_schema u)) (\<lambda>t.
                      Inr (True, t, r, u\<lparr>in_mem_idx := idx, left_child_tuple := lt, pos := p, next_pos := np\<rparr>, b))))))"

definition seq_open :: "junk \<Rightarrow> bpm \<Rightarrow> table \<Rightarrow> (executor \<times> bpm) result" where
  "seq_open junk b tb =
    bindR (LinkHashTableIter junk 0 b (first_table_page_id tb)) (\<lambda>(it, b).
      Inr (SeqScanExecutor tb (Some it), b))"

definition seq_next ::
  "nat \<Rightarrow> junk \<Rightarrow> bpm \<Rightarrow> table \<Rightarrow> lk_ha_iter option \<Rightarrow> tuple \<Rightarrow> (bool \<times> tuple \<times> executor \<times> bpm) result" where
  "seq_next n junk b tb it t =
    (case it of
       None \<Rightarrow> Inl NullDeref
     | Some it \<Rightarrow>
         if rid_page (tp_rid (it_tuple it)) = INVALID_PAGE_ID then Inr (False, t, SeqScanExecutor tb (Some it), b)
         else bindR (lk_ha_iter_next n junk b it) (\<lambda>(it', b).
                Inr (True, it_tuple it, SeqScanExecutor tb (Some it'), b)))"

definition proj_open ::
  "nat \<Rightarrow> open_fn \<Rightarrow> next_fn \<Rightarrow> bpm \<Rightarrow> executor \<Rightarrow> expr list \<Rightarrow> tuple \<Rightarrow> schema \<Rightarrow> schema \<Rightarrow> expr list \<Rightarrow> bool \<Rightarrow>
   value list \<Rightarrow> (executor \<times> bpm) result" where
  "proj_open n opn nxt b child es t ins outs aggs is_agg vals =
    bindR (opn b child) (\<lambda>(child, b).
      if is_agg
      then bindR (aggregate_loop n nxt b child t ins aggs vals) (\<lambda>(child, t, aggs, vals, b).
           bindR (exec_close child b) (\<lambda>(child, b). bindR (opn b child) (\<lambda>(child, b).
             Inr (ProjectionExecutor child es t ins outs aggs is_agg vals, b))))
      else Inr (ProjectionExecutor child es t ins outs aggs is_agg vals, b))"

definition proj_next ::
  "junk \<Rightarrow> next_fn \<Rightarrow> bpm \<Rightarrow> executor \<Rightarrow> expr list \<Rightarrow> tuple \<Rightarrow> schema \<Rightarrow> schema \<Rightarrow> expr list \<Rightarrow> bool \<Rightarrow>
   value list \<Rightarrow> tuple \<Rightarrow> (bool \<times> tuple \<times> executor \<times> bpm) result" where
  "proj_next junk nxt b child es next_t ins outs aggs is_agg vals t =
    bindR (nxt b child next_t) (\<lambda>(ok, next_t, child, b).
      if \<not> ok then Inr (False, t, ProjectionExecutor child es next_t ins outs aggs is_agg vals, b)
      else bindR (evaluate_all es next_t ins) (\<lambda>(vs, es).
           bindR (reconstruct junk t (vs @ (if is_agg then vals else [])) outs) (\<lambda>t.
             Inr (True, t, ProjectionExecutor child es next_t ins outs aggs is_agg vals, b))))"

text \<open>\<^verbatim>\<open>UnionExecutor::open\<close> does not open its children.\<close>

definition union_open ::
  "nat \<Rightarrow> next_fn \<Rightarrow> bpm \<Rightarrow> executor \<Rightarrow> executor \<Rightarrow> schema \<Rightarrow> schema \<Rightarrow> union_state \<Rightarrow> (executor \<times> bpm) result" where
  "union_open n nxt b l r ls rs u =
    bindR (get_threshold_page b) (\<lambda>(thr, b).
    let u = u\<lparr>threshold_pages := thr, output_schema := mk_Schema (sch_columns ls @ sch_columns rs)\<rparr>
    in bindR (union_initialize n nxt b l u) (\<lambda>(l, u, b). Inr (UnionExecutor l r ls rs u, b)))"

text \<open>The virtual calls.\<close>

definition open_step :: "nat \<Rightarrow> junk \<Rightarrow> open_fn \<Rightarrow> next_fn \<Rightarrow> open_fn" where
  "open_step n junk opn nxt b e =
    (case e of
       SeqScanExecutor tb it \<Rightarrow> seq_open junk b tb
     | SelectionExecutor p child s \<Rightarrow> bindR (opn b child) (\<lambda>(child, b). Inr (SelectionExecutor p child s, b))
     | ProjectionExecutor child es t ins outs aggs is_agg vals \<Rightarrow>
         proj_open n opn nxt b child es t ins outs aggs is_agg vals
     | UnionExecutor l r ls rs u \<Rightarrow> union_open n nxt b l r ls rs u)"

definition next_step :: "nat \<Rightarrow> junk \<Rightarrow> open_fn \<Rightarrow> next_fn \<Rightarrow> next_fn" where
  "next_step n junk opn nxt b e t =
    (case e of
       SeqScanExecutor tb it \<Rightarrow> seq_next n junk b tb it t
     | SelectionExecutor p child s \<Rightarrow> select_loop n nxt b p child s t
     | ProjectionExecutor child es next_t ins outs aggs is_agg vals \<Rightarrow>
         proj_next junk nxt b child es next_t ins outs aggs is_agg vals t
     | UnionExecutor l r ls rs u \<Rightarrow>
         bindR (union_next n junk opn nxt b r ls rs u t) (\<lambda>(ok, t, r, u, b).
           Inr (ok, t, UnionExecutor l r ls rs u, b)))"

text \<open>Every level of the tree uses one unit of fuel.\<close>

primrec exec_ops :: "nat \<Rightarrow> junk \<Rightarrow> open_fn \<times> next_fn" where
  "exec_ops 0 junk = (\<lambda>b e. Inl OutOfFuel, \<lambda>b e t. Inl OutOfFuel)"
| "exec_ops (Suc n) junk =
     (open_step n junk (fst (exec_ops n junk)) (snd (exec_ops n junk)),
      next_step n junk (fst (exec_ops n junk)) (snd (exec_ops n junk)))"

definition exec_open :: "nat \<Rightarrow> junk \<Rightarrow> open_fn" where
  "exec_open n junk = fst (exec_ops n junk)"

definition exec_next :: "nat \<Rightarrow> junk \<Rightarrow> next_fn" where
  "exec_next n junk = snd (exec_ops n junk)"

end
