(* ===== verification/Query_Plans.thy ===== *)
theory Query_Plans
  imports Executors
begin

text \<open>
  What the executors compute: expressions that are well typed over a schema never fail, a selection is a filter
  and a projection a map on the rows below it, whatever executor delivers them, and an aggregation computes the
  count, sum, minimum and maximum of its columns.
\<close>

section \<open>Types of expressions\<close>

fun expr_type :: "schema \<Rightarrow> expr \<Rightarrow> TypeId option" where
  "expr_type s (ColumnValueExpression idx) =
     (if 0 \<le> idx \<and> nat idx < length (sch_columns s) then Some (col_type (sch_columns s ! nat idx)) else None)"
| "expr_type s (ConstantExpression v) = (if get_type_id v = kInvalid then None else Some (get_type_id v))"
| "expr_type s (ComparisonExpression (l # r # rest) t) =
     (case expr_type s l of
        None \<Rightarrow> None
      | Some a \<Rightarrow> if expr_type s r = Some a then Some kBoolean else None)"
| "expr_type s (ComparisonExpression _ t) = None"
| "expr_type s (AggregateExpression t idx v) = None"

text \<open>The reference: the value of an expression in a row of values.\<close>

fun eval_row :: "expr \<Rightarrow> value list \<Rightarrow> value" where
  "eval_row (ColumnValueExpression idx) vs = vs ! nat idx"
| "eval_row (ConstantExpression v) vs = v"
| "eval_row (ComparisonExpression (l # r # rest) t) vs =
     VBoolean (perform_cmp t (eval_row l vs) (eval_row r vs) = Inr kTrue)"
| "eval_row _ vs = VInvalid"

definition row_of :: "schema \<Rightarrow> tuple \<Rightarrow> value list \<Rightarrow> bool" where
  "row_of s t vs \<longleftrightarrow> length vs = length (sch_columns s) \<and> (\<forall>i < length vs. get_value t s (int i) = Inr (vs ! i))"

lemma c_str_len: "length (c_str (bs @ [0])) \<le> length bs"
  by (simp add: c_str_def takeWhile_tail length_takeWhile_le)

lemma get_value_typed:
  assumes "wf_schema s" "i < length (sch_columns s)" "tuple_of s t"
  shows "\<exists>v. get_value t s (int i) = Inr v \<and> get_type_id v = col_type (sch_columns s ! i)"
proof -
  let ?c = "sch_columns s ! i"
  let ?bs = "get_slice (tp_data t) (nat (col_offset ?c)) (nat (get_data_size ?c))"
  note w = wf_schema_nth [OF assms(1,2)]
  have ty: "col_type ?c \<noteq> kInvalid" using assms(1,2) by (auto simp: wf_schema_def list_all_length)
  have len: "int (length ?bs) = get_data_size ?c"
    using assms(3) w by (auto simp: get_slice_def tuple_of_def get_tuple_size_def)
  then have "int (length (c_str (?bs @ [0]))) \<le> get_data_size ?c" using c_str_len [of ?bs] by linarith
  then show ?thesis unfolding get_value_decode [OF assms] using ty
    by (cases "col_type ?c") (auto simp: col_decode_def value_from_def)
qed

lemma row_of_ex:
  assumes "wf_schema s" "tuple_of s t"
  obtains vs where "row_of s t vs" "\<forall>i < length vs. get_type_id (vs ! i) = col_type (sch_columns s ! i)"
proof -
  let ?vs = "map (\<lambda>i. projr (get_value t s (int i))) [0..<length (sch_columns s)]"
  have "get_value t s (int i) = Inr (?vs ! i) \<and> get_type_id (?vs ! i) = col_type (sch_columns s ! i)"
    if "i < length (sch_columns s)" for i
    using get_value_typed [OF assms(1) that assms(2)] that by auto
  then show ?thesis using that [of ?vs] by (simp add: row_of_def)
qed

lemma row_of_typed:
  assumes "wf_schema s" "tuple_of s t" "row_of s t vs" "i < length vs"
  shows "get_type_id (vs ! i) = col_type (sch_columns s ! i)"
  using get_value_typed [OF assms(1) _ assms(2), of i] assms(3,4) by (auto simp: row_of_def)

lemma perform_cmp_typed:
  assumes "get_type_id l = a" "get_type_id r = a" "a \<noteq> kInvalid"
  shows "\<exists>c. perform_cmp t l r = Inr c"
  using assms
  by (cases l; cases r; cases t)
    (simp_all add: perform_cmp_def cmp_eq_def cmp_not_eq_def cmp_less_def cmp_less_and_eq_def cmp_greater_def
      cmp_greater_and_eq_def integer_cmp_def decimal_cmp_def boolean_cmp_def)

lemma evaluate_row:
  assumes "wf_schema s" "tuple_of s t" "row_of s t vs" "expr_type s e = Some ty"
  shows "evaluate e t s = Inr (eval_row e vs, e) \<and> get_type_id (eval_row e vs) = ty \<and> ty \<noteq> kInvalid"
  using assms
proof (induction s e arbitrary: ty rule: expr_type.induct)
  case (1 s idx)
  then have i: "0 \<le> idx" "nat idx < length (sch_columns s)" "ty = col_type (sch_columns s ! nat idx)"
    by (simp_all split: if_splits)
  have "get_value t s idx = Inr (vs ! nat idx)" using 1(3) i(1,2) by (metis int_nat_eq row_of_def)
  moreover have "ty \<noteq> kInvalid" using 1(1) i(2,3) by (auto simp: wf_schema_def list_all_length)
  moreover have "get_type_id (vs ! nat idx) = ty" using row_of_typed [OF 1(1-3)] 1(3) i(2,3) by (simp add: row_of_def)
  ultimately show ?case by simp
next
  case (3 s l r rest c)
  then obtain a where a: "expr_type s l = Some a" "expr_type s r = Some a" "ty = kBoolean"
    by (auto split: option.splits if_splits)
  note L = 3(1) [OF 3(3-5) a(1)] and R = 3(2) [OF a(1) 3(3-5) a(2)]
  obtain x where "perform_cmp c (eval_row l vs) (eval_row r vs) = Inr x" using perform_cmp_typed L R by blast
  then show ?case using L R a(3) by (cases x) (simp_all add: construct_cmp_def)
qed (auto split: if_splits)

text \<open>
  C33. An expression that has a type over the schema, in which both sides of every comparison have the same type,
  evaluates on every tuple of the schema to a value of that type and stays as it is: no assertion and no
  undefined access is reached.
\<close>

theorem typed_expressions_evaluate:
  assumes "wf_schema s" "tuple_of s t" "expr_type s e = Some ty"
  shows "\<exists>v. evaluate e t s = Inr (v, e) \<and> get_type_id v = ty"
  using row_of_ex [OF assms(1,2)] evaluate_row [OF assms(1,2) _ assms(3)] by metis


section \<open>The rows of an executor\<close>

text \<open>
  An executor yields the rows \<open>rows\<close> over the schema \<open>s\<close>: called again and again with whatever tuple, it fills it
  with one row after the other and then reports the end.
\<close>

inductive yields :: "next_fn \<Rightarrow> schema \<Rightarrow> bpm \<Rightarrow> executor \<Rightarrow> value list list \<Rightarrow> bool" for nxt s where
  finished: "(\<And>t. \<exists>t' e' b'. nxt b e t = Inr (False, t', e', b')) \<Longrightarrow> yields nxt s b e []"
| row: "(\<And>t. \<exists>t' e' b'. nxt b e t = Inr (True, t', e', b') \<and> tuple_of s t' \<and> row_of s t' vs \<and> yields nxt s b' e' rows) \<Longrightarrow>
    yields nxt s b e (vs # rows)"

inductive_cases yields_NilE: "yields nxt s b e []"
inductive_cases yields_ConsE: "yields nxt s b e (vs # rows)"

lemma yields_NilD: "yields nxt s b e [] \<Longrightarrow> \<exists>t' e' b'. nxt b e t = Inr (False, t', e', b')"
  by (erule yields_NilE) blast

lemma yields_ConsD:
  "yields nxt s b e (vs # rows) \<Longrightarrow>
    \<exists>t' e' b'. nxt b e t = Inr (True, t', e', b') \<and> tuple_of s t' \<and> row_of s t' vs \<and> yields nxt s b' e' rows"
  by (erule yields_ConsE) blast

definition holds :: "expr \<Rightarrow> value list \<Rightarrow> bool" where
  "holds p vs \<longleftrightarrow> value_eq (eval_row p vs) (VBoolean True)"

lemma select_loop_yields:
  assumes "wf_schema s" "expr_type s p = Some ty"
  shows "yields nxt s b child rows \<Longrightarrow> length rows < n \<Longrightarrow>
    (case filter (holds p) rows of
       [] \<Rightarrow> \<exists>t' e' b'. select_loop n nxt b p child s t = Inr (False, t', e', b')
     | vs # _ \<Rightarrow> \<exists>t' child' b' rows'. select_loop n nxt b p child s t = Inr (True, t', SelectionExecutor p child' s, b') \<and>
         tuple_of s t' \<and> row_of s t' vs \<and> yields nxt s b' child' rows' \<and> filter (holds p) rows = vs # filter (holds p) rows' \<and>
         length rows' < length rows)"
proof (induction n arbitrary: b child rows t)
  case (Suc n)
  show ?case
  proof (cases rows)
    case Nil
    obtain t' e' b' where "nxt b child t = Inr (False, t', e', b')"
      using yields_NilD Suc.prems(1) unfolding Nil by blast
    then show ?thesis using Nil by simp
  next
    case (Cons vs rest)
    obtain t' e' b' where r: "nxt b child t = Inr (True, t', e', b')" "tuple_of s t'" "row_of s t' vs" "yields nxt s b' e' rest"
      using yields_ConsD Suc.prems(1) unfolding Cons by blast
    note ev = evaluate_row [OF assms(1) r(2,3) assms(2)]
    show ?thesis
    proof (cases "holds p vs")
      case True
      then show ?thesis using r ev Cons by (auto simp: holds_def)
    next
      case False
      have "length rest < n" using Suc.prems(2) Cons by simp
      moreover have "select_loop (Suc n) nxt b p child s t = select_loop n nxt b' p e' s t'"
        using r(1) ev False by (simp add: holds_def)
      ultimately show ?thesis using Suc.IH [OF r(4), of t'] False Cons
        by (fastforce split: list.splits)
    qed
  qed
qed simp

lemma yields_selection:
  assumes "wf_schema s" "expr_type s p = Some ty"
  shows "yields nxt s b child rows \<Longrightarrow> length rows < n \<Longrightarrow>
    yields (next_step n junk opn nxt) s b (SelectionExecutor p child s) (filter (holds p) rows)"
proof (induction "length rows" arbitrary: b child rows rule: less_induct)
  case less
  note S = select_loop_yields [OF assms less.prems]
  show ?case
  proof (cases "filter (holds p) rows")
    case Nil
    then show ?thesis using S by (auto simp: next_step_def intro!: yields.finished)
  next
    case (Cons vs ws)
    show ?thesis unfolding Cons
    proof (rule yields.row)
      fix t
      obtain t' child' b' rows' where r: "select_loop n nxt b p child s t = Inr (True, t', SelectionExecutor p child' s, b')"
          "tuple_of s t'" "row_of s t' vs" "yields nxt s b' child' rows'" "vs # ws = vs # filter (holds p) rows'" "length rows' < length rows"
        using S [of t] Cons by auto
      have "yields (next_step n junk opn nxt) s b' (SelectionExecutor p child' s) ws"
        using less.hyps [OF r(6,4)] r(5,6) less.prems(2) by simp
      then show "\<exists>t' e' b'. next_step n junk opn nxt b (SelectionExecutor p child s) t = Inr (True, t', e', b') \<and>
          tuple_of s t' \<and> row_of s t' vs \<and> yields (next_step n junk opn nxt) s b' e' ws"
        using r(1-3) by (auto simp: next_step_def)
    qed
  qed
qed

lemma evaluate_all_row:
  assumes "wf_schema s" "tuple_of s t" "row_of s t vs"
  shows "\<forall>e \<in> set es. expr_type s e \<noteq> None \<Longrightarrow> evaluate_all es t s = Inr (map (\<lambda>e. eval_row e vs) es, es)"
  by (induction es) (auto dest!: evaluate_row [OF assms])

text \<open>A row of values as it comes back from the tuple it is put into.\<close>

definition project :: "schema \<Rightarrow> expr list \<Rightarrow> value list \<Rightarrow> value list" where
  "project outs es vs = map2 stored_value (sch_columns outs) (map (\<lambda>e. eval_row e vs) es)"

definition fits_row :: "schema \<Rightarrow> value list \<Rightarrow> bool" where
  "fits_row s vs \<longleftrightarrow> list_all2 value_fits (sch_columns s) vs"

lemma reconstruct_row:
  assumes "wf_schema s" "fits_row s vs"
  shows "\<exists>t'. reconstruct junk t vs s = Inr t' \<and> tuple_of s t' \<and> row_of s t' (map2 stored_value (sch_columns s) vs)"
proof -
  have f: "length vs = length (sch_columns s)" "\<forall>i < length (sch_columns s). value_fits (sch_columns s ! i) (vs ! i)"
    using assms(2) by (auto simp: fits_row_def list_all2_conv_all_nth)
  show ?thesis using tuple_init_spec [OF assms(1) f, of junk "tp_rid t"] f(1)
    by (auto simp: reconstruct_def row_of_def)
qed

lemma yields_projection:
  assumes "wf_schema ins" "wf_schema outs" "\<forall>e \<in> set es. expr_type ins e \<noteq> None"
  shows "yields nxt ins b child rows \<Longrightarrow> \<forall>vs \<in> set rows. fits_row outs (map (\<lambda>e. eval_row e vs) es) \<Longrightarrow>
    yields (next_step n junk opn nxt) outs b (ProjectionExecutor child es next_t ins outs [] False []) (map (project outs es) rows)"
proof (induction rows arbitrary: b child next_t)
  case Nil
  then have "yields (next_step n junk opn nxt) outs b (ProjectionExecutor child es next_t ins outs [] False []) []"
    using yields_NilD [OF Nil(1), of next_t] by (intro yields.finished) (auto simp: next_step_def proj_next_def)
  then show ?case by simp
next
  case (Cons vs rows)
  obtain t1 e1 b1 where r: "nxt b child next_t = Inr (True, t1, e1, b1)" "tuple_of ins t1" "row_of ins t1 vs" "yields nxt ins b1 e1 rows"
    using yields_ConsD [OF Cons.prems(1)] by blast
  note ev = evaluate_all_row [OF assms(1) r(2,3) assms(3)]
  have fit: "fits_row outs (map (\<lambda>e. eval_row e vs) es)" using Cons.prems(2) by simp
  have IH: "yields (next_step n junk opn nxt) outs b1 (ProjectionExecutor e1 es t1 ins outs [] False []) (map (project outs es) rows)"
    using Cons.IH [OF r(4)] Cons.prems(2) by simp
  have "yields (next_step n junk opn nxt) outs b (ProjectionExecutor child es next_t ins outs [] False [])
      (project outs es vs # map (project outs es) rows)"
  proof (rule yields.row)
    fix t
    obtain t' where "reconstruct junk t (map (\<lambda>e. eval_row e vs) es) outs = Inr t'" "tuple_of outs t'" "row_of outs t' (project outs es vs)"
      using reconstruct_row [OF assms(2) fit, of junk t] by (auto simp: project_def)
    then show "\<exists>t' e' b'. next_step n junk opn nxt b (ProjectionExecutor child es next_t ins outs [] False []) t = Inr (True, t', e', b') \<and>
        tuple_of outs t' \<and> row_of outs t' (project outs es vs) \<and> yields (next_step n junk opn nxt) outs b' e' (map (project outs es) rows)"
      using IH r(1) ev by (auto simp: next_step_def proj_next_def)
  qed
  then show ?case by simp
qed

text \<open>
  C32. A projection over a selection computes the query: whatever executor below delivers the rows, the plan
  delivers, for those rows on which the predicate holds and in their order, the values of the projected
  expressions, and then reports the end.
\<close>

theorem plan_computes_query:
  assumes "yields nxt s b child rows" "length rows < n"
    and "wf_schema s" "expr_type s p = Some kBoolean"
    and "wf_schema outs" "\<forall>e \<in> set es. expr_type s e \<noteq> None" "\<forall>vs \<in> set rows. fits_row outs (map (\<lambda>e. eval_row e vs) es)"
  shows "yields (next_step m junk opn' (next_step n junk opn nxt)) outs b
      (new_ProjectionExecutor (SelectionExecutor p child s) es s outs) (map (project outs es) (filter (holds p) rows))"
  unfolding new_ProjectionExecutor_def
  using assms by (intro yields_projection yields_selection) auto

text \<open>A child that delivers given rows of one integer.\<close>

definition one_int :: schema where
  "one_int = mk_Schema [Column_fixed kInteger ''a'' 0]"

definition scripted :: "executor \<Rightarrow> int list \<Rightarrow> executor" where
  "scripted fin is = foldr (\<lambda>i e. SelectionExecutor (ConstantExpression (VInteger i)) e one_int) is fin"

definition scripted_next :: "junk \<Rightarrow> next_fn" where
  "scripted_next junk b e t =
    (case e of
       SelectionExecutor (ConstantExpression v) rest _ \<Rightarrow> bindR (reconstruct junk t [v] one_int) (\<lambda>t. Inr (True, t, rest, b))
     | _ \<Rightarrow> Inr (False, t, e, b))"

lemma one_int_wf: "wf_schema one_int" "sch_columns one_int = [Column_fixed kInteger ''a'' 0]"
  by (simp_all add: one_int_def mk_Schema_def wf_schema_def column_type_size_def get_type_size_def config_defs)

lemma scripted_next_Cons:
  "scripted_next junk b (scripted fin (i # is)) t =
    bindR (reconstruct junk t [VInteger i] one_int) (\<lambda>t. Inr (True, t, scripted fin is, b))"
  by (simp add: scripted_def scripted_next_def)

lemma scripted_yields:
  assumes "fin = SeqScanExecutor tb it" "\<forall>i \<in> set is. in32 i"
  shows "yields (scripted_next junk) one_int b (scripted fin is) (map (\<lambda>i. [VInteger i]) is)"
  using assms(2)
proof (induction "is")
  case Nil
  show ?case using assms(1) by (auto simp: scripted_def scripted_next_def intro!: yields.finished)
next
  case (Cons i "is")
  have "fits_row one_int [VInteger i]" using Cons.prems by (simp add: fits_row_def one_int_wf(2))
  note R = reconstruct_row [OF one_int_wf(1) this, of junk]
  have "yields (scripted_next junk) one_int b (scripted fin (i # is)) ([VInteger i] # map (\<lambda>i. [VInteger i]) is)"
  proof (rule yields.row)
    fix t
    obtain t' where "reconstruct junk t [VInteger i] one_int = Inr t'" "tuple_of one_int t'" "row_of one_int t' [VInteger i]"
      using R [of t] by (auto simp: one_int_wf(2))
    then show "\<exists>t' e' b'. scripted_next junk b (scripted fin (i # is)) t = Inr (True, t', e', b') \<and> tuple_of one_int t' \<and>
        row_of one_int t' [VInteger i] \<and> yields (scripted_next junk) one_int b' e' (map (\<lambda>i. [VInteger i]) is)"
      using Cons by (auto simp: scripted_next_Cons)
  qed
  then show ?case by simp
qed

definition more_than :: "int \<Rightarrow> expr" where
  "more_than k = ComparisonExpression [ColumnValueExpression 0, ConstantExpression (VInteger k)] kGreaterThan"

lemma more_than_simps [simp]:
  "expr_type one_int (more_than k) = Some kBoolean" "holds (more_than k) [VInteger i] \<longleftrightarrow> k < i"
  by (simp_all add: more_than_def one_int_wf(2) holds_def perform_cmp_def cmp_greater_def integer_cmp_def cmp_result_def)

theorem typed_expressions_evaluate_witness:
  "\<exists>t v. tuple_init (\<lambda>_ _. 9) [VInteger 3] one_int invalid_rid = Inr t \<and> evaluate (more_than 5) t one_int = Inr (v, more_than 5) \<and>
    get_type_id v = kBoolean"
proof -
  have "\<forall>i < length (sch_columns one_int). value_fits (sch_columns one_int ! i) ([VInteger 3] ! i)"
    by (simp add: one_int_wf(2) in32_def)
  then obtain t where t: "tuple_init (\<lambda>_ _. 9) [VInteger 3] one_int invalid_rid = Inr t" "tuple_of one_int t"
    using tuple_init_spec [OF one_int_wf(1), of "[VInteger 3]" "\<lambda>_ _. 9" invalid_rid] by (auto simp: one_int_wf(2))
  then show ?thesis using typed_expressions_evaluate [OF one_int_wf(1) t(2), of "more_than 5" kBoolean] by auto
qed

theorem plan_computes_query_witness:
  "\<forall>junk opn b tb. yields (next_step 4 junk opn (next_step 5 junk opn (scripted_next junk))) one_int b
      (new_ProjectionExecutor (SelectionExecutor (more_than 5) (scripted (SeqScanExecutor tb None) [3, 7, 5, 9]) one_int)
        [ColumnValueExpression 0] one_int one_int)
      [[VInteger 7], [VInteger 9]]"
proof -
  have Y: "yields (scripted_next junk) one_int b (scripted (SeqScanExecutor tb None) [3, 7, 5, 9]) (map (\<lambda>i. [VInteger i]) [3, 7, 5, 9])"
    for junk b tb by (rule scripted_yields) (simp_all add: in32_def)
  have "yields (next_step 4 junk opn (next_step 5 junk opn (scripted_next junk))) one_int b
      (new_ProjectionExecutor (SelectionExecutor (more_than 5) (scripted (SeqScanExecutor tb None) [3, 7, 5, 9]) one_int)
        [ColumnValueExpression 0] one_int one_int)
      (map (project one_int [ColumnValueExpression 0]) (filter (holds (more_than 5)) (map (\<lambda>i. [VInteger i]) [3, 7, 5, 9])))"
    for junk opn b tb
    by (rule plan_computes_query [OF Y]) (simp_all add: one_int_wf fits_row_def in32_def)
  then show ?thesis by (simp add: project_def one_int_wf(2))
qed

section \<open>Aggregation\<close>

text \<open>The reference: count, sum, minimum and maximum of an integer column, from the start values of the code.\<close>

definition int_at :: "nat \<Rightarrow> value list \<Rightarrow> int" where
  "int_at i vs = (case vs ! i of VInteger x \<Rightarrow> x | _ \<Rightarrow> 0)"

definition agg_ref :: "AggregationType \<Rightarrow> nat \<Rightarrow> value list list \<Rightarrow> int" where
  "agg_ref ty i rows =
    (case ty of
       kCountAggregate \<Rightarrow> int (length rows)
     | kSumAggregate \<Rightarrow> sum_list (map (int_at i) rows)
     | kMinAggregate \<Rightarrow> Min (insert INT32_MAX (int_at i ` set rows))
     | kMaxAggregate \<Rightarrow> Max (insert INT32_MIN (int_at i ` set rows)))"

lemma agg_ref_snoc:
  "agg_ref ty i (rows @ [vs]) =
    (case ty of
       kCountAggregate \<Rightarrow> agg_ref ty i rows + 1
     | kSumAggregate \<Rightarrow> agg_ref ty i rows + int_at i vs
     | kMinAggregate \<Rightarrow> if int_at i vs < agg_ref ty i rows then int_at i vs else agg_ref ty i rows
     | kMaxAggregate \<Rightarrow> if int_at i vs > agg_ref ty i rows then int_at i vs else agg_ref ty i rows)"
proof -
  have S: "insert z (int_at i ` set (rows @ [vs])) = insert (int_at i vs) (insert z (int_at i ` set rows))" for z by auto
  have "Min (insert z (int_at i ` set (rows @ [vs]))) = min (int_at i vs) (Min (insert z (int_at i ` set rows)))"
    "Max (insert z (int_at i ` set (rows @ [vs]))) = max (int_at i vs) (Max (insert z (int_at i ` set rows)))" for z
    unfolding S by simp_all
  moreover have "min x m = (if x < m then x else m)" "max x m = (if x > m then x else m)" for x m :: int by auto
  ultimately show ?thesis unfolding agg_ref_def by (cases ty) simp_all
qed

text \<open>No partial result leaves the 32-bit integers.\<close>

definition agg_safe :: "AggregationType \<Rightarrow> nat \<Rightarrow> value list list \<Rightarrow> bool" where
  "agg_safe ty i rows \<longleftrightarrow> (\<forall>k \<le> length rows. in32 (agg_ref ty i (take k rows)))"

definition int_col :: "nat \<Rightarrow> value list list \<Rightarrow> bool" where
  "int_col i rows \<longleftrightarrow> (\<forall>vs \<in> set rows. i < length vs \<and> vs ! i = VInteger (int_at i vs))"

lemma perform_aggregation_ref:
  assumes "row_of s t vs" "int_col i [vs]" "in32 (agg_ref ty i (rows @ [vs]))"
  shows "perform_aggregation ty (int i) (VInteger (agg_ref ty i rows)) t s = Inr (VInteger (agg_ref ty i (rows @ [vs])))"
proof -
  have g: "get_value t s (int i) = Inr (VInteger (int_at i vs))" using assms(1,2) by (auto simp: row_of_def int_col_def)
  show ?thesis using assms(3)
    by (cases ty) (simp_all add: perform_aggregation_def g agg_ref_snoc checked32_def value_add_def type_op_def integer_op_def
        cmp_less_def cmp_greater_def integer_cmp_def cmp_result_def)
qed

text \<open>The aggregates as they stand behind some rows.\<close>

definition agg_exprs :: "(AggregationType \<times> nat) list \<Rightarrow> value list list \<Rightarrow> expr list" where
  "agg_exprs specs rows = map (\<lambda>(ty, i). AggregateExpression ty (int i) (VInteger (agg_ref ty i rows))) specs"

definition agg_vals :: "(AggregationType \<times> nat) list \<Rightarrow> value list list \<Rightarrow> value list" where
  "agg_vals specs rows = map (\<lambda>(ty, i). VInteger (agg_ref ty i rows)) specs"

lemma agg_exprs_start: "agg_exprs specs [] = map (\<lambda>(ty, i). new_AggregateExpression ty (int i)) specs"
  by (auto simp: agg_exprs_def new_AggregateExpression_def agg_ref_def split: AggregationType.splits)

lemma length_agg [simp]: "length (agg_exprs specs rows) = length specs" "length (agg_vals specs rows) = length specs"
  by (simp_all add: agg_exprs_def agg_vals_def)

lemma evaluate_all_agg:
  assumes "row_of s t vs"
  shows "\<forall>(ty, i) \<in> set specs. int_col i [vs] \<and> in32 (agg_ref ty i (rows @ [vs])) \<Longrightarrow>
    evaluate_all (agg_exprs specs rows) t s = Inr (agg_vals specs (rows @ [vs]), agg_exprs specs (rows @ [vs]))"
  by (induction specs) (auto simp: agg_exprs_def agg_vals_def perform_aggregation_ref [OF assms])

lemma aggregate_loop_ref:
  assumes "wf_schema ins"
  shows "yields nxt ins b child rows \<Longrightarrow> length rows < n \<Longrightarrow>
    \<forall>(ty, i) \<in> set specs. int_col i rows \<and> agg_safe ty i (before @ rows) \<Longrightarrow>
    \<exists>child' t' b'. aggregate_loop n nxt b child t ins (agg_exprs specs before) (agg_vals specs before) =
      Inr (child', t', agg_exprs specs (before @ rows), agg_vals specs (before @ rows), b')"
proof (induction rows arbitrary: n b child t before)
  case Nil
  then obtain m where n: "n = Suc m" by (cases n) auto
  show ?case using yields_NilD [OF Nil(1), of t] by (auto simp: n)
next
  case (Cons vs rows)
  then obtain m where n: "n = Suc m" by (cases n) auto
  obtain t1 e1 b1 where r: "nxt b child t = Inr (True, t1, e1, b1)" "row_of ins t1 vs" "yields nxt ins b1 e1 rows"
    using yields_ConsD [OF Cons.prems(1)] by blast
  have safe: "in32 (agg_ref ty i (before @ [vs]))" if "agg_safe ty i (before @ vs # rows)" for ty i
    using that unfolding agg_safe_def by (auto dest!: spec [of _ "Suc (length before)"])
  have ev: "evaluate_all (agg_exprs specs before) t1 ins = Inr (agg_vals specs (before @ [vs]), agg_exprs specs (before @ [vs]))"
    using Cons.prems(3) by (intro evaluate_all_agg [OF r(2)]) (auto simp: int_col_def safe)
  have "\<forall>(ty, i) \<in> set specs. int_col i rows \<and> agg_safe ty i ((before @ [vs]) @ rows)"
    using Cons.prems(3) by (auto simp: int_col_def)
  from Cons.IH [OF r(3) _ this, of m t1] show ?case using Cons.prems(2) r(1) ev by (simp add: n)
qed

lemma init_agg_vals_ref:
  assumes "\<forall>k < length specs. get_column outs (j + int k) = Inr (c k) \<and> col_type (c k) = kInteger"
  shows "init_agg_vals (map fst specs) outs j = Inr (agg_vals specs [])"
  using assms
proof (induction specs arbitrary: j c)
  case (Cons sp specs)
  have c0: "get_column outs j = Inr (c 0)" "col_type (c 0) = kInteger" using Cons.prems by force+
  have "\<forall>k < length specs. get_column outs (j + 1 + int k) = Inr (c (Suc k)) \<and> col_type (c (Suc k)) = kInteger"
    using Cons.prems by (auto simp: add.assoc)
  note IH = Cons.IH [OF this]
  show ?case using c0 IH by (cases sp; cases "fst sp")
    (auto simp: agg_vals_def agg_ref_def init_agg_cnt_val_def init_agg_sum_val_def init_agg_min_val_def init_agg_max_val_def)
qed (simp add: agg_vals_def)

text \<open>
  C34. An aggregation over integer columns reads its child to the end and computes the number of rows, the sum,
  the minimum and the maximum, as long as no partial result leaves the 32-bit integers.
\<close>

theorem aggregation_computes:
  assumes "yields nxt ins b child rows" "length rows < n" "wf_schema ins"
    and "\<forall>(ty, i) \<in> set specs. int_col i rows \<and> agg_safe ty i rows"
    and "\<forall>k < length specs. \<exists>c. get_column outs (int (length es + k)) = Inr c \<and> col_type c = kInteger"
  shows "\<exists>t0 aggs vals child' t' aggs' b'.
    new_AggregationExecutor child es (map fst specs) (map (\<lambda>(ty, i). new_AggregateExpression ty (int i)) specs) ins outs =
      Inr (ProjectionExecutor child es t0 ins outs aggs True vals) \<and>
    aggregate_loop n nxt b child t0 ins aggs vals =
      Inr (child', t', aggs', map (\<lambda>(ty, i). VInteger (agg_ref ty i rows)) specs, b')"
proof -
  obtain c where "\<forall>k < length specs. get_column outs (int (length es) + int k) = Inr (c k) \<and> col_type (c k) = kInteger"
    using assms(5) by (metis of_nat_add)
  from init_agg_vals_ref [OF this]
  have new: "new_AggregationExecutor child es (map fst specs) (agg_exprs specs []) ins outs =
      Inr (ProjectionExecutor child es Tuple_default ins outs (agg_exprs specs []) True (agg_vals specs []))"
    by (simp add: new_AggregationExecutor_def)
  show ?thesis
    using new aggregate_loop_ref [OF assms(3,1,2), of specs "[]" Tuple_default] assms(4)
    unfolding agg_exprs_start [symmetric] by (auto simp: agg_vals_def)
qed

theorem aggregation_computes_witness:
  "\<forall>junk b tb. \<exists>child' t' aggs' b'.
    aggregate_loop 4 (scripted_next junk) b (scripted (SeqScanExecutor tb None) [3, 7, 5]) Tuple_default one_int
      [new_AggregateExpression kSumAggregate 0, new_AggregateExpression kMaxAggregate 0] [VInteger 0, VInteger INT32_MIN] =
    Inr (child', t', aggs', [VInteger 15, VInteger 7], b')"
proof (intro allI)
  fix junk b tb
  let ?specs = "[(kSumAggregate, 0), (kMaxAggregate, 0)] :: (AggregationType \<times> nat) list"
  let ?outs = "mk_Schema [Column_fixed kInteger ''s'' 0, Column_fixed kInteger ''m'' 4]"
  have Y: "yields (scripted_next junk) one_int b (scripted (SeqScanExecutor tb None) [3, 7, 5]) (map (\<lambda>i. [VInteger i]) [3, 7, 5])"
    by (rule scripted_yields) (simp_all add: in32_def)
  have ok: "\<forall>(ty, i) \<in> set ?specs. int_col i (map (\<lambda>i. [VInteger i]) [3, 7, 5]) \<and> agg_safe ty i (map (\<lambda>i. [VInteger i]) [3, 7, 5])"
    by (simp add: int_col_def agg_safe_def int_at_def agg_ref_def in32_def INT32_MIN_def le_Suc_eq numeral_3_eq_3 all_conj_distrib)
  have cols: "\<forall>k < length ?specs. \<exists>c. get_column ?outs (int (length ([]::expr list) + k)) = Inr c \<and> col_type c = kInteger"
    by (simp add: get_column_def get_column_num_def mk_Schema_def less_Suc_eq all_conj_distrib)
  show "\<exists>child' t' aggs' b'.
    aggregate_loop 4 (scripted_next junk) b (scripted (SeqScanExecutor tb None) [3, 7, 5]) Tuple_default one_int
      [new_AggregateExpression kSumAggregate 0, new_AggregateExpression kMaxAggregate 0] [VInteger 0, VInteger INT32_MIN] =
    Inr (child', t', aggs', [VInteger 15, VInteger 7], b')"
    using aggregation_computes [OF Y _ one_int_wf(1) ok cols, of 4]
    by (simp add: new_AggregationExecutor_def get_column_def get_column_num_def mk_Schema_def init_agg_sum_val_def
        init_agg_max_val_def agg_ref_def int_at_def INT32_MIN_def)
qed

section \<open>Union\<close>

text \<open>
  C35. \<^verbatim>\<open>UnionExecutor::open\<close> reads its left child without opening it.  A sequential scan that is not open has no
  iterator, so opening a union over a scan never succeeds: its first \<^verbatim>\<open>get_next\<close> dereferences a null pointer.
\<close>

theorem union_over_scan_fails:
  "(\<nexists>x. exec_open n junk b (new_UnionExecutor (new_SeqScanExecutor tb) r ls rs out0 thr0) = Inr x) \<and>
   fill_loop (Suc m) (exec_next (Suc k) junk) b (new_SeqScanExecutor tb) lt f pages avail thr = Inl NullDeref"
proof
  have scan: "fill_loop i (snd (exec_ops i junk)) b (SeqScanExecutor tb None) lt f pages avail thr \<noteq> Inr x" for i b lt f pages avail thr x
    by (cases i) (simp_all add: next_step_def seq_next_def)
  show "\<nexists>x. exec_open n junk b (new_UnionExecutor (new_SeqScanExecutor tb) r ls rs out0 thr0) = Inr x"
  proof (cases n)
    case (Suc i)
    let ?u = "\<lambda>thr. \<lparr>avail_tmp_page = [], output_schema = mk_Schema (sch_columns ls @ sch_columns rs), threshold_pages = thr,
       in_mem_pages = [], in_mem_idx = 0, left_child_tuple = Tuple_default, right_child_tuple = Tuple_default,
       pos = invalid_rid, next_pos = invalid_rid, inner_next = True\<rparr>"
    have "union_initialize i (snd (exec_ops i junk)) b1 (SeqScanExecutor tb None) (?u thr) \<noteq> Inr x" for b1 thr x
      using scan by (auto simp: union_initialize_def bindR_eq_Inr)
    then show ?thesis
      by (cases "get_threshold_page b") (auto simp: exec_open_def Suc open_step_def new_UnionExecutor_def new_SeqScanExecutor_def union_open_def bindR_eq_Inr)
  qed (simp add: exec_open_def)
  show "fill_loop (Suc m) (exec_next (Suc k) junk) b (new_SeqScanExecutor tb) lt f pages avail thr = Inl NullDeref"
    by (simp add: exec_next_def next_step_def seq_next_def new_SeqScanExecutor_def)
qed

end
