(* ===== verification/Table_Meta_Data.thy ===== *)
theory Table_Meta_Data
  imports Table
begin

text \<open>
  \<^verbatim>\<open>TableMetaData\<close> of \<^verbatim>\<open>src/src/meta/table_meta_data.cpp\<close>: one page per table that records its columns
  and the id of its first page, in memory for as long as the object lives.  The record holds the frame
  of that page for the members \<^verbatim>\<open>page_\<close> and \<^verbatim>\<open>data_\<close>.  The code assumes that the page is large enough for
  all columns; an access behind its end is undefined.
\<close>

section \<open>Strings and enumerations in a page\<close>

definition type_code :: "TypeId \<Rightarrow> int" where
  "type_code t = (case t of kInvalid \<Rightarrow> - 1 | kBoolean \<Rightarrow> 0 | kInteger \<Rightarrow> 1 | kDecimal \<Rightarrow> 2 | kChar \<Rightarrow> 3)"

definition code_type :: "int \<Rightarrow> TypeId option" where
  "code_type i =
    (if i = - 1 then Some kInvalid else if i = 0 then Some kBoolean else if i = 1 then Some kInteger
     else if i = 2 then Some kDecimal else if i = 3 then Some kChar else None)"

lemma code_type_code [simp]: "code_type (type_code t) = Some t"
  by (cases t) (simp_all add: code_type_def type_code_def)

text \<open>A zero-terminated string in the page; without a terminator the read leaves the page.\<close>

definition page_cstr :: "mem \<Rightarrow> int \<Rightarrow> string result" where
  "page_cstr m a =
    (let bs = get_bytes m a (PAGE_SIZE - a)
     in if a < 0 \<or> PAGE_SIZE \<le> a \<or> 0 \<notin> set bs then Inl UndefBehaviour else Inr (bytes_str (c_str bs)))"

definition rd_page :: "mem \<Rightarrow> int \<Rightarrow> int result" where
  "rd_page m a = (if in_page a 4 then Inr (rd32 m a) else Inl UndefBehaviour)"

definition wr_page :: "mem \<Rightarrow> int \<Rightarrow> int \<Rightarrow> mem result" where
  "wr_page m a x = (if in_page a 4 then Inr (wr32 m a x) else Inl UndefBehaviour)"

definition put_page :: "mem \<Rightarrow> int \<Rightarrow> byte list \<Rightarrow> mem result" where
  "put_page m a bs = (if in_page a (int (length bs)) then Inr (put_bytes m a bs) else Inl UndefBehaviour)"


section \<open>The object\<close>

definition FIRST_TABLE_PGID_OFFSET :: int where [tp_defs]: "FIRST_TABLE_PGID_OFFSET = COM_PG_HEADER_SZ"
definition INDEX_HEADER_PGID_OFFSET :: int where [tp_defs]:
  "INDEX_HEADER_PGID_OFFSET = COM_PG_HEADER_SZ + PGID_T_SIZE"
definition COLUMN_NUM_OFFSET :: int where [tp_defs]: "COLUMN_NUM_OFFSET = COM_PG_HEADER_SZ + 2 * PGID_T_SIZE + 64"
definition FIRST_COLUMN_OFFSET :: int where [tp_defs]:
  "FIRST_COLUMN_OFFSET = COM_PG_HEADER_SZ + 2 * PGID_T_SIZE + 64 + SIZE_T_SIZE"
definition FIXED_COLUMN_SIZE :: int where [tp_defs]:
  "FIXED_COLUMN_SIZE = SIZE_T_SIZE + OFFSET_T_SIZE + ENUM_SIZE + SIZE_T_SIZE"

record table_meta_data =
  tm_schema :: schema
  tm_latch :: rwlatch
  tm_name :: string
  tm_table :: table
  tm_first_page_id :: int
  tm_index_page_id :: int
  tm_self_page_id :: int
  tm_table_id :: int
  tm_page :: "int option"

text \<open>One column record at \<open>a\<close>: name length, name, offset in the tuple, type, data size.\<close>

definition read_column :: "mem \<Rightarrow> int \<Rightarrow> (column \<times> int) result" where
  "read_column m a =
    bindR (rd_page m a) (\<lambda>name_len.
    let col_size = FIXED_COLUMN_SIZE + name_len + 1;
        name_offset = a + SIZE_T_SIZE;
        offset_offset = name_offset + name_len + 1;
        type_id_offset = offset_offset + OFFSET_T_SIZE;
        data_size_offset = type_id_offset + ENUM_SIZE
    in bindR (rd_page m offset_offset) (\<lambda>offset_in_tp.
       bindR (rd_page m type_id_offset) (\<lambda>type_id.
       bindR (rd_page m data_size_offset) (\<lambda>data_size.
       bindR (page_cstr m name_offset) (\<lambda>name.
         case code_type type_id of
           None \<Rightarrow> Inl UndefBehaviour
         | Some t \<Rightarrow>
             Inr (if t = kChar then Column_char name offset_in_tp data_size
                  else Column_fixed t name offset_in_tp, col_size))))))"

fun read_columns :: "nat \<Rightarrow> mem \<Rightarrow> int \<Rightarrow> column list result" where
  "read_columns 0 m a = Inr []"
| "read_columns (Suc n) m a =
     bindR (read_column m a) (\<lambda>(col, sz). bindR (read_columns n m (a + sz)) (\<lambda>cols. Inr (col # cols)))"

definition TableMetaData :: "bpm \<Rightarrow> string \<Rightarrow> int \<Rightarrow> (table_meta_data \<times> bpm) result" where
  "TableMetaData b name tid =
    bindR (get_page b tid) (\<lambda>(pg, b).
      if pg = None then Inl ExitProcess
      else bindR (deref b pg) (\<lambda>p.
        let m = pg_data p;
            first_pid = rd32 m FIRST_TABLE_PGID_OFFSET;
            index_pid = rd32 m INDEX_HEADER_PGID_OFFSET;
            column_num = rd32 m COLUMN_NUM_OFFSET
        in bindR (read_columns (nat column_num) m FIRST_COLUMN_OFFSET) (\<lambda>cols.
           bindR (Table b first_pid False) (\<lambda>(tb, b).
             Inr (\<lparr>tm_schema = mk_Schema cols, tm_latch = new_latch, tm_name = name, tm_table = tb,
                  tm_first_page_id = first_pid, tm_index_page_id = index_pid, tm_self_page_id = tid,
                  tm_table_id = tid, tm_page = pg\<rparr>, b)))))"

definition write_column :: "mem \<Rightarrow> int \<Rightarrow> column \<Rightarrow> (mem \<times> int) result" where
  "write_column m a col =
    (let name_len = int (length (col_name col));
         name_offset = a + SIZE_T_SIZE;
         offset_offset = name_offset + name_len + 1;
         type_id_offset = offset_offset + OFFSET_T_SIZE;
         data_size_offset = type_id_offset + ENUM_SIZE
     in bindR (wr_page m a name_len) (\<lambda>m.
        bindR (wr_page m offset_offset (col_offset col)) (\<lambda>m.
        bindR (wr_page m type_id_offset (type_code (col_type col))) (\<lambda>m.
        bindR (wr_page m data_size_offset (get_data_size col)) (\<lambda>m.
        bindR (put_page m name_offset (str_bytes (col_name col) @ [0])) (\<lambda>m.
          Inr (m, FIXED_COLUMN_SIZE + name_len + 1)))))))"

fun write_columns :: "column list \<Rightarrow> mem \<Rightarrow> int \<Rightarrow> mem result" where
  "write_columns [] m a = Inr m"
| "write_columns (col # cols) m a =
     bindR (write_column m a col) (\<lambda>(m, sz). write_columns cols m (a + sz))"

text \<open>
  The constructor for a new table: the columns are written and flushed, then the directory page and a
  page for the index header are created; their ids are written behind the flush.
\<close>

definition edit_data :: "bpm \<Rightarrow> int option \<Rightarrow> (mem \<Rightarrow> mem result) \<Rightarrow> bpm result" where
  "edit_data b pg g = edit_page b pg (\<lambda>p. bindR (g (pg_data p)) (\<lambda>m. Inr (p\<lparr>pg_data := m\<rparr>)))"

definition TableMetaData_new :: "bpm \<Rightarrow> string \<Rightarrow> schema \<Rightarrow> int \<Rightarrow> (table_meta_data \<times> bpm) result" where
  "TableMetaData_new b name s tid =
    bindR (get_page b tid) (\<lambda>(pg, b).
      if pg = None then Inl ExitProcess
      else bindR (edit_data b pg (\<lambda>m.
             write_columns (sch_columns s) (wr32 m COLUMN_NUM_OFFSET (get_column_num s)) FIRST_COLUMN_OFFSET)) (\<lambda>b.
           bindR (flush_page b tid) (\<lambda>(_, b).
           bindR (new_page b) (\<lambda>(f, b).
           bindR (edit_page b (Some f) (\<lambda>p. Inr (link_hash_page_init p))) (\<lambda>b.
           bindR (page_id_of b (Some f)) (\<lambda>first_pid.
           bindR (unpin_page b first_pid True) (\<lambda>b.
           bindR (edit_data b pg (\<lambda>m. Inr (wr32 m FIRST_TABLE_PGID_OFFSET first_pid))) (\<lambda>b.
           bindR (new_page b) (\<lambda>(f, b).
           bindR (page_id_of b (Some f)) (\<lambda>index_pid.
           bindR (unpin_page b index_pid False) (\<lambda>b.
           bindR (edit_data b pg (\<lambda>m. Inr (wr32 m INDEX_HEADER_PGID_OFFSET index_pid))) (\<lambda>b.
           bindR (Table b first_pid True) (\<lambda>(tb, b).
             Inr (\<lparr>tm_schema = s, tm_latch = new_latch, tm_name = name, tm_table = tb,
                  tm_first_page_id = first_pid, tm_index_page_id = index_pid, tm_self_page_id = tid,
                  tm_table_id = tid, tm_page = pg\<rparr>, b))))))))))))))"

text \<open>The destructor gives the page back, dirty in any case.\<close>

definition TableMetaData_destroy :: "bpm \<Rightarrow> table_meta_data \<Rightarrow> bpm result" where
  "TableMetaData_destroy b tm = unpin_page b (tm_self_page_id tm) True"

definition set_table_name :: "table_meta_data \<Rightarrow> string \<Rightarrow> table_meta_data" where
  "set_table_name tm new_name = tm\<lparr>tm_name := new_name\<rparr>"

definition tm_delete_table_data :: "nat \<Rightarrow> bpm \<Rightarrow> table_meta_data \<Rightarrow> (table_meta_data \<times> bpm) result" where
  "tm_delete_table_data n b tm =
    bindR (w_lock (tm_latch tm)) (\<lambda>l.
    bindR (delete_all_data n b (tm_table tm)) (\<lambda>b. Inr (tm\<lparr>tm_latch := w_unlock l\<rparr>, b)))"

end
