(* ===== verification/Catalog_Table.thy ===== *)
theory Catalog_Table
  imports Table_Meta_Data
begin

text \<open>
  \<^verbatim>\<open>CatalogTable\<close> of \<^verbatim>\<open>src/src/meta/catalog_table.cpp\<close>: the page that lists the tables (records from the
  front, names from the back) and the three maps that mirror it in memory.  The maps are
  \<^verbatim>\<open>std::unordered_map\<close>; an operation that walks one takes the order of the walk as an argument.
  Erasing a key that is not there (\<^verbatim>\<open>erase(end())\<close>) and reading through \<^verbatim>\<open>end()\<close> are undefined.
\<close>

definition TABLE_RECORD_SZ :: int where [tp_defs]: "TABLE_RECORD_SZ = OFFSET_T_SIZE + SIZE_T_SIZE + PGID_T_SIZE"
definition TABLE_NUM_OFFSET :: int where [tp_defs]: "TABLE_NUM_OFFSET = COM_PG_HEADER_SZ"

record catalog_table =
  ct_self_page_id :: int
  ct_free_space_pointer :: int
  tb_id_to_name :: "int \<rightharpoonup> string"
  tb_name_to_id :: "string \<rightharpoonup> int"
  ct_table_num :: int
  ct_latch :: rwlatch
  ct_page :: "int option"
  tb_id_to_meta :: "int \<rightharpoonup> table_meta_data"

text \<open>\<^verbatim>\<open>unordered_map::insert\<close> keeps an existing entry; \<^verbatim>\<open>erase\<close> needs one.\<close>

definition umap_insert :: "('k \<rightharpoonup> 'v) \<Rightarrow> 'k \<Rightarrow> 'v \<Rightarrow> ('k \<rightharpoonup> 'v)" where
  "umap_insert m k v = (if m k = None then m(k \<mapsto> v) else m)"

definition umap_erase :: "('k \<rightharpoonup> 'v) \<Rightarrow> 'k \<Rightarrow> ('k \<rightharpoonup> 'v) result" where
  "umap_erase m k = (if m k = None then Inl UndefBehaviour else Inr (m(k := None)))"

definition tb_record :: "int \<Rightarrow> int" where
  "tb_record i = TABLE_NUM_OFFSET + SIZE_T_SIZE + i * TABLE_RECORD_SZ"

definition ct_mem :: "bpm \<Rightarrow> catalog_table \<Rightarrow> mem result" where
  "ct_mem b ct = bindR (deref b (ct_page ct)) (\<lambda>p. Inr (pg_data p))"


section \<open>Opening\<close>

text \<open>\<^verbatim>\<open>get_table_name(offset, size)\<close> copies the bytes into a local array and stops at the first zero.\<close>

definition get_name_at :: "mem \<Rightarrow> int \<Rightarrow> int \<Rightarrow> string result" where
  "get_name_at m off sz =
    (if sz < 0 \<or> \<not> in_page off sz then Inl UndefBehaviour
     else Inr (bytes_str (c_str (get_bytes m off sz))))"

definition init_catalog_table :: "mem \<Rightarrow> mem" where
  "init_catalog_table m = wr32 m TABLE_NUM_OFFSET 0"

fun load_tables ::
  "mem \<Rightarrow> int list \<Rightarrow> (int \<rightharpoonup> string) \<times> (string \<rightharpoonup> int) \<Rightarrow> ((int \<rightharpoonup> string) \<times> (string \<rightharpoonup> int)) result" where
  "load_tables m [] maps = Inr maps"
| "load_tables m (i # is) (ids, names) =
     bindR (rd_page m (tb_record i)) (\<lambda>name_off.
     bindR (rd_page m (tb_record i + OFFSET_T_SIZE)) (\<lambda>name_sz.
     bindR (rd_page m (tb_record i + OFFSET_T_SIZE + SIZE_T_SIZE)) (\<lambda>pid.
     bindR (get_name_at m name_off name_sz) (\<lambda>name.
       load_tables m is (umap_insert ids pid name, umap_insert names name pid)))))"

definition CatalogTable :: "bpm \<Rightarrow> int \<Rightarrow> bool \<Rightarrow> (catalog_table \<times> bpm) result" where
  "CatalogTable b pid scratch =
    bindR (get_page b pid) (\<lambda>(pg, b).
      if pg = None then Inl ExitProcess
      else bindR (if scratch then edit_data b pg (\<lambda>m. Inr (init_catalog_table m)) else Inr b) (\<lambda>b.
           bindR (deref b pg) (\<lambda>p.
           let m = pg_data p; num = rd32 m TABLE_NUM_OFFSET
           in bindR (load_tables m [0..num - 1] (Map.empty, Map.empty)) (\<lambda>(ids, names).
              bindR (if num \<noteq> 0 then rd_page m (tb_record (num - 1)) else Inr PAGE_SIZE) (\<lambda>fsp.
                Inr (\<lparr>ct_self_page_id = pid, ct_free_space_pointer = fsp, tb_id_to_name = ids,
                     tb_name_to_id = names, ct_table_num = num, ct_latch = new_latch, ct_page = pg,
                     tb_id_to_meta = Map.empty\<rparr>, b))))))"

fun destroy_metas :: "bpm \<Rightarrow> (int \<rightharpoonup> table_meta_data) \<Rightarrow> int list \<Rightarrow> bpm result" where
  "destroy_metas b metas [] = Inr b"
| "destroy_metas b metas (tid # tids) =
     (case metas tid of
        None \<Rightarrow> Inl UndefBehaviour
      | Some tm \<Rightarrow> bindR (TableMetaData_destroy b tm) (\<lambda>b. destroy_metas b metas tids))"

definition CatalogTable_destroy :: "int list \<Rightarrow> bpm \<Rightarrow> catalog_table \<Rightarrow> bpm result" where
  "CatalogTable_destroy order b ct =
    bindR (flush_page b (ct_self_page_id ct)) (\<lambda>(_, b).
    bindR (unpin_page b (ct_self_page_id ct) True) (\<lambda>b. destroy_metas b (tb_id_to_meta ct) order))"


section \<open>Lookups\<close>

definition get_table_id :: "catalog_table \<Rightarrow> string \<Rightarrow> (int \<times> catalog_table) result" where
  "get_table_id ct name =
    bindR (r_lock (ct_latch ct)) (\<lambda>l.
      let ct = ct\<lparr>ct_latch := r_unlock l\<rparr>
      in case tb_name_to_id ct name of None \<Rightarrow> Inr (- 1, ct) | Some tid \<Rightarrow> Inr (tid, ct))"

definition get_table_name :: "catalog_table \<Rightarrow> int \<Rightarrow> (string \<times> catalog_table) result" where
  "get_table_name ct tid =
    bindR (r_lock (ct_latch ct)) (\<lambda>l.
      let ct = ct\<lparr>ct_latch := r_unlock l\<rparr>
      in case tb_id_to_name ct tid of None \<Rightarrow> Inr ('''', ct) | Some name \<Rightarrow> Inr (name, ct))"

definition ct_get_free_space :: "catalog_table \<Rightarrow> int" where
  "ct_get_free_space ct =
    ct_free_space_pointer ct - COM_PG_HEADER_SZ - 4 - int (card (dom (tb_id_to_name ct))) * TABLE_RECORD_SZ"

definition get_table_meta_data_id ::
  "bpm \<Rightarrow> catalog_table \<Rightarrow> int \<Rightarrow> (table_meta_data option \<times> catalog_table \<times> bpm) result" where
  "get_table_meta_data_id b ct tid =
    bindR (w_lock (ct_latch ct)) (\<lambda>l.
      case tb_id_to_meta ct tid of
        Some tm \<Rightarrow> Inr (Some tm, ct\<lparr>ct_latch := w_unlock l\<rparr>, b)
      | None \<Rightarrow>
          (case tb_id_to_name ct tid of
             None \<Rightarrow> Inr (None, ct\<lparr>ct_latch := w_unlock l\<rparr>, b)
           | Some name \<Rightarrow>
               bindR (TableMetaData b name tid) (\<lambda>(tm, b).
                 Inr (Some tm, ct\<lparr>ct_latch := w_unlock l,
                                 tb_id_to_meta := umap_insert (tb_id_to_meta ct) tid tm\<rparr>, b))))"

definition get_table_meta_data ::
  "bpm \<Rightarrow> catalog_table \<Rightarrow> string \<Rightarrow> (table_meta_data option \<times> catalog_table \<times> bpm) result" where
  "get_table_meta_data b ct name =
    bindR (r_lock (ct_latch ct)) (\<lambda>l.
      let ct = ct\<lparr>ct_latch := r_unlock l\<rparr>
      in case tb_name_to_id ct name of
           None \<Rightarrow> Inr (None, ct, b)
         | Some tid \<Rightarrow> get_table_meta_data_id b ct tid)"

definition get_all_table_name :: "string list \<Rightarrow> catalog_table \<Rightarrow> (string list \<times> catalog_table) result" where
  "get_all_table_name order ct =
    bindR (r_lock (ct_latch ct)) (\<lambda>l. Inr (order, ct\<lparr>ct_latch := r_unlock l\<rparr>))"

definition get_all_table_id :: "string list \<Rightarrow> catalog_table \<Rightarrow> (int list \<times> catalog_table) result" where
  "get_all_table_id order ct =
    bindR (r_lock (ct_latch ct)) (\<lambda>l.
      Inr (map (\<lambda>name. the (tb_name_to_id ct name)) order, ct\<lparr>ct_latch := r_unlock l\<rparr>))"


section \<open>Creating a table\<close>

definition create_table :: "bpm \<Rightarrow> catalog_table \<Rightarrow> string \<Rightarrow> schema \<Rightarrow> (bool \<times> catalog_table \<times> bpm) result" where
  "create_table b ct name s =
    bindR (w_lock (ct_latch ct)) (\<lambda>l.
      let unlocked = (\<lambda>ct. ct\<lparr>ct_latch := w_unlock l\<rparr>)
      in if tb_name_to_id ct name \<noteq> None then Inr (False, unlocked ct, b)
         else bindR (ct_mem b ct) (\<lambda>m.
           let tb_num = rd32 m TABLE_NUM_OFFSET;
               insert_offset = tb_record tb_num;
               available_space = ct_free_space_pointer ct - insert_offset;
               len = int (length name)
           in if len + TABLE_RECORD_SZ > available_space then Inr (False, unlocked ct, b)
              else bindR (new_page b) (\<lambda>(f, b).
                   bindR (page_id_of b (Some f)) (\<lambda>pid.
                   bindR (TableMetaData_new b name s pid) (\<lambda>(tm, b).
                   bindR (unpin_page b pid False) (\<lambda>b.
                   bindR (page_id_of b (Some f)) (\<lambda>pid'.
                   let num = ct_table_num ct + 1;
                       fsp = ct_free_space_pointer ct - (len + 1)
                   in bindR (edit_data b (ct_page ct) (\<lambda>m.
                        bindR (put_page (wr32 m TABLE_NUM_OFFSET num) fsp (str_bytes name @ [0])) (\<lambda>m.
                        bindR (wr_page m insert_offset fsp) (\<lambda>m.
                        bindR (wr_page m (insert_offset + OFFSET_T_SIZE) len) (\<lambda>m.
                          wr_page m (insert_offset + OFFSET_T_SIZE + SIZE_T_SIZE) pid'))))) (\<lambda>b.
                      bindR (flush_page b (ct_self_page_id ct)) (\<lambda>(_, b).
                        Inr (True, ct\<lparr>tb_id_to_meta := umap_insert (tb_id_to_meta ct) pid tm,
                                     tb_id_to_name := umap_insert (tb_id_to_name ct) pid name,
                                     tb_name_to_id := umap_insert (tb_name_to_id ct) name pid,
                                     ct_table_num := num, ct_free_space_pointer := fsp,
                                     ct_latch := w_unlock l\<rparr>, b))))))))))"


section \<open>Deleting a table\<close>

text \<open>The search for the record of a table: its index and its offset; without a match the last ones.\<close>

fun find_record :: "mem \<Rightarrow> int \<Rightarrow> int list \<Rightarrow> int \<times> int \<Rightarrow> (int \<times> int) result" where
  "find_record m tid [] r = Inr r"
| "find_record m tid (i # is) r =
     (let off = tb_record i
      in bindR (rd_page m (off + OFFSET_T_SIZE + SIZE_T_SIZE)) (\<lambda>id.
           if tid = id then Inr (i, off) else find_record m tid is (i + 1, off)))"

definition move_page :: "mem \<Rightarrow> int \<Rightarrow> int \<Rightarrow> int \<Rightarrow> mem result" where
  "move_page m dst src n =
    (if in_page dst n \<and> in_page src n then Inr (memcpy m dst m src n) else Inl UndefBehaviour)"

text \<open>The records behind the deleted one move forward by one, their names by the room of its name.\<close>

fun close_gap :: "mem \<Rightarrow> int \<Rightarrow> int list \<Rightarrow> mem result" where
  "close_gap m room [] = Inr m"
| "close_gap m room (j # js) =
     (let off = tb_record j
      in bindR (rd_page m off) (\<lambda>name_off.
         bindR (rd_page m (off + OFFSET_T_SIZE)) (\<lambda>name_sz.
         bindR (move_page m (off - TABLE_RECORD_SZ) off TABLE_RECORD_SZ) (\<lambda>m.
         bindR (move_page m (name_off + room) name_off (name_sz + 1)) (\<lambda>m.
         bindR (rd_page m (off - TABLE_RECORD_SZ)) (\<lambda>old.
         bindR (wr_page m (off - TABLE_RECORD_SZ) (old + room)) (\<lambda>m.
           close_gap m room js)))))))"

definition ct_delete_table_data ::
  "nat \<Rightarrow> bpm \<Rightarrow> catalog_table \<Rightarrow> int \<Rightarrow> string \<Rightarrow> (catalog_table \<times> bpm) result" where
  "ct_delete_table_data n b ct tid name =
    bindR (case tb_id_to_meta ct tid of
             Some tm \<Rightarrow> Inr (tm, b)
           | None \<Rightarrow> TableMetaData b name tid) (\<lambda>(tm, b).
    bindR (tm_delete_table_data n b tm) (\<lambda>(tm, b).
    bindR (TableMetaData_destroy b tm) (\<lambda>b.
    bindR (umap_erase (tb_id_to_name ct) tid) (\<lambda>ids.
    bindR (umap_erase (tb_name_to_id ct) name) (\<lambda>names.
      Inr (ct\<lparr>tb_id_to_meta := (tb_id_to_meta ct)(tid := None), tb_id_to_name := ids,
             tb_name_to_id := names\<rparr>, b))))))"

definition delete_table_id :: "nat \<Rightarrow> bpm \<Rightarrow> catalog_table \<Rightarrow> int \<Rightarrow> (bool \<times> catalog_table \<times> bpm) result" where
  "delete_table_id n b ct tid =
    bindR (w_lock (ct_latch ct)) (\<lambda>l.
      let unlocked = (\<lambda>ct. ct\<lparr>ct_latch := w_unlock l\<rparr>)
      in case tb_id_to_name ct tid of
           None \<Rightarrow> Inr (True, unlocked ct, b)
         | Some name \<Rightarrow>
             bindR (ct_mem b ct) (\<lambda>m.
             bindR (find_record m tid [0..ct_table_num ct - 1] (0, - 1)) (\<lambda>(i, off).
               if off = - 1 then Inr (False, unlocked ct, b)
               else
                 bindR (rd_page m (off + OFFSET_T_SIZE)) (\<lambda>del_sz.
                 bindR (rd_page m (off + OFFSET_T_SIZE + SIZE_T_SIZE)) (\<lambda>del_pid.
                 bindR (edit_data b (ct_page ct) (\<lambda>m.
                   bindR (if i \<noteq> ct_table_num ct - 1
                          then close_gap m (del_sz + 1) [i + 1..ct_table_num ct - 1] else Inr m) (\<lambda>m.
                     Inr (wr32 m TABLE_NUM_OFFSET (ct_table_num ct - 1))))) (\<lambda>b.
                 let ct = ct\<lparr>ct_table_num := ct_table_num ct - 1,
                            ct_free_space_pointer := ct_free_space_pointer ct + (del_sz + 1)\<rparr>
                 in bindR (ct_delete_table_data n b ct tid name) (\<lambda>(ct, b).
                    bindR (delete_page b del_pid) (\<lambda>(_, b).
                    bindR (flush_page b (ct_self_page_id ct)) (\<lambda>(_, b).
                      Inr (True, unlocked ct, b)))))))) ))"

definition delete_table :: "nat \<Rightarrow> bpm \<Rightarrow> catalog_table \<Rightarrow> string \<Rightarrow> (bool \<times> catalog_table \<times> bpm) result" where
  "delete_table n b ct name =
    bindR (r_lock (ct_latch ct)) (\<lambda>l.
      let ct = ct\<lparr>ct_latch := r_unlock l\<rparr>
      in case tb_name_to_id ct name of
           None \<Rightarrow> Inr (True, ct, b)
         | Some tid \<Rightarrow> delete_table_id n b ct tid)"


section \<open>Renaming a table\<close>

definition check_space :: "catalog_table \<Rightarrow> int \<Rightarrow> bool" where
  "check_space ct size_needed =
    (let insert_offset = TABLE_NUM_OFFSET + ct_table_num ct * TABLE_RECORD_SZ;
         available_space = ct_free_space_pointer ct - insert_offset
     in \<not> available_space < size_needed)"

text \<open>A shorter name: the names behind it move up; the offset of each record is changed one round late.\<close>

fun shrink_names :: "mem \<Rightarrow> int \<Rightarrow> int \<Rightarrow> int list \<Rightarrow> mem result" where
  "shrink_names m num diff [] = Inr m"
| "shrink_names m num diff (j # js) =
     (let off = tb_record j
      in bindR (rd_page m off) (\<lambda>name_off.
         bindR (rd_page m (off + OFFSET_T_SIZE)) (\<lambda>name_sz.
         bindR (move_page m (name_off + diff) name_off (name_sz + 1)) (\<lambda>m.
         bindR (rd_page m (off - TABLE_RECORD_SZ)) (\<lambda>prev.
         bindR (wr_page m (off - TABLE_RECORD_SZ) (prev + diff)) (\<lambda>m.
         bindR (if j = num - 1 then bindR (rd_page m off) (\<lambda>own. wr_page m off (own + diff)) else Inr m) (\<lambda>m.
           shrink_names m num diff js)))))))"

text \<open>A longer name: from the last table down to the renamed one the names move down.\<close>

fun grow_names :: "mem \<Rightarrow> int \<Rightarrow> int list \<Rightarrow> mem result" where
  "grow_names m diff [] = Inr m"
| "grow_names m diff (k # ks) =
     (let off = tb_record k
      in bindR (rd_page m off) (\<lambda>name_off.
         bindR (rd_page m (off + OFFSET_T_SIZE)) (\<lambda>name_sz.
         bindR (move_page m (name_off - diff) name_off (name_sz + 1)) (\<lambda>m.
         bindR (rd_page m off) (\<lambda>own. bindR (wr_page m off (own - diff)) (\<lambda>m. grow_names m diff ks))))))"

definition rename_record :: "catalog_table \<Rightarrow> int \<Rightarrow> int \<Rightarrow> int \<Rightarrow> string \<Rightarrow> mem \<Rightarrow> mem result" where
  "rename_record ct i off diff new_name m =
    bindR (if diff < 0 then shrink_names m (ct_table_num ct) \<bar>diff\<bar> [i + 1..ct_table_num ct - 1]
           else if diff > 0 then grow_names m \<bar>diff\<bar> (rev [i..ct_table_num ct - 1])
           else Inr m) (\<lambda>m.
    bindR (rd_page m off) (\<lambda>name_off.
    bindR (put_page m name_off (str_bytes new_name @ [0])) (\<lambda>m.
      wr_page m (off + OFFSET_T_SIZE) (int (length new_name)))))"

text \<open>
  The table's object is given its new name only when it is not in the map, through the end iterator.
\<close>

definition change_table_name ::
  "bpm \<Rightarrow> catalog_table \<Rightarrow> int \<Rightarrow> string \<Rightarrow> (bool \<times> catalog_table \<times> bpm) result" where
  "change_table_name b ct tid new_name =
    bindR (w_lock (ct_latch ct)) (\<lambda>l.
      let unlocked = (\<lambda>ct. ct\<lparr>ct_latch := w_unlock l\<rparr>)
      in case tb_id_to_name ct tid of
           None \<Rightarrow> Inr (False, unlocked ct, b)
         | Some old_name \<Rightarrow>
             bindR (ct_mem b ct) (\<lambda>m.
             bindR (find_record m tid [0..ct_table_num ct - 1] (0, - 1)) (\<lambda>(i, off).
               if off = - 1 then Inr (False, unlocked ct, b)
               else
                 let diff = int (length new_name) - int (length old_name)
                 in if diff > 0 \<and> \<not> check_space ct \<bar>diff\<bar> then Inr (False, unlocked ct, b)
                    else bindR (edit_data b (ct_page ct) (rename_record ct i off diff new_name)) (\<lambda>b.
                         if tb_id_to_meta ct tid = None then Inl UndefBehaviour
                         else bindR (umap_erase (tb_id_to_name ct) tid) (\<lambda>ids.
                              bindR (umap_erase (tb_name_to_id ct) old_name) (\<lambda>names.
                              bindR (flush_page b (ct_self_page_id ct)) (\<lambda>(_, b).
                                Inr (True, ct\<lparr>ct_free_space_pointer := ct_free_space_pointer ct - diff,
                                             tb_id_to_name := umap_insert ids tid new_name,
                                             tb_name_to_id := umap_insert names new_name tid,
                                             ct_latch := w_unlock l\<rparr>, b))))))))"

definition ct_to_string :: "int list \<Rightarrow> catalog_table \<Rightarrow> string" where
  "ct_to_string order ct =
    ''CatalogTable{table number:'' @ show_nat (card (dom (tb_id_to_name ct))) @ ''}'' @ '' :: ['' @
    concat (map (\<lambda>(k, tid). (if k = 0 then '''' else '', '') @ the (tb_id_to_name ct tid))
              (zip [0..<length order] order)) @ '']''"

end
