(* ===== verification/DB_Manager.thy ===== *)
theory DB_Manager
  imports Catalog_Table
begin

text \<open>
  \<^verbatim>\<open>Catalog\<close> (\<^verbatim>\<open>src/src/include/meta/catalog.h\<close>) and \<^verbatim>\<open>DBManager\<close> (\<^verbatim>\<open>src/src/include/manager/db_manager.h\<close>):
  opening a database over the disk manager and the buffer pool, and closing it.
\<close>

section \<open>The catalog\<close>

definition CATALOG_TABLE_PGID_OFFSET :: int where [tp_defs]: "CATALOG_TABLE_PGID_OFFSET = COM_PG_HEADER_SZ"

record catalog =
  cat_self_page_id :: int
  cat_table :: catalog_table
  cat_page :: "int option"

definition init_catalog :: "bpm \<Rightarrow> int option \<Rightarrow> int \<Rightarrow> bpm result" where
  "init_catalog b pg self_pid =
    bindR (new_page b) (\<lambda>(f, b).
    bindR (page_id_of b (Some f)) (\<lambda>pid.
    bindR (edit_data b pg (\<lambda>m. Inr (wr32 m CATALOG_TABLE_PGID_OFFSET pid))) (\<lambda>b.
    bindR (unpin_page b pid True) (\<lambda>b.
    bindR (flush_page b self_pid) (\<lambda>(_, b). Inr b)))))"

definition Catalog :: "bpm \<Rightarrow> int \<Rightarrow> bool \<Rightarrow> (catalog \<times> bpm) result" where
  "Catalog b self_pid scratch =
    bindR (get_page b self_pid) (\<lambda>(pg, b).
      if pg = None then Inl ExitProcess
      else bindR (if scratch then init_catalog b pg self_pid else Inr b) (\<lambda>b.
           bindR (deref b pg) (\<lambda>p.
           bindR (CatalogTable b (rd32 (pg_data p) CATALOG_TABLE_PGID_OFFSET) scratch) (\<lambda>(ct, b).
             Inr (\<lparr>cat_self_page_id = self_pid, cat_table = ct, cat_page = pg\<rparr>, b)))))"

definition Catalog_destroy :: "int list \<Rightarrow> bpm \<Rightarrow> catalog \<Rightarrow> bpm result" where
  "Catalog_destroy order b c = CatalogTable_destroy order b (cat_table c)"

definition get_catalog_table_page_id :: "catalog \<Rightarrow> int" where
  "get_catalog_table_page_id c = ct_self_page_id (cat_table c)"

definition get_table :: "bpm \<Rightarrow> catalog \<Rightarrow> string \<Rightarrow> (table option \<times> catalog \<times> bpm) result" where
  "get_table b c name =
    bindR (get_table_meta_data b (cat_table c) name) (\<lambda>(tm, ct, b).
      Inr (map_option tm_table tm, c\<lparr>cat_table := ct\<rparr>, b))"


section \<open>The database\<close>

definition DEFAULT_POOL_SIZE :: int where [config_defs]: "DEFAULT_POOL_SIZE = 10240"

text \<open>
  When the disk manager cannot be created the constructor returns with \<^verbatim>\<open>status\<close> false and leaves the
  other members uninitialised; the destructor uses them all the same.  The members are one option here.
\<close>

record db_manager =
  db_open :: "(bpm \<times> catalog \<times> int) option"
  db_status :: bool

record db_env =
  env_deny :: "string \<Rightarrow> bool"
  env_int :: int
  env_page_buf :: mem
  env_meta_buf :: mem
  env_lsn :: int

definition DBManager :: "db_env \<Rightarrow> int \<Rightarrow> files \<Rightarrow> string \<Rightarrow> bool \<Rightarrow> (db_manager \<times> files) result" where
  "DBManager e pool_size files name scratch =
    bindR (create_DiskManager files (env_deny e) (env_int e) (env_page_buf e) (env_meta_buf e) name scratch) (\<lambda>(dm, files).
      case dm of
        None \<Rightarrow> Inr (\<lparr>db_open = None, db_status = False\<rparr>, files)
      | Some dm \<Rightarrow>
          let b = BufferPoolManager (env_lsn e) dm pool_size; pid = catalog_page_id dm
          in bindR (Catalog b pid scratch) (\<lambda>(c, b).
               Inr (\<lparr>db_open = Some (b, c, pid), db_status = True\<rparr>, dm_files (bp_disk b))))"

definition DBManager_destroy :: "int list \<Rightarrow> int list \<Rightarrow> db_manager \<Rightarrow> files result" where
  "DBManager_destroy page_order meta_order db =
    (case db_open db of
       None \<Rightarrow> Inl UndefBehaviour
     | Some (b, c, _) \<Rightarrow>
         bindR (flush_all page_order b) (\<lambda>(_, b).
         bindR (Catalog_destroy meta_order b c) (\<lambda>b.
         bindR (if dm_status (bp_disk b) then shutdown (bp_disk b) else Inr (bp_disk b)) (\<lambda>dm.
           Inr (dm_files dm)))))"

end
