(* ===== verification/Ast.thy ===== *)
theory Ast
  imports Expressions DB_Manager
begin

text \<open>
  The syntax tree of \<^verbatim>\<open>src/src/include/ast\<close>.  A node is its class, with the members of the class, and the
  vector of its children.  A \<^verbatim>\<open>dynamic_cast\<close> to another class gives a null pointer, on which the code asserts;
  \<^verbatim>\<open>at\<close> behind the end of the vector is undefined.  \<^verbatim>\<open>SelectNode\<close> holds its parts in members of its own.
\<close>

section \<open>Nodes\<close>

datatype NodeType = kDDL | kDML | kIdentifier | kDataType | kStmtList | kEmptyStmt
datatype DDLType = kCreateTable | kDropTable | kCreateDefList | kCreateDef | kColumnDef
datatype DMLType =
  kSelect | kInsert | kDelete | kValueList | kValue | kConstant | kSelectExprList | kSelectExpr | kTableRefs
  | kTableRef | kTableFactor | kWhereCond | kExpr | kSimpleExpr | kBitExpr | kPredicate | kComparisonOpr
  | kBooleanPrimary

datatype CreateDefNodeType = kColumn | kPrimaryKey
datatype SimpleExprType = kLiteral_expr | kIdentifier_expr
datatype BitExprType = kPlus | kMinus | kMultiply | kDivide | kSimple_bit
datatype ComparisonOprType = kEqual_opr | kGreater_opr | kLess_opr | kGreaterEq_opr | kLessEq_opr | kNotEqual_opr
datatype ExprType = kOR | kAND | kNOT | kPrimary_expr
datatype TableRefType = kFactor_ref | kJoinTable
datatype SelectExprType = kColName | kStar

text \<open>The tagged union of a \<^verbatim>\<open>LiteralNode\<close>; a string comes with the length \<^verbatim>\<open>set_str\<close> was given.\<close>

datatype literal =
    Lit_integer int
  | Lit_boolean bool
  | Lit_decimal decimal_t
  | Lit_str "byte list" int

datatype (discs_sels) node_class =
    IdentifierNode string
  | DataTypeNode TypeId int
  | StmtListNode bool
  | EmptyStmt
  | ColumnDefNode
  | CreateDefNode CreateDefNodeType
  | CreateDefListNode
  | CreateNode
  | DropNode
  | LiteralNode literal
  | ValueNode
  | ValueListNode
  | InsertNode
  | SimpleExprNode SimpleExprType
  | BitExprNode BitExprType
  | PredicateNode
  | ComparisonOprNode ComparisonOprType
  | BooleanPrimaryNode bool bool
  | ExprNode ExprType
  | TableFactorNode
  | TableRefNode TableRefType
  | TableRefsNode
  | SelectExprNode SelectExprType
  | SelectExprListNode bool
  | DeleteNode

datatype node =
    Node node_class "node list"
  | SelectNode "node option" "node option" "node option"

fun get_children :: "node \<Rightarrow> node list" where
  "get_children (Node _ cs) = cs"
| "get_children (SelectNode _ _ _) = []"

definition at_child :: "node \<Rightarrow> nat \<Rightarrow> node result" where
  "at_child n i = (if i < length (get_children n) then Inr (get_children n ! i) else Inl UndefBehaviour)"

fun add_child :: "node \<Rightarrow> node \<Rightarrow> node" where
  "add_child (Node k cs) c = Node k (cs @ [c])"
| "add_child n c = n"

definition get_child_num :: "node \<Rightarrow> nat" where
  "get_child_num n = length (get_children n)"

text \<open>The class hierarchy: the statement nodes under \<^verbatim>\<open>DDLNode\<close> and \<^verbatim>\<open>DMLNode\<close>.\<close>

fun get_ddl_type :: "node \<Rightarrow> DDLType option" where
  "get_ddl_type (Node CreateNode _) = Some kCreateTable"
| "get_ddl_type (Node DropNode _) = Some kDropTable"
| "get_ddl_type (Node CreateDefListNode _) = Some kCreateDefList"
| "get_ddl_type (Node (CreateDefNode _) _) = Some kCreateDef"
| "get_ddl_type (Node ColumnDefNode _) = Some kColumnDef"
| "get_ddl_type _ = None"

fun get_dml_type :: "node \<Rightarrow> DMLType option" where
  "get_dml_type (SelectNode _ _ _) = Some kSelect"
| "get_dml_type (Node k _) =
    (case k of
       LiteralNode _ \<Rightarrow> Some kConstant | ValueNode \<Rightarrow> Some kValue | ValueListNode \<Rightarrow> Some kValueList
     | InsertNode \<Rightarrow> Some kInsert | SimpleExprNode _ \<Rightarrow> Some kSimpleExpr | BitExprNode _ \<Rightarrow> Some kBitExpr
     | PredicateNode \<Rightarrow> Some kPredicate | ComparisonOprNode _ \<Rightarrow> Some kComparisonOpr
     | BooleanPrimaryNode _ _ \<Rightarrow> Some kBooleanPrimary | ExprNode _ \<Rightarrow> Some kExpr
     | TableFactorNode \<Rightarrow> Some kTableFactor | TableRefNode _ \<Rightarrow> Some kTableRef | TableRefsNode \<Rightarrow> Some kTableRefs
     | SelectExprNode _ \<Rightarrow> Some kSelectExpr | SelectExprListNode _ \<Rightarrow> Some kSelectExprList
     | DeleteNode \<Rightarrow> Some kDelete | _ \<Rightarrow> None)"

definition get_type :: "node \<Rightarrow> NodeType" where
  "get_type n =
    (case n of
       Node (IdentifierNode _) _ \<Rightarrow> kIdentifier
     | Node (DataTypeNode _ _) _ \<Rightarrow> kDataType
     | Node (StmtListNode _) _ \<Rightarrow> kStmtList
     | Node EmptyStmt _ \<Rightarrow> kEmptyStmt
     | _ \<Rightarrow> if get_ddl_type n \<noteq> None then kDDL else kDML)"

definition get_id :: "node \<Rightarrow> string result" where
  "get_id n = (case n of Node (IdentifierNode s) _ \<Rightarrow> Inr s | _ \<Rightarrow> Inl AssertFail)"

text \<open>\<^verbatim>\<open>dynamic_cast\<close> to a class followed by an assertion.\<close>

definition cast :: "(node_class \<Rightarrow> bool) \<Rightarrow> node \<Rightarrow> node result" where
  "cast P n = (case n of Node k _ \<Rightarrow> if P k then Inr n else Inl AssertFail | _ \<Rightarrow> Inl AssertFail)"

definition cast_at :: "(node_class \<Rightarrow> bool) \<Rightarrow> node \<Rightarrow> nat \<Rightarrow> node result" where
  "cast_at P n i = bindR (at_child n i) (cast P)"


section \<open>Statement lists\<close>

definition new_StmtListNode :: node where
  "new_StmtListNode = Node (StmtListNode False) []"

fun stmt_list_assign :: "node \<Rightarrow> node \<Rightarrow> node" where
  "stmt_list_assign old (Node (StmtListNode e) cs) = Node (StmtListNode e) cs"
| "stmt_list_assign old _ = old"

fun set_error :: "node \<Rightarrow> node" where
  "set_error (Node (StmtListNode _) cs) = Node (StmtListNode True) cs"
| "set_error n = n"

fun is_error :: "node \<Rightarrow> bool" where
  "is_error (Node (StmtListNode e) _) = e"
| "is_error _ = False"

definition get_stmt_nodes :: "node \<Rightarrow> node list" where
  "get_stmt_nodes n = get_children n"


section \<open>Definitions of data\<close>

definition new_ColumnDefNode :: "node \<Rightarrow> node" where
  "new_ColumnDefNode data_type = Node ColumnDefNode [data_type]"

definition get_data_type_node :: "node \<Rightarrow> (TypeId \<times> int) result" where
  "get_data_type_node n =
    bindR (at_child n 0) (\<lambda>c. case c of Node (DataTypeNode t len) _ \<Rightarrow> Inr (t, len) | _ \<Rightarrow> Inl AssertFail)"

definition cd_get_data_type :: "node \<Rightarrow> TypeId result" where
  "cd_get_data_type n = bindR (get_data_type_node n) (\<lambda>(t, len). Inr t)"

definition cd_get_char_len :: "node \<Rightarrow> int result" where
  "cd_get_char_len n = bindR (get_data_type_node n) (\<lambda>(t, len). Inr (if t \<noteq> kChar then - 1 else len))"

definition new_CreateDefNode :: "node \<Rightarrow> node \<Rightarrow> node" where
  "new_CreateDefNode name_node type_node = Node (CreateDefNode kColumn) [name_node, type_node]"

definition new_CreateDefNode_key :: "node \<Rightarrow> node" where
  "new_CreateDefNode_key primary_key = Node (CreateDefNode kPrimaryKey) [primary_key]"

definition def_get_col_name :: "node \<Rightarrow> string result" where
  "def_get_col_name n = bindR (at_child n 0) get_id"

definition def_get_col_type :: "node \<Rightarrow> TypeId result" where
  "def_get_col_type n = bindR (cast_at ((=) ColumnDefNode) n 1) cd_get_data_type"

definition def_get_char_len :: "node \<Rightarrow> int result" where
  "def_get_char_len n = bindR (cast_at ((=) ColumnDefNode) n 1) cd_get_char_len"

text \<open>
  \<^verbatim>\<open>CreateDefListNode::initialize\<close>: names, types and character lengths of the columns.  It runs once, on the
  first request; the children do not change afterwards, so every getter is this function.  A primary key
  is skipped and the name of the key column stays empty.
\<close>

fun def_list_initialize :: "node list \<Rightarrow> (string list \<times> TypeId list \<times> int list) result" where
  "def_list_initialize [] = Inr ([], [], [])"
| "def_list_initialize (c # cs) =
     (case c of
        Node (CreateDefNode kPrimaryKey) _ \<Rightarrow> def_list_initialize cs
      | Node (CreateDefNode kColumn) _ \<Rightarrow>
          bindR (def_get_col_name c) (\<lambda>name. bindR (def_get_col_type c) (\<lambda>t.
          bindR (if t = kChar then bindR (def_get_char_len c) (\<lambda>len. Inr [len]) else Inr []) (\<lambda>len.
          bindR (def_list_initialize cs) (\<lambda>(names, types, lens).
            Inr (name # names, t # types, len @ lens)))))
      | _ \<Rightarrow> Inl AssertFail)"

definition list_get_primary_key :: "node \<Rightarrow> string result" where
  "list_get_primary_key n = bindR (def_list_initialize (get_children n)) (\<lambda>_. Inr '''')"

definition new_CreateNode :: "node \<Rightarrow> node \<Rightarrow> node" where
  "new_CreateNode id_node def_list = Node CreateNode [id_node, def_list]"

definition create_get_tb_name :: "node \<Rightarrow> string result" where
  "create_get_tb_name n = bindR (at_child n 0) get_id"

definition get_create_def_list :: "node \<Rightarrow> node result" where
  "get_create_def_list n = cast_at ((=) CreateDefListNode) n 1"

definition create_get_col_name :: "node \<Rightarrow> string list result" where
  "create_get_col_name n =
    bindR (get_create_def_list n) (\<lambda>l. bindR (def_list_initialize (get_children l)) (\<lambda>(names, types, lens). Inr names))"

definition create_get_col_type :: "node \<Rightarrow> TypeId list result" where
  "create_get_col_type n =
    bindR (get_create_def_list n) (\<lambda>l. bindR (def_list_initialize (get_children l)) (\<lambda>(names, types, lens). Inr types))"

definition create_get_char_len :: "node \<Rightarrow> int list result" where
  "create_get_char_len n =
    bindR (get_create_def_list n) (\<lambda>l. bindR (def_list_initialize (get_children l)) (\<lambda>(names, types, lens). Inr lens))"

definition create_get_primary_key :: "node \<Rightarrow> string result" where
  "create_get_primary_key n = bindR (get_create_def_list n) list_get_primary_key"

definition new_DropNode :: "node \<Rightarrow> node" where
  "new_DropNode id_node = Node DropNode [id_node]"

definition drop_get_tb_name :: "node \<Rightarrow> string result" where
  "drop_get_tb_name n = bindR (at_child n 0) get_id"


section \<open>Inserting\<close>

text \<open>The constructor of a literal leaves the union uninitialised and its type an integer.\<close>

definition new_LiteralNode :: "int \<Rightarrow> node" where
  "new_LiteralNode garbage = Node (LiteralNode (Lit_integer garbage)) []"

fun set_literal :: "node \<Rightarrow> literal \<Rightarrow> node" where
  "set_literal (Node (LiteralNode _) cs) l = Node (LiteralNode l) cs"
| "set_literal n l = n"

definition literal_value :: "literal \<Rightarrow> value" where
  "literal_value l =
    (case l of
       Lit_integer i \<Rightarrow> VInteger i
     | Lit_decimal d \<Rightarrow> VDecimal d
     | Lit_boolean b \<Rightarrow> VBoolean b
     | Lit_str s len \<Rightarrow> construct_char (take (nat len) s))"

definition new_ValueNode :: "node \<Rightarrow> node" where
  "new_ValueNode literal_node = Node ValueNode [literal_node]"

definition value_node_value :: "node \<Rightarrow> value result" where
  "value_node_value n =
    bindR (at_child n 0) (\<lambda>c. case c of Node (LiteralNode l) _ \<Rightarrow> Inr (literal_value l) | _ \<Rightarrow> Inl AssertFail)"

definition new_InsertNode :: "node \<Rightarrow> node \<Rightarrow> node" where
  "new_InsertNode tb_name value_list = Node InsertNode [tb_name, value_list]"

definition insert_get_tb_name :: "node \<Rightarrow> string result" where
  "insert_get_tb_name n = bindR (at_child n 0) get_id"

fun node_values :: "node list \<Rightarrow> value list result" where
  "node_values [] = Inr []"
| "node_values (c # cs) =
     bindR (cast ((=) ValueNode) c) (\<lambda>c. bindR (value_node_value c) (\<lambda>v.
     bindR (node_values cs) (\<lambda>vs. Inr (v # vs))))"

definition insert_get_values :: "node \<Rightarrow> value list result" where
  "insert_get_values n =
    bindR (cast_at ((=) ValueListNode) n 1) (\<lambda>l. node_values (get_children l))"


section \<open>Conditions\<close>

definition simple_get_child :: "node \<Rightarrow> node result" where
  "simple_get_child n = at_child n 0"

definition get_the_first_bit :: "node \<Rightarrow> node result" where
  "get_the_first_bit n = cast_at is_BitExprNode n 0"

text \<open>\<^verbatim>\<open>comparison_\<close> is not initialised by the constructor; its first value is the argument.\<close>

definition new_BooleanPrimaryNode :: "bool \<Rightarrow> node" where
  "new_BooleanPrimaryNode garbage = Node (BooleanPrimaryNode False garbage) []"

fun set_recursive :: "node \<Rightarrow> bool \<Rightarrow> node" where
  "set_recursive (Node (BooleanPrimaryNode r c) cs) v = Node (BooleanPrimaryNode v c) cs"
| "set_recursive n v = n"

fun set_comparison_opr :: "node \<Rightarrow> bool \<Rightarrow> node" where
  "set_comparison_opr (Node (BooleanPrimaryNode r c) cs) v = Node (BooleanPrimaryNode r v) cs"
| "set_comparison_opr n v = n"

fun get_predicate :: "node \<Rightarrow> node result" where
  "get_predicate (Node (BooleanPrimaryNode r c) cs) =
     cast_at ((=) PredicateNode) (Node (BooleanPrimaryNode r c) cs) (if \<not> r then 0 else 2)"
| "get_predicate n = Inl UndefBehaviour"

fun bp_get_boolean_primary :: "node \<Rightarrow> node option result" where
  "bp_get_boolean_primary (Node (BooleanPrimaryNode r c) cs) =
     (if \<not> r then Inr None
      else bindR (cast_at is_BooleanPrimaryNode (Node (BooleanPrimaryNode r c) cs) 0)
             (\<lambda>n. Inr (Some n)))"
| "bp_get_boolean_primary n = Inl UndefBehaviour"

fun get_comparison_opr :: "node \<Rightarrow> node option result" where
  "get_comparison_opr (Node (BooleanPrimaryNode r c) cs) =
     (if \<not> c then Inr None
      else bindR (cast_at is_ComparisonOprNode (Node (BooleanPrimaryNode r c) cs) 1)
             (\<lambda>n. Inr (Some n)))"
| "get_comparison_opr n = Inl UndefBehaviour"

fun expr_get_boolean_primary :: "node \<Rightarrow> node option result" where
  "expr_get_boolean_primary (Node (ExprNode t) cs) =
     (if t \<noteq> kPrimary_expr then Inr None
      else bindR (cast_at is_BooleanPrimaryNode (Node (ExprNode t) cs) 0) (\<lambda>n. Inr (Some n)))"
| "expr_get_boolean_primary n = Inl UndefBehaviour"

definition get_expr :: "node \<Rightarrow> nat \<Rightarrow> node result" where
  "get_expr n i = cast_at is_ExprNode n i"

text \<open>A negation has one child, but \<^verbatim>\<open>get_exprs\<close> asks for the second one.\<close>

fun get_exprs :: "node \<Rightarrow> node list result" where
  "get_exprs (Node (ExprNode t) cs) =
     (case t of
        kPrimary_expr \<Rightarrow> Inr []
      | kNOT \<Rightarrow> bindR (get_expr (Node (ExprNode t) cs) 1) (\<lambda>e. Inr [e])
      | _ \<Rightarrow> bindR (get_expr (Node (ExprNode t) cs) 0) (\<lambda>e0. bindR (get_expr (Node (ExprNode t) cs) 1) (\<lambda>e1.
               Inr [e0, e1])))"
| "get_exprs n = Inl UndefBehaviour"


section \<open>Tables and columns of a query\<close>

definition factor_get_tb_name :: "node \<Rightarrow> string result" where
  "factor_get_tb_name n = bindR (at_child n 0) get_id"

fun ref_get_tb_name :: "node \<Rightarrow> string list result" where
  "ref_get_tb_name (Node (TableRefNode t) cs) =
     (if t = kFactor_ref
      then bindR (cast_at ((=) TableFactorNode) (Node (TableRefNode t) cs) 0) (\<lambda>f.
           bindR (factor_get_tb_name f) (\<lambda>name. Inr [name]))
      else Inr [])"
| "ref_get_tb_name n = Inl UndefBehaviour"

fun get_table_reference_nodes :: "node list \<Rightarrow> node list result" where
  "get_table_reference_nodes [] = Inr []"
| "get_table_reference_nodes (c # cs) =
     bindR (cast is_TableRefNode c) (\<lambda>r.
     bindR (get_table_reference_nodes cs) (\<lambda>rs. Inr (r # rs)))"

fun collect_names :: "node list \<Rightarrow> string list result" where
  "collect_names [] = Inr []"
| "collect_names (r # rs) = bindR (ref_get_tb_name r) (\<lambda>ns. bindR (collect_names rs) (\<lambda>ms. Inr (ns @ ms)))"

definition refs_get_tb_name :: "node \<Rightarrow> string list result" where
  "refs_get_tb_name n = bindR (get_table_reference_nodes (get_children n)) collect_names"

fun select_get_col_name :: "node \<Rightarrow> string result" where
  "select_get_col_name (Node (SelectExprNode t) cs) =
     (if t \<noteq> kColName then Inr '''' else bindR (at_child (Node (SelectExprNode t) cs) 0) get_id)"
| "select_get_col_name n = Inl UndefBehaviour"

fun select_names :: "node list \<Rightarrow> string list result" where
  "select_names [] = Inr []"
| "select_names (c # cs) =
     (case c of
        Node (SelectExprNode t) _ \<Rightarrow>
          if t \<noteq> kColName then select_names cs
          else bindR (select_get_col_name c) (\<lambda>n. bindR (select_names cs) (\<lambda>ns. Inr (n # ns)))
      | _ \<Rightarrow> Inl AssertFail)"

fun is_star :: "node \<Rightarrow> bool" where
  "is_star (Node (SelectExprListNode s) _) = s"
| "is_star _ = False"

fun set_star :: "node \<Rightarrow> bool \<Rightarrow> node" where
  "set_star (Node (SelectExprListNode _) cs) s = Node (SelectExprListNode s) cs"
| "set_star n s = n"

definition get_col_names :: "node \<Rightarrow> string list result" where
  "get_col_names n = (if is_star n then Inr [] else select_names (get_children n))"

definition check_projection_need :: "node \<Rightarrow> bool" where
  "check_projection_need n = (if is_star n then False else True)"

text \<open>A name that the schema does not have becomes a column expression with the index -1.\<close>

definition build_exprs :: "node \<Rightarrow> schema \<Rightarrow> expr list result" where
  "build_exprs n input_schema =
    bindR (get_col_names n) (\<lambda>names. Inr (map (\<lambda>name. ColumnValueExpression (get_column_idx input_schema name)) names))"

text \<open>
  \<^verbatim>\<open>get_projection\<close> answers a null pointer for \<^verbatim>\<open>*\<close> and flows off its end otherwise, as \<^verbatim>\<open>construct\<close> and
  \<^verbatim>\<open>build_output_schema\<close> always do, which is undefined for a function that returns a value.
\<close>

definition get_projection :: "node \<Rightarrow> unit option result" where
  "get_projection n = (if \<not> check_projection_need n then Inr None else Inl UndefBehaviour)"

definition select_construct :: "node \<Rightarrow> unit result" where
  "select_construct n = Inl UndefBehaviour"

definition build_output_schema :: "node \<Rightarrow> schema result" where
  "build_output_schema n = Inl UndefBehaviour"

fun set_select_expr_list :: "node \<Rightarrow> node \<Rightarrow> node" where
  "set_select_expr_list (SelectNode l t w) x = SelectNode (Some x) t w"
| "set_select_expr_list n x = n"

fun set_table_refs :: "node \<Rightarrow> node \<Rightarrow> node" where
  "set_table_refs (SelectNode l t w) x = SelectNode l (Some x) w"
| "set_table_refs n x = n"

fun set_where_cond :: "node \<Rightarrow> node \<Rightarrow> node" where
  "set_where_cond (SelectNode l t w) x = SelectNode l t (Some x)"
| "set_where_cond n x = n"

definition new_SelectNode :: node where
  "new_SelectNode = SelectNode None None None"

end
