(* ===== verification/Lex.thy ===== *)
theory Lex
  imports Binary64 Dawn_Prelude
begin

text \<open>
  The lexer of \<^verbatim>\<open>src/src/sql/lex.cpp\<close>.  The text is a string and the lexer a cursor in it; \<^verbatim>\<open>pos_\<close> is the
  index of the last character read and starts at -1.  \<^verbatim>\<open>next_char\<close> answers 0 at the end of the text without
  moving the cursor.  The token codes come from a header the parser generator writes, so only their names
  appear here.  The token is a state of its own: its value is a union that keeps what the previous token
  left, and \<^verbatim>\<open>read_number\<close> even looks at the type the previous token left.
\<close>

section \<open>Tokens\<close>

datatype token_type =
    TOKEN_CREATE | TOKEN_TABLE | TOKEN_PRIMARY_KEY | TOKEN_CHAR | TOKEN_INT | TOKEN_DECIMAL | TOKEN_BOOLEAN
  | TOKEN_DROP | TOKEN_INSERT | TOKEN_INTO | TOKEN_VALUES | TOKEN_DELETE | TOKEN_FROM | TOKEN_WHERE
  | TOKEN_SELECT | TOKEN_TRUE | TOKEN_FALSE | TOKEN_NATURAL | TOKEN_JOIN | TOKEN_OR | TOKEN_NOT | TOKEN_AND
  | TOKEN_STRING | TOKEN_ID | TOKEN_INT_NUM | TOKEN_DECIMAL_NUM | TOKEN_LEFT_PARENTHESES
  | TOKEN_RIGHT_PARENTHESES | TOKEN_SEMICOLON | TOKEN_COMMA | TOKEN_LE_EQ | TOKEN_LESS_SIGN | TOKEN_GT_EQ
  | TOKEN_GREATER_SIGN | TOKEN_STAR | TOKEN_EQUAL

text \<open>The union of a token; a string is the heap block \<^verbatim>\<open>build_str\<close> copied, terminator included.\<close>

datatype token_val = Tk_integer int | Tk_decimal decimal_t | Tk_varchar string

record token =
  tk_type :: token_type
  tk_val :: token_val

definition build_str :: "token \<Rightarrow> string \<Rightarrow> token" where
  "build_str tk source = tk\<lparr>tk_val := Tk_varchar source\<rparr>"

definition NUL :: char where "NUL = CHR 0x00"

text \<open>The C string in a buffer.\<close>

definition cstr :: "string \<Rightarrow> string" where
  "cstr buf = takeWhile (\<lambda>c. c \<noteq> NUL) buf"

definition key_words :: "string \<rightharpoonup> token_type" where
  "key_words = map_of
    [(''create'', TOKEN_CREATE), (''CREATE'', TOKEN_CREATE), (''table'', TOKEN_TABLE), (''TABLE'', TOKEN_TABLE),
     (''primary key'', TOKEN_PRIMARY_KEY), (''PRIMARY KEY'', TOKEN_PRIMARY_KEY),
     (''char'', TOKEN_CHAR), (''CHAR'', TOKEN_CHAR), (''int'', TOKEN_INT), (''INT'', TOKEN_INT),
     (''decimal'', TOKEN_DECIMAL), (''DECIMAL'', TOKEN_DECIMAL),
     (''boolean'', TOKEN_BOOLEAN), (''BOOLEAN'', TOKEN_BOOLEAN), (''drop'', TOKEN_DROP), (''DROP'', TOKEN_DROP),
     (''insert'', TOKEN_INSERT), (''INSERT'', TOKEN_INSERT), (''into'', TOKEN_INTO), (''INTO'', TOKEN_INTO),
     (''values'', TOKEN_VALUES), (''VALUES'', TOKEN_VALUES), (''delete'', TOKEN_DELETE), (''DELETE'', TOKEN_DELETE),
     (''from'', TOKEN_FROM), (''FROM'', TOKEN_FROM), (''where'', TOKEN_WHERE), (''WHERE'', TOKEN_WHERE),
     (''select'', TOKEN_SELECT), (''SELECT'', TOKEN_SELECT), (''true'', TOKEN_TRUE), (''TRUE'', TOKEN_TRUE),
     (''false'', TOKEN_FALSE), (''FALSE'', TOKEN_FALSE), (''natural'', TOKEN_NATURAL), (''NATURAL'', TOKEN_NATURAL),
     (''join'', TOKEN_JOIN), (''JOIN'', TOKEN_JOIN), (''or'', TOKEN_OR), (''OR'', TOKEN_OR),
     (''not'', TOKEN_NOT), (''NOT'', TOKEN_NOT), (''and'', TOKEN_AND), (''AND'', TOKEN_AND)]"

definition key_words_prefix :: "string list" where
  "key_words_prefix = [''primary'', ''PRIMARY'']"


section \<open>The cursor\<close>

record lex =
  lx_sql :: string
  lx_pos :: int
  lx_buf :: string

definition Lex :: "string \<Rightarrow> lex" where
  "Lex sql = \<lparr>lx_sql = sql, lx_pos = - 1, lx_buf = []\<rparr>"

text \<open>The constructor from a file appends its lines, which \<^verbatim>\<open>fgets\<close> hands out in pieces, as C strings.\<close>

definition Lex_file :: "string list \<Rightarrow> lex" where
  "Lex_file lines = Lex (concat (map cstr lines))"

definition sql_len :: "lex \<Rightarrow> int" where
  "sql_len lx = int (length (lx_sql lx))"

definition step_back :: "lex \<Rightarrow> lex" where
  "step_back lx = lx\<lparr>lx_pos := lx_pos lx - 1\<rparr>"

definition get_char :: "lex \<Rightarrow> char" where
  "get_char lx = lx_sql lx ! nat (lx_pos lx)"

definition next_char :: "lex \<Rightarrow> char \<times> lex" where
  "next_char lx =
    (if sql_len lx \<le> lx_pos lx + 1 then (NUL, lx)
     else (lx_sql lx ! nat (lx_pos lx + 1), lx\<lparr>lx_pos := lx_pos lx + 1\<rparr>))"

definition peek_next :: "lex \<Rightarrow> char" where
  "peek_next lx = (if sql_len lx \<le> lx_pos lx + 1 then NUL else lx_sql lx ! nat (lx_pos lx + 1))"

definition push_back :: "lex \<Rightarrow> char \<Rightarrow> lex" where
  "push_back lx c = lx\<lparr>lx_buf := lx_buf lx @ [c]\<rparr>"

definition pop_back :: "lex \<Rightarrow> lex" where
  "pop_back lx = lx\<lparr>lx_buf := butlast (lx_buf lx)\<rparr>"

definition clear_buf :: "lex \<Rightarrow> lex" where
  "clear_buf lx = lx\<lparr>lx_buf := []\<rparr>"

definition is_digit :: "char \<Rightarrow> bool" where
  "is_digit c \<longleftrightarrow> c \<in> set ''0123456789''"

definition is_letter :: "char \<Rightarrow> bool" where
  "is_letter c \<longleftrightarrow> c \<in> set ''abcdefghijklmnopqrstuvwxyzABCDEFGHIJKLMNOPQRSTUVWXYZ''"

definition id_char :: "char \<Rightarrow> bool" where
  "id_char c \<longleftrightarrow> is_letter c \<or> is_digit c \<or> c = CHR ''_''"

text \<open>
  The loops that read characters of a class.  None of the classes contains the zero character, so the
  explicit test changes nothing; it makes the recursion well-founded.
\<close>

function read_while :: "(char \<Rightarrow> bool) \<Rightarrow> lex \<Rightarrow> char \<times> lex" where
  "read_while P lx =
    (let (c, lx') = next_char lx
     in if c \<noteq> NUL \<and> P c then read_while P (push_back lx' c) else (c, lx'))"
  by auto
termination
  by (relation "measure (\<lambda>(P, lx). nat (sql_len lx - lx_pos lx))")
    (auto simp: next_char_def push_back_def sql_len_def split: if_splits)

function skip_while :: "(char \<Rightarrow> bool) \<Rightarrow> lex \<Rightarrow> char \<times> lex" where
  "skip_while P lx =
    (let (c, lx') = next_char lx
     in if c \<noteq> NUL \<and> P c then skip_while P lx' else (c, lx'))"
  by auto
termination
  by (relation "measure (\<lambda>(P, lx). nat (sql_len lx - lx_pos lx))")
    (auto simp: next_char_def sql_len_def split: if_splits)

declare read_while.simps [simp del] skip_while.simps [simp del]


section \<open>Reading a token\<close>

definition is_key_word :: "lex \<Rightarrow> token \<Rightarrow> bool \<times> token" where
  "is_key_word lx tk =
    (case key_words (cstr (lx_buf lx)) of None \<Rightarrow> (False, tk) | Some t \<Rightarrow> (True, tk\<lparr>tk_type := t\<rparr>))"

text \<open>Without a match the terminator stays in the buffer.\<close>

definition check_special_key_word_prefix :: "lex \<Rightarrow> bool \<times> lex" where
  "check_special_key_word_prefix lx =
    (let lx = push_back lx NUL
     in if cstr (lx_buf lx) \<in> set key_words_prefix then (True, pop_back lx) else (False, lx))"

definition is_special_key_word :: "lex \<Rightarrow> token \<Rightarrow> bool \<times> token \<times> lex" where
  "is_special_key_word lx tk =
    (let (c, lx) = skip_while (\<lambda>c. c = CHR '' '') lx;
         lx = push_back (push_back lx (CHR '' '')) c;
         (c, lx) = read_while id_char lx;
         lx = push_back (step_back lx) NUL;
         (ok, tk) = is_key_word lx tk
     in (ok, tk, lx))"

function read_string_loop :: "char \<Rightarrow> lex \<Rightarrow> bool \<times> lex" where
  "read_string_loop c lx =
    (if c = NUL then (False, lx)
     else if c = CHR 0x22 \<or> c = CHR 0x27 then (True, push_back lx NUL)
     else if c = CHR 0x5C
     then (let (c, lx) = next_char lx; (c', lx) = next_char (push_back lx c) in read_string_loop c' lx)
     else (let (c', lx) = next_char (push_back lx c) in read_string_loop c' lx))"
  by auto
termination
  by (relation "measure (\<lambda>(c, lx). if c = NUL then 0 else Suc (nat (sql_len lx - lx_pos lx)))")
    (auto simp: next_char_def push_back_def sql_len_def split: if_splits)

declare read_string_loop.simps [simp del]

definition read_string :: "lex \<Rightarrow> token \<Rightarrow> bool \<times> token \<times> lex" where
  "read_string lx tk =
    (let (c, lx) = next_char (clear_buf lx); (ok, lx) = read_string_loop c lx
     in if ok then (True, build_str (tk\<lparr>tk_type := TOKEN_STRING\<rparr>) (lx_buf lx), lx) else (False, tk, lx))"

definition finish_id :: "lex \<Rightarrow> token \<Rightarrow> bool \<times> token \<times> lex" where
  "finish_id lx tk =
    (let lx = push_back lx NUL; (ok, tk) = is_key_word lx tk
     in if ok then (True, tk, lx) else (True, build_str (tk\<lparr>tk_type := TOKEN_ID\<rparr>) (lx_buf lx), lx))"

definition read_id :: "lex \<Rightarrow> token \<Rightarrow> bool \<times> token \<times> lex" where
  "read_id lx tk =
    (let lx = clear_buf lx; lx = push_back lx (get_char lx); (c, lx) = read_while id_char lx
     in if c = CHR '' ''
        then (let (special, lx) = check_special_key_word_prefix lx
              in if \<not> special then finish_id (step_back lx) tk else is_special_key_word lx tk)
        else finish_id (step_back lx) tk)"

text \<open>
  \<^verbatim>\<open>atof\<close> on digits, and on digits with a fraction, rounded to the nearest double.  Assigning the result
  to an \<^verbatim>\<open>integer_t\<close> is undefined when it does not fit; below that bound every integer is a double.
\<close>

definition digit_val :: "char \<Rightarrow> int" where
  "digit_val c = int (of_char c) - 48"

definition digits_val :: "string \<Rightarrow> int" where
  "digits_val ds = foldl (\<lambda>v c. 10 * v + digit_val c) 0 ds"

definition atof :: "string \<Rightarrow> decimal_t" where
  "atof s =
    (let whole = takeWhile is_digit s;
         frac = takeWhile is_digit (drop (Suc (length whole)) s)
     in dbl_round False (of_int (digits_val whole) + of_int (digits_val frac) / 10 ^ length frac))"

definition read_decimal :: "lex \<Rightarrow> token \<Rightarrow> bool \<times> token \<times> lex" where
  "read_decimal lx tk =
    (let (c, lx) = read_while is_digit lx; lx = push_back (step_back lx) NUL
     in (True, tk\<lparr>tk_val := Tk_decimal (atof (cstr (lx_buf lx))), tk_type := TOKEN_DECIMAL_NUM\<rparr>, lx))"

definition read_number :: "lex \<Rightarrow> token \<Rightarrow> (bool \<times> token \<times> lex) result" where
  "read_number lx tk =
    (let lx = clear_buf lx; lx = push_back lx (get_char lx); (c, lx) = read_while is_digit lx
     in if c = CHR ''.''
        then if is_digit (peek_next lx) then Inr (read_decimal (push_back lx (CHR ''.'')) tk)
             else Inr (False, tk, lx)
        else let lx = push_back (step_back lx) NUL; v = digits_val (cstr (lx_buf lx))
             in if v > 2147483647 then Inl UndefBehaviour
                else let tk = tk\<lparr>tk_val := Tk_integer v\<rparr>
                     in Inr (True, if tk_type tk \<noteq> TOKEN_DECIMAL then tk\<lparr>tk_type := TOKEN_INT_NUM\<rparr> else tk, lx))"

text \<open>The comparison signs: a sign alone gives the character behind it back.\<close>

definition read_sign :: "lex \<Rightarrow> token \<Rightarrow> token_type \<Rightarrow> token_type \<Rightarrow> bool \<times> token \<times> lex" where
  "read_sign lx tk with_eq alone =
    (let (c, lx) = next_char lx
     in if c = CHR ''='' then (True, tk\<lparr>tk_type := with_eq\<rparr>, lx)
        else (True, tk\<lparr>tk_type := alone\<rparr>, step_back lx))"

definition next_token :: "lex \<Rightarrow> token \<Rightarrow> (bool \<times> token \<times> lex) result" where
  "next_token lx tk =
    (let (c, lx) = skip_while (\<lambda>c. c = CHR '' '' \<or> c = CHR 0x0A) lx
     in if c = NUL then Inr (False, tk, lx)
        else if c = CHR ''('' then Inr (True, tk\<lparr>tk_type := TOKEN_LEFT_PARENTHESES\<rparr>, lx)
        else if c = CHR '')'' then Inr (True, tk\<lparr>tk_type := TOKEN_RIGHT_PARENTHESES\<rparr>, lx)
        else if c = CHR '';'' then Inr (True, tk\<lparr>tk_type := TOKEN_SEMICOLON\<rparr>, lx)
        else if c = CHR '','' then Inr (True, tk\<lparr>tk_type := TOKEN_COMMA\<rparr>, lx)
        else if c = CHR ''<'' then Inr (read_sign lx tk TOKEN_LE_EQ TOKEN_LESS_SIGN)
        else if c = CHR ''>'' then Inr (read_sign lx tk TOKEN_GT_EQ TOKEN_GREATER_SIGN)
        else if c = CHR ''*'' then Inr (True, tk\<lparr>tk_type := TOKEN_STAR\<rparr>, lx)
        else if c = CHR ''='' then Inr (True, tk\<lparr>tk_type := TOKEN_EQUAL\<rparr>, lx)
        else if c = CHR 0x22 \<or> c = CHR 0x27 then Inr (read_string lx tk)
        else if is_letter c \<or> c = CHR ''_'' then Inr (read_id lx tk)
        else if is_digit c then read_number lx tk
        else Inr (False, tk, lx))"

text \<open>
  The loop of \<^verbatim>\<open>sql_execute\<close> that hands every token to the parser: the tokens in order and the token
  as it stands at the end, within a number of rounds.
\<close>

fun tokens :: "nat \<Rightarrow> lex \<Rightarrow> token \<Rightarrow> (token list \<times> token) result" where
  "tokens 0 lx tk = Inl OutOfFuel"
| "tokens (Suc n) lx tk =
     bindR (next_token lx tk) (\<lambda>(ok, tk, lx).
       if ok then bindR (tokens n lx tk) (\<lambda>(ts, last_tk). Inr (tk # ts, last_tk)) else Inr ([], tk))"

end
