(* ===== verification/Sql_Execute.thy ===== *)
theory Sql_Execute
  imports Ast Lex
begin

text \<open>
  \<^verbatim>\<open>sql_execute\<close> of \<^verbatim>\<open>src/src/sql/sql_parse.cpp\<close> and the response of \<^verbatim>\<open>src/src/include/server/message.h\<close>.
  The parser is generated from the grammar when the program is built; here it is the argument \<open>parse\<close>, which
  gets the tokens in their order and the token as it stands at the end of the input, and returns the statement
  list the root of the tree holds afterwards.
\<close>

section \<open>Responses\<close>

datatype MsgType = Unparsed | SqlInsert | SqlSelect | SqlCreateTb | SqlDropTb | SqlDelete

record response_msg =
  msg_type :: MsgType
  msg_prefix :: string
  msg_text :: string
  msg_success :: bool

definition set_prefix :: "response_msg \<Rightarrow> response_msg" where
  "set_prefix m =
    (case msg_type m of
       SqlDelete \<Rightarrow> m\<lparr>msg_prefix := ''Delete''\<rparr>
     | SqlInsert \<Rightarrow> m\<lparr>msg_prefix := ''Insert''\<rparr>
     | SqlCreateTb \<Rightarrow> m\<lparr>msg_prefix := ''Create Table''\<rparr>
     | SqlDropTb \<Rightarrow> m\<lparr>msg_prefix := ''Drop Table''\<rparr>
     | Unparsed \<Rightarrow> m\<lparr>msg_prefix := ''Sql is invalid.''\<rparr>
     | _ \<Rightarrow> m)"

definition ResponseMsg :: "MsgType \<Rightarrow> response_msg" where
  "ResponseMsg t = set_prefix \<lparr>msg_type = t, msg_prefix = '''', msg_text = '''', msg_success = False\<rparr>"

definition msg_set_type :: "response_msg \<Rightarrow> MsgType \<Rightarrow> response_msg" where
  "msg_set_type m t = set_prefix (m\<lparr>msg_type := t\<rparr>)"

definition append_msg :: "response_msg \<Rightarrow> string \<Rightarrow> response_msg" where
  "append_msg m s = m\<lparr>msg_text := msg_text m @ s\<rparr>"

definition msg_set_status :: "response_msg \<Rightarrow> bool \<Rightarrow> response_msg" where
  "msg_set_status m success =
    m\<lparr>msg_success := success, msg_prefix := msg_prefix m @ (if success then '' OK.'' else '' FAIL.'')\<rparr>"

definition get_response_msg :: "response_msg \<Rightarrow> string" where
  "get_response_msg m = msg_prefix m @ msg_text m"


section \<open>Statements\<close>

text \<open>The database the global \<^verbatim>\<open>db_manager\<close> points to: its buffer pool and its catalog.\<close>

type_synonym db = "bpm \<times> catalog"

definition sql_create_table :: "db \<Rightarrow> node \<Rightarrow> (bool \<times> db) result" where
  "sql_create_table d n =
    (case d of (b, c) \<Rightarrow>
      bindR (create_get_tb_name n) (\<lambda>name.
      bindR (get_table_id (cat_table c) name) (\<lambda>(tid, ct).
        if tid \<noteq> - 1 then Inr (False, b, c\<lparr>cat_table := ct\<rparr>)
        else bindR (create_get_col_type n) (\<lambda>types. bindR (create_get_col_name n) (\<lambda>names.
             bindR (create_get_char_len n) (\<lambda>lens.
             bindR (create_table_schema types names lens) (\<lambda>s.
               case s of
                 None \<Rightarrow> Inl NullDeref
               | Some s \<Rightarrow>
                   bindR (create_table b ct name s) (\<lambda>(ok, ct, b).
                     if \<not> ok then Inl ExitProcess else Inr (True, b, c\<lparr>cat_table := ct\<rparr>)))))))))"

definition sql_drop_table :: "nat \<Rightarrow> db \<Rightarrow> node \<Rightarrow> (bool \<times> db) result" where
  "sql_drop_table k d n =
    (case d of (b, c) \<Rightarrow>
      bindR (drop_get_tb_name n) (\<lambda>name.
      bindR (delete_table k b (cat_table c) name) (\<lambda>(ok, ct, b). Inr (ok, b, c\<lparr>cat_table := ct\<rparr>))))"

definition insert_data :: "nat \<Rightarrow> junk \<Rightarrow> db \<Rightarrow> node \<Rightarrow> (bool \<times> db) result" where
  "insert_data k junk d n =
    (case d of (b, c) \<Rightarrow>
      bindR (insert_get_tb_name n) (\<lambda>name.
      bindR (get_table_meta_data b (cat_table c) name) (\<lambda>(tm, ct, b).
        case tm of
          None \<Rightarrow> Inr (False, b, c\<lparr>cat_table := ct\<rparr>)
        | Some tm \<Rightarrow>
            bindR (insert_get_values n) (\<lambda>vals.
            bindR (tuple_init junk vals (tm_schema tm) invalid_rid) (\<lambda>t.
            bindR (tb_insert_tuple k junk b (tm_table tm) t (tm_schema tm)) (\<lambda>(ok, t, b).
              Inr (ok, b, c\<lparr>cat_table := ct\<rparr>)))))))"

text \<open>One round of the loop over the statements: the flag \<^verbatim>\<open>success\<close>, the message and the database.\<close>

definition exec_stmt :: "nat \<Rightarrow> junk \<Rightarrow> node \<Rightarrow> bool \<times> response_msg \<times> db \<Rightarrow> (bool \<times> response_msg \<times> db) result" where
  "exec_stmt k junk stmt st =
    (case st of (success, msg, d) \<Rightarrow>
      if get_type stmt = kEmptyStmt then Inr (success, msg, d)
      else case get_ddl_type stmt of
             Some kCreateTable \<Rightarrow>
               bindR (sql_create_table d stmt) (\<lambda>(ok, d). Inr (ok, msg_set_type msg SqlCreateTb, d))
           | Some kDropTable \<Rightarrow>
               bindR (sql_drop_table k d stmt) (\<lambda>(ok, d). Inr (ok, msg_set_type msg SqlDropTb, d))
           | Some _ \<Rightarrow> Inl AssertFail
           | None \<Rightarrow>
               (case get_dml_type stmt of
                  Some kInsert \<Rightarrow>
                    bindR (insert_data k junk d stmt) (\<lambda>(ok, d). Inr (ok, msg_set_type msg SqlInsert, d))
                | _ \<Rightarrow> Inl AssertFail))"

fun exec_stmts ::
  "nat \<Rightarrow> junk \<Rightarrow> node list \<Rightarrow> bool \<times> response_msg \<times> db \<Rightarrow> (bool \<times> response_msg \<times> db) result" where
  "exec_stmts k junk [] st = Inr st"
| "exec_stmts k junk (stmt # stmts) st =
     bindR (exec_stmt k junk stmt st) (\<lambda>st. exec_stmts k junk stmts st)"

definition sql_execute ::
  "(token list \<Rightarrow> token \<Rightarrow> node) \<Rightarrow> nat \<Rightarrow> junk \<Rightarrow> token \<Rightarrow> db \<Rightarrow> lex \<Rightarrow> (response_msg \<times> db) result" where
  "sql_execute parse k junk tk0 d lx =
    bindR (tokens k lx tk0) (\<lambda>(ts, last_tk).
      let root = parse ts last_tk; msg = ResponseMsg Unparsed
      in if is_error root then Inr (msg, d)
         else bindR (exec_stmts k junk (get_stmt_nodes root) (False, msg, d)) (\<lambda>(success, msg, d).
                Inr (msg_set_status msg success, d)))"

end
