(* ===== verification/Server.thy ===== *)
theory Server
  imports Sql_Execute
begin

text \<open>
  The server side: the task that reads a client's bytes (\<^verbatim>\<open>src/src/server/task.cpp\<close>), the pool of worker
  threads (\<^verbatim>\<open>src/src/util/work_pool.cpp\<close>) and the dispatch of socket events to it
  (\<^verbatim>\<open>src/src/server/server.cpp\<close>).  What the sockets deliver is input: the results of \<^verbatim>\<open>recv\<close>, the events of
  \<^verbatim>\<open>epoll_wait\<close>, the descriptors of \<^verbatim>\<open>accept\<close>.  The setup of the sockets is not modelled.

  Threads interleave at their critical sections.  A thread that waits on a condition variable waits for
  its predicate, so waiting is the guard of the step that follows it.
\<close>

section \<open>Reading statements from a client\<close>

datatype recv_result = Recv_again | Recv_error | Recv_closed | Recv_data string

record task =
  tsk_fd :: int
  tsk_tmp :: string
  tsk_finish :: bool

definition HandleClientMsgTask :: "int \<Rightarrow> task" where
  "HandleClientMsgTask fd = \<lparr>tsk_fd = fd, tsk_tmp = [], tsk_finish = False\<rparr>"

text \<open>The buffer is zeroed before every \<^verbatim>\<open>recv\<close>, which fills at most \<^verbatim>\<open>RECV_BUFFER_SIZE - 1\<close> bytes of it.\<close>

definition recv_buffer :: "string \<Rightarrow> string" where
  "recv_buffer data = data @ replicate (RECV_BUFFER_SIZE - length data) NUL"

definition search_semicolon :: "string \<Rightarrow> int" where
  "search_semicolon buffer =
    (case find (\<lambda>i. buffer ! i = CHR '';'') [0..<RECV_BUFFER_SIZE - 1] of Some i \<Rightarrow> int i | None \<Rightarrow> - 1)"

text \<open>The statement handed to the database is the C string in \<^verbatim>\<open>tmp_\<close>.\<close>

definition handle_sql :: "(string \<Rightarrow> 'd \<Rightarrow> (string \<times> 'd) result) \<Rightarrow> string \<Rightarrow> 'd \<Rightarrow> (string \<times> 'd) result" where
  "handle_sql exec tmp d = exec (cstr (tmp @ [NUL])) d"

fun task_run ::
  "(string \<Rightarrow> 'd \<Rightarrow> (string \<times> 'd) result) \<Rightarrow> recv_result list \<Rightarrow> task \<Rightarrow> 'd \<Rightarrow> (string list \<times> task \<times> 'd) result" where
  "task_run exec [] t d = Inl Blocked"
| "task_run exec (Recv_again # rs) t d = Inr ([], t, d)"
| "task_run exec (Recv_error # rs) t d = Inr ([], t\<lparr>tsk_finish := True\<rparr>, d)"
| "task_run exec (Recv_closed # rs) t d = Inr ([], t\<lparr>tsk_finish := True\<rparr>, d)"
| "task_run exec (Recv_data data # rs) t d =
     (let buffer = recv_buffer data; ret = length data;
          semi_pos = search_semicolon buffer;
          push_num = (if semi_pos = - 1 then ret else nat semi_pos + 1);
          tmp = tsk_tmp t @ take push_num buffer
      in if semi_pos \<noteq> - 1
         then bindR (handle_sql exec tmp d) (\<lambda>(msg, d).
              bindR (task_run exec rs (t\<lparr>tsk_tmp := drop push_num (take ret buffer)\<rparr>) d) (\<lambda>(msgs, t, d).
                Inr (msg # msgs, t, d)))
         else task_run exec rs (t\<lparr>tsk_tmp := tmp\<rparr>) d)"

text \<open>The task as the server runs it: every statement goes through \<^const>\<open>sql_execute\<close>.\<close>

definition execute_text ::
  "(token list \<Rightarrow> token \<Rightarrow> node) \<Rightarrow> nat \<Rightarrow> junk \<Rightarrow> token \<Rightarrow> string \<Rightarrow> db \<Rightarrow> (string \<times> db) result" where
  "execute_text parse k junk tk0 sql d =
    bindR (sql_execute parse k junk tk0 d (Lex sql)) (\<lambda>(msg, d). Inr (get_response_msg msg, d))"


section \<open>The pool of workers\<close>

datatype 't worker = Idle | Busy 't | Exited

record 't work_pool =
  wp_tasks :: "'t list"
  wp_busy :: "32 word"
  wp_running :: bool
  wp_workers :: "'t worker list"
  wp_finished :: "'t list"

definition WorkPool :: "'t work_pool" where
  "WorkPool = \<lparr>wp_tasks = [], wp_busy = 0, wp_running = False, wp_workers = [], wp_finished = []\<rparr>"

definition start_up :: "nat \<Rightarrow> 't work_pool \<Rightarrow> 't work_pool" where
  "start_up n w = w\<lparr>wp_running := True, wp_workers := wp_workers w @ replicate n Idle\<rparr>"

definition add_task :: "'t work_pool \<Rightarrow> 't \<Rightarrow> 't work_pool" where
  "add_task w t = w\<lparr>wp_tasks := wp_tasks w @ [t]\<rparr>"

definition wp_stop :: "'t work_pool \<Rightarrow> 't work_pool" where
  "wp_stop w = w\<lparr>wp_running := False\<rparr>"

text \<open>The three critical sections of a worker: leave, take a task, report it done.\<close>

definition worker_exit :: "'t work_pool \<Rightarrow> nat \<Rightarrow> 't work_pool" where
  "worker_exit w i = w\<lparr>wp_workers := (wp_workers w)[i := Exited]\<rparr>"

definition worker_take :: "'t work_pool \<Rightarrow> nat \<Rightarrow> 't work_pool" where
  "worker_take w i =
    w\<lparr>wp_workers := (wp_workers w)[i := Busy (hd (wp_tasks w))], wp_tasks := tl (wp_tasks w), wp_busy := wp_busy w + 1\<rparr>"

definition worker_done :: "'t work_pool \<Rightarrow> nat \<Rightarrow> 't \<Rightarrow> 't work_pool" where
  "worker_done w i t =
    w\<lparr>wp_workers := (wp_workers w)[i := Idle], wp_busy := wp_busy w - 1, wp_finished := wp_finished w @ [t]\<rparr>"

definition all_finished :: "'t work_pool \<Rightarrow> bool" where
  "all_finished w \<longleftrightarrow> wp_busy w = 0 \<and> wp_tasks w = []"

text \<open>A step of the pool, with the tasks it adds.\<close>

inductive wp_step :: "'t work_pool \<Rightarrow> 't list \<Rightarrow> 't work_pool \<Rightarrow> bool" where
  add: "wp_step w [t] (add_task w t)"
| stop: "wp_step w [] (wp_stop w)"
| leave: "i < length (wp_workers w) \<Longrightarrow> wp_workers w ! i = Idle \<Longrightarrow> \<not> wp_running w \<Longrightarrow> wp_step w [] (worker_exit w i)"
| grab: "i < length (wp_workers w) \<Longrightarrow> wp_workers w ! i = Idle \<Longrightarrow> wp_running w \<Longrightarrow> wp_tasks w \<noteq> [] \<Longrightarrow>
         wp_step w [] (worker_take w i)"
| report: "i < length (wp_workers w) \<Longrightarrow> wp_workers w ! i = Busy t \<Longrightarrow> wp_step w [] (worker_done w i t)"

inductive wp_runs :: "'t work_pool \<Rightarrow> 't list \<Rightarrow> 't work_pool \<Rightarrow> bool" where
  start: "wp_runs w [] w"
| more: "wp_runs w ts w' \<Longrightarrow> wp_step w' us w'' \<Longrightarrow> wp_runs w (ts @ us) w''"


section \<open>Dispatching events\<close>

text \<open>
  A connection's task is an object with an address; \<open>srv_live\<close> holds the addresses that are not deleted
  yet, \<open>srv_done\<close> those whose \<^verbatim>\<open>finish_\<close> flag is set.
\<close>

record server =
  srv_conn :: "int \<rightharpoonup> nat"
  srv_live :: "nat set"
  srv_done :: "nat set"
  srv_next :: nat
  srv_pool :: "nat work_pool"
  srv_shutdown :: bool

definition SERVER_THD_NUMBER :: nat where [config_defs]: "SERVER_THD_NUMBER = 3"

definition Server :: server where
  "Server =
    \<lparr>srv_conn = Map.empty, srv_live = {}, srv_done = {}, srv_next = 0,
     srv_pool = start_up SERVER_THD_NUMBER WorkPool, srv_shutdown = False\<rparr>"

datatype event = Ev_pipe | Ev_accept int | Ev_in int | Ev_other int

text \<open>
  One event of \<^verbatim>\<open>process_epoll\<close>; the flag is false when the server has to stop.  \<^verbatim>\<open>std::map::insert\<close> keeps an
  existing entry.
\<close>

definition process_event :: "server \<Rightarrow> event \<Rightarrow> (bool \<times> server) result" where
  "process_event s e =
    (case e of
       Ev_pipe \<Rightarrow> Inr (False, s\<lparr>srv_shutdown := True\<rparr>)
     | Ev_accept fd \<Rightarrow>
         Inr (True, s\<lparr>srv_conn := umap_insert (srv_conn s) fd (srv_next s), srv_live := insert (srv_next s) (srv_live s),
                      srv_next := Suc (srv_next s)\<rparr>)
     | Ev_in fd \<Rightarrow>
         (case srv_conn s fd of
            None \<Rightarrow> Inl ExitProcess
          | Some t \<Rightarrow> Inr (True, s\<lparr>srv_pool := add_task (srv_pool s) t\<rparr>))
     | Ev_other fd \<Rightarrow> Inr (True, s))"

fun process_epoll :: "server \<Rightarrow> event list \<Rightarrow> (bool \<times> server) result" where
  "process_epoll s [] = Inr (True, s)"
| "process_epoll s (e # es) =
     bindR (process_event s e) (\<lambda>(go_on, s). if go_on then process_epoll s es else Inr (False, s))"

text \<open>
  \<^verbatim>\<open>run\<close> takes what the calls of \<^verbatim>\<open>epoll_wait\<close> deliver, no events at all meaning that the call failed; it waits
  for ever when nothing comes.
\<close>

fun server_loop :: "server \<Rightarrow> event list option list \<Rightarrow> server result" where
  "server_loop s [] = Inl Blocked"
| "server_loop s (None # bs) = Inr s"
| "server_loop s (Some es # bs) =
     bindR (process_epoll s es) (\<lambda>(go_on, s). if go_on then server_loop s bs else Inr s)"

definition server_run :: "server \<Rightarrow> event list option list \<Rightarrow> server result" where
  "server_run s bs = (if \<not> srv_shutdown s then server_loop s bs else Inr s)"

text \<open>The collector thread deletes the finished tasks and their connections.\<close>

definition fd_collect :: "server \<Rightarrow> server" where
  "fd_collect s =
    s\<lparr>srv_conn := (\<lambda>fd. case srv_conn s fd of Some t \<Rightarrow> if t \<in> srv_done s then None else Some t | None \<Rightarrow> None),
      srv_live := srv_live s - {t \<in> ran (srv_conn s). t \<in> srv_done s}\<rparr>"

text \<open>The system never hands out a descriptor that is still open; the task of a connection keeps it open.\<close>

definition fresh_fd :: "server \<Rightarrow> event \<Rightarrow> bool" where
  "fresh_fd s e = (case e of Ev_accept fd \<Rightarrow> srv_conn s fd = None | _ \<Rightarrow> True)"

text \<open>
  The threads of the server: the event loop, the collector, and the workers, whose call of \<^verbatim>\<open>run\<close> may set
  the finish flag of the task at any time while they run it.
\<close>

inductive srv_step :: "server \<Rightarrow> server \<Rightarrow> bool" where
  event: "fresh_fd s e \<Longrightarrow> process_event s e = Inr (go_on, s') \<Longrightarrow> srv_step s s'"
| collect: "srv_step s (fd_collect s)"
| take_task: "i < length (wp_workers (srv_pool s)) \<Longrightarrow> wp_workers (srv_pool s) ! i = Idle \<Longrightarrow>
     wp_running (srv_pool s) \<Longrightarrow> wp_tasks (srv_pool s) \<noteq> [] \<Longrightarrow>
     srv_step s (s\<lparr>srv_pool := worker_take (srv_pool s) i\<rparr>)"
| finish: "i < length (wp_workers (srv_pool s)) \<Longrightarrow> wp_workers (srv_pool s) ! i = Busy t \<Longrightarrow>
     srv_step s (s\<lparr>srv_done := insert t (srv_done s)\<rparr>)"
| task_done: "i < length (wp_workers (srv_pool s)) \<Longrightarrow> wp_workers (srv_pool s) ! i = Busy t \<Longrightarrow>
     srv_step s (s\<lparr>srv_pool := worker_done (srv_pool s) i t\<rparr>)"


text \<open>
  The thread that calls \<^verbatim>\<open>shutdown\<close>.  It walks the connections in the order of the map and gives up the lock
  only to wait for a task that is not finished, so what it does between two waits is one step; the iterator it
  keeps meanwhile is the key it stands on.  The close of the listening socket and the byte in the pipe wake the
  event loop, whose event is \<^const>\<open>Ev_pipe\<close>.
\<close>

datatype shutdown_pc = Sd_begin | Sd_conn int | Sd_piped | Sd_end

fun close_conns :: "server \<Rightarrow> int list \<Rightarrow> server \<times> shutdown_pc" where
  "close_conns s [] = (s, Sd_piped)"
| "close_conns s (fd # fds) =
     (case srv_conn s fd of
        Some t \<Rightarrow>
          if t \<in> srv_done s
          then close_conns (s\<lparr>srv_conn := (srv_conn s)(fd := None), srv_live := srv_live s - {t}\<rparr>) fds
          else (s, Sd_conn fd)
      | None \<Rightarrow> (s, Sd_conn fd))"

definition conns_from :: "server \<Rightarrow> (int \<Rightarrow> bool) \<Rightarrow> int list" where
  "conns_from s P = sorted_list_of_set {fd \<in> dom (srv_conn s). P fd}"

definition server_shutdown :: "server \<Rightarrow> shutdown_pc \<Rightarrow> (server \<times> shutdown_pc) result" where
  "server_shutdown s pc =
    (case pc of
       Sd_begin \<Rightarrow>
         if srv_shutdown s then Inr (s, Sd_end)
         else if \<not> all_finished (srv_pool s) then Inl Blocked
         else Inr (close_conns s (conns_from s (\<lambda>_. True)))
     | Sd_conn fd \<Rightarrow>
         (case srv_conn s fd of
            None \<Rightarrow> Inl UndefBehaviour
          | Some t \<Rightarrow> if t \<in> srv_done s then Inr (close_conns s (conns_from s (\<lambda>k. fd \<le> k))) else Inr (s, Sd_conn fd))
     | Sd_piped \<Rightarrow> if srv_shutdown s then Inr (s, Sd_end) else Inr (s, Sd_piped)
     | Sd_end \<Rightarrow> Inr (s, Sd_end))"

inductive shut_step :: "server \<times> shutdown_pc \<Rightarrow> server \<times> shutdown_pc \<Rightarrow> bool" where
  threads: "srv_step s s' \<Longrightarrow> shut_step (s, pc) (s', pc)"
| shutdown: "server_shutdown s pc = Inr (s', pc') \<Longrightarrow> shut_step (s, pc) (s', pc')"

end
