(* ===== verification/Work_Pool_Runs.thy ===== *)
theory Work_Pool_Runs
  imports Server "HOL-Library.Multiset"
begin

text \<open>
  The pool of workers under every interleaving: no task is lost or run twice, the counter of the busy workers is
  right, a running pool empties its queue, and a stopped one never does.
\<close>

section \<open>Running tasks\<close>

definition running :: "'t worker list \<Rightarrow> 't multiset" where
  "running ws = (\<Sum>x\<in>#mset ws. case x of Busy t \<Rightarrow> {#t#} | _ \<Rightarrow> {#})"

lemma running_simps [simp]:
  "running [] = {#}" "running (Idle # ws) = running ws" "running (Exited # ws) = running ws"
  "running (Busy t # ws) = add_mset t (running ws)"
  by (simp_all add: running_def)

lemma running_append [simp]: "running (vs @ ws) = running vs + running ws"
  by (simp add: running_def)

lemma running_idle [simp]: "running (replicate n Idle) = {#}"
  by (induction n) simp_all

lemma running_Cons: "running (x # ws) = running [x] + running ws"
  by (cases x) simp_all

lemma running_update:
  "i < length ws \<Longrightarrow> running (ws[i := x]) + running [ws ! i] = running ws + running [x]"
proof (induction ws arbitrary: i)
  case (Cons y ws)
  show ?case
  proof (cases i)
    case 0
    then show ?thesis by (simp add: running_Cons [of _ ws] ac_simps)
  next
    case (Suc j)
    then have "running (ws[j := x]) + running [ws ! j] = running ws + running [x]" using Cons by simp
    then show ?thesis using Suc by (simp add: running_Cons [of _ ws] running_Cons [of _ "ws[j := x]"] ac_simps)
  qed
qed simp

lemma running_size: "size (running ws) \<le> length ws"
proof (induction ws)
  case (Cons x ws)
  then show ?case by (cases x) simp_all
qed simp

lemma running_idle_free: "i < length ws \<Longrightarrow> ws ! i = Idle \<Longrightarrow> size (running ws) < length ws"
proof (induction ws arbitrary: i)
  case (Cons x ws)
  show ?case
  proof (cases i)
    case 0
    then show ?thesis using Cons.prems running_size [of ws] by simp
  next
    case (Suc j)
    then have "size (running ws) < length ws" using Cons by simp
    then show ?thesis by (cases x) simp_all
  qed
qed simp

lemma running_empty: "running ws = {#} \<longleftrightarrow> (\<forall>x \<in> set ws. \<forall>t. x \<noteq> Busy t)"
proof (induction ws)
  case (Cons x ws)
  then show ?case by (cases x) auto
qed simp


section \<open>The invariant\<close>

text \<open>
  With the tasks \<open>ts\<close> added so far to a pool of \<open>n\<close> workers: the queue is the part of them that was not taken
  yet, in the same order; the others run or have run, each once; the counter is the number of busy workers.
\<close>

definition pool_inv :: "nat \<Rightarrow> 't list \<Rightarrow> 't work_pool \<Rightarrow> bool" where
  "pool_inv n ts w \<longleftrightarrow>
    length (wp_workers w) = n \<and> (wp_running w \<longrightarrow> Exited \<notin> set (wp_workers w)) \<and> unat (wp_busy w) = size (running (wp_workers w)) \<and>
    (\<exists>taken. ts = taken @ wp_tasks w \<and> mset taken = running (wp_workers w) + mset (wp_finished w))"

lemma pool_inv_start: "pool_inv n [] (start_up n WorkPool)"
  by (simp add: pool_inv_def start_up_def WorkPool_def)

lemma pool_inv_step:
  assumes "pool_inv n ts w" "wp_step w us w'" "n < 2 ^ 32"
  shows "pool_inv n (ts @ us) w'"
  using assms(2)
proof cases
  case (add t)
  then show ?thesis using assms(1) by (auto simp: pool_inv_def add_task_def)
next
  case stop
  then show ?thesis using assms(1) by (auto simp: pool_inv_def wp_stop_def)
next
  case (leave i)
  then show ?thesis using assms(1) running_update [of i "wp_workers w" Exited] by (auto simp: pool_inv_def worker_exit_def)
next
  case (grab i)
  obtain t q where q: "wp_tasks w = t # q" using grab(6) by (cases "wp_tasks w") auto
  have r: "running ((wp_workers w)[i := Busy t]) = add_mset t (running (wp_workers w))"
    using running_update [of i "wp_workers w" "Busy t"] grab by simp
  have "size (running (wp_workers w)) < 2 ^ 32 - 1"
    using running_idle_free [of i "wp_workers w"] grab assms(1,3) by (simp add: pool_inv_def)
  then have "unat (wp_busy w + 1) = Suc (size (running (wp_workers w)))"
    using assms(1) by (simp add: pool_inv_def unat_word_ariths)
  moreover have "Exited \<notin> set ((wp_workers w)[i := Busy t])"
    using assms(1) grab(5) set_update_subset_insert [of "wp_workers w" i "Busy t"] by (auto simp: pool_inv_def)
  ultimately show ?thesis using assms(1) grab(1,2) r q by (fastforce simp: pool_inv_def worker_take_def)
next
  case (report i t)
  have r: "running (wp_workers w) = add_mset t (running ((wp_workers w)[i := Idle]))"
    using running_update [of i "wp_workers w" Idle] report by simp
  then have "unat (wp_busy w) = Suc (size (running ((wp_workers w)[i := Idle])))"
    using assms(1) by (simp add: pool_inv_def)
  then have "unat (wp_busy w - 1) = size (running ((wp_workers w)[i := Idle]))"
    by (metis One_nat_def Suc_eq_plus1 add_diff_cancel_right' unat_eq_zero unat_minus_one nat.distinct(1))
  moreover have "wp_running w \<longrightarrow> Exited \<notin> set ((wp_workers w)[i := Idle])"
    using assms(1) set_update_subset_insert [of "wp_workers w" i Idle] by (auto simp: pool_inv_def)
  ultimately show ?thesis using assms(1) report(1,2) r by (auto simp: pool_inv_def worker_done_def)
qed

lemma pool_inv_runs:
  assumes "wp_runs w ts w'" "w = start_up n WorkPool" "n < 2 ^ 32"
  shows "pool_inv n ts w'"
  using assms by induction (simp_all add: pool_inv_start pool_inv_step)

text \<open>
  C21. Whatever the workers and the callers of \<^verbatim>\<open>add_task\<close> do in whatever order, every task handed to a pool of
  \<open>n\<close> workers is exactly once in the queue, in a worker or finished, tasks are taken in the order they were
  added, \<^verbatim>\<open>busy_num_\<close> counts the busy workers without wrapping, and the condition \<^verbatim>\<open>wait_until_all_finished\<close>
  waits for holds only when every task has been run.
\<close>

theorem work_pool_conserves:
  assumes "wp_runs (start_up n WorkPool) ts w" "n < 2 ^ 32"
  shows "mset ts = mset (wp_tasks w) + running (wp_workers w) + mset (wp_finished w) \<and>
    wp_tasks w = drop (size (running (wp_workers w)) + length (wp_finished w)) ts \<and>
    unat (wp_busy w) = size (running (wp_workers w)) \<and>
    (all_finished w \<longrightarrow> mset (wp_finished w) = mset ts)"
proof -
  have inv: "pool_inv n ts w" using pool_inv_runs [OF assms(1) refl assms(2)] .
  then obtain taken where t: "ts = taken @ wp_tasks w" "mset taken = running (wp_workers w) + mset (wp_finished w)"
    by (auto simp: pool_inv_def)
  have "length taken = size (running (wp_workers w)) + length (wp_finished w)"
    by (metis size_mset size_union t(2))
  moreover have "running (wp_workers w) = {#}" if "all_finished w"
    using that inv by (simp add: all_finished_def pool_inv_def)
  ultimately show ?thesis using inv t by (auto simp: pool_inv_def all_finished_def)
qed


theorem work_pool_conserves_witness:
  "wp_runs (start_up 2 WorkPool) [7, 8] (worker_take (add_task (add_task (start_up 2 WorkPool) (7::nat)) 8) 0) \<and>
   wp_tasks (worker_take (add_task (add_task (start_up 2 WorkPool) (7::nat)) 8) 0) = [8] \<and>
   mset [7, 8::nat] = mset [8] + running [Busy 7, Idle] + mset []"
proof -
  have "wp_runs (start_up 2 WorkPool) ((([] @ [7]) @ [8]) @ []) (worker_take (add_task (add_task (start_up 2 WorkPool) (7::nat)) 8) 0)"
    by (rule wp_runs.more [OF wp_runs.more [OF wp_runs.more [OF wp_runs.start wp_step.add] wp_step.add] wp_step.grab])
      (simp_all add: start_up_def WorkPool_def add_task_def)
  then have r: "wp_runs (start_up 2 WorkPool) [7, 8] (worker_take (add_task (add_task (start_up 2 WorkPool) (7::nat)) 8) 0)" by simp
  show ?thesis
    using r work_pool_conserves [OF r]
    by (simp add: start_up_def WorkPool_def add_task_def worker_take_def numeral_2_eq_2)
qed


section \<open>Progress\<close>

text \<open>The steps of the workers alone.\<close>

inductive worker_moves :: "'t work_pool \<Rightarrow> 't work_pool \<Rightarrow> bool" where
  takes: "i < length (wp_workers w) \<Longrightarrow> wp_workers w ! i = Idle \<Longrightarrow> wp_running w \<Longrightarrow> wp_tasks w \<noteq> [] \<Longrightarrow>
          worker_moves w (worker_take w i)"
| reports: "i < length (wp_workers w) \<Longrightarrow> wp_workers w ! i = Busy t \<Longrightarrow> worker_moves w (worker_done w i t)"

definition work_left :: "'t work_pool \<Rightarrow> nat" where
  "work_left w = 2 * length (wp_tasks w) + size (running (wp_workers w))"

lemma worker_moves_step: "worker_moves w w' \<Longrightarrow> wp_step w [] w'"
  by (induction rule: worker_moves.induct) (auto intro: wp_step.intros)

lemma worker_moves_runs: "worker_moves\<^sup>*\<^sup>* w w' \<Longrightarrow> wp_runs v ts w \<Longrightarrow> wp_runs v ts w'"
proof (induction rule: rtranclp_induct)
  case (step x y)
  then show ?case using wp_runs.more [OF _ worker_moves_step [OF step(2)], of v ts] by simp
qed

lemma worker_moves_less: "worker_moves w w' \<Longrightarrow> Suc (work_left w') = work_left w \<and> wp_running w' = wp_running w"
proof (induction rule: worker_moves.induct)
  case (takes i w)
  then show ?case using running_update [of i "wp_workers w" "Busy (hd (wp_tasks w))"]
    by (cases "wp_tasks w") (simp_all add: work_left_def worker_take_def)
next
  case (reports i w t)
  have "running (wp_workers w) = add_mset t (running ((wp_workers w)[i := Idle]))"
    using running_update [of i "wp_workers w" Idle] reports by simp
  then show ?case by (simp add: work_left_def worker_done_def)
qed

lemma worker_moves_bound: "(worker_moves ^^ k) w w' \<Longrightarrow> k + work_left w' = work_left w \<and> wp_running w' = wp_running w"
proof (induction k arbitrary: w')
  case (Suc k)
  then obtain v where "(worker_moves ^^ k) w v" "worker_moves v w'" by auto
  then show ?case using Suc.IH worker_moves_less by fastforce
qed simp

lemma stuck_finished:
  assumes "pool_inv n ts w" "wp_running w" "0 < n" "\<nexists>w'. worker_moves w w'"
  shows "all_finished w"
proof -
  have idle: "wp_workers w ! i = Idle" if "i < n" for i
  proof (cases "wp_workers w ! i")
    case (Busy t)
    then show ?thesis using assms(1,4) that worker_moves.reports [of i w t] by (auto simp: pool_inv_def)
  next
    case Exited
    then show ?thesis using assms(1,2) that by (metis nth_mem pool_inv_def)
  qed
  then have "wp_workers w = replicate n Idle" using assms(1) by (auto simp: pool_inv_def intro: nth_equalityI)
  moreover have "wp_tasks w = []"
    using idle [OF assms(3)] assms worker_moves.takes [of 0 w] by (auto simp: pool_inv_def)
  ultimately show ?thesis using assms(1) by (simp add: pool_inv_def all_finished_def unat_eq_zero)
qed

text \<open>
  C22. While the pool runs and nobody adds a task, the workers make at most two steps for each queued task and one
  for each running one, and they can only stop when everything is finished: \<^verbatim>\<open>wait_until_all_finished\<close>
  returns under every schedule.
\<close>

theorem work_pool_drains:
  assumes "wp_runs (start_up n WorkPool) ts w" "0 < n" "n < 2 ^ 32" "wp_running w"
  shows "(\<forall>k w'. (worker_moves ^^ k) w w' \<longrightarrow> k \<le> 2 * length (wp_tasks w) + unat (wp_busy w)) \<and>
    (\<forall>w'. worker_moves\<^sup>*\<^sup>* w w' \<longrightarrow> (\<nexists>w''. worker_moves w' w'') \<longrightarrow> all_finished w')"
proof (intro conjI allI impI)
  have inv: "pool_inv n ts w" using pool_inv_runs [OF assms(1) refl assms(3)] .
  show "k \<le> 2 * length (wp_tasks w) + unat (wp_busy w)" if "(worker_moves ^^ k) w w'" for k w'
    using worker_moves_bound [OF that] inv by (simp add: work_left_def pool_inv_def)
  show "all_finished w'" if m: "worker_moves\<^sup>*\<^sup>* w w'" and s: "\<nexists>w''. worker_moves w' w''" for w'
  proof (rule stuck_finished [OF _ _ assms(2) s])
    show "pool_inv n ts w'" using pool_inv_runs [OF worker_moves_runs [OF m assms(1)] refl assms(3)] .
    obtain k where "(worker_moves ^^ k) w w'" using m by (auto simp: rtranclp_power)
    then show "wp_running w'" using worker_moves_bound assms(4) by blast
  qed
qed

theorem work_pool_drains_witness:
  "\<nexists>w'. (worker_moves ^^ 3) (add_task (start_up 1 WorkPool) (7::nat)) w'"
proof -
  have "wp_runs (start_up 1 WorkPool) ([] @ [7]) (add_task (start_up 1 WorkPool) (7::nat))"
    by (rule wp_runs.more [OF wp_runs.start wp_step.add])
  from work_pool_drains [OF this] have "(worker_moves ^^ 3) (add_task (start_up 1 WorkPool) (7::nat)) w' \<Longrightarrow> 3 \<le> (2::nat)" for w'
    by (auto simp: add_task_def start_up_def WorkPool_def)
  then show ?thesis by auto
qed


section \<open>Stopping\<close>

lemma stopped_runs:
  "wp_runs w us w' \<Longrightarrow> \<not> wp_running w \<Longrightarrow> \<not> wp_running w' \<and> wp_tasks w' = wp_tasks w @ us"
proof (induction rule: wp_runs.induct)
  case (more w ts w' us w'')
  from more(2) more.IH [OF more.prems] show ?case
    by cases (simp_all add: add_task_def wp_stop_def worker_exit_def worker_done_def)
qed simp

text \<open>
  C23. A pool that is stopped by \<^verbatim>\<open>shutdown\<close> while tasks are queued never runs them, and the wait of its
  destructor for all tasks to finish never ends.
\<close>

theorem shutdown_strands_tasks:
  assumes "wp_tasks w \<noteq> []" "wp_runs (wp_stop w) us w'"
  shows "wp_tasks w' = wp_tasks w @ us \<and> \<not> all_finished w'"
  using stopped_runs [OF assms(2)] assms(1) by (simp add: wp_stop_def all_finished_def)

theorem shutdown_strands_tasks_witness:
  "wp_tasks (worker_exit (wp_stop (add_task (start_up 1 WorkPool) (7::nat))) 0) = [7] \<and>
   \<not> all_finished (worker_exit (wp_stop (add_task (start_up 1 WorkPool) (7::nat))) 0)"
proof -
  have "wp_runs (wp_stop (add_task (start_up 1 WorkPool) 7)) ([] @ []) (worker_exit (wp_stop (add_task (start_up 1 WorkPool) (7::nat))) 0)"
    by (rule wp_runs.more [OF wp_runs.start wp_step.leave]) (simp_all add: start_up_def WorkPool_def add_task_def wp_stop_def)
  from shutdown_strands_tasks [OF _ this] show ?thesis by (simp add: start_up_def WorkPool_def add_task_def)
qed

end
