(* ===== verification/Server_Runs.thy ===== *)
theory Server_Runs
  imports Work_Pool_Runs
begin

text \<open>
  Statements in the stream of a client, and the server under every interleaving of its threads.
\<close>

section \<open>Statements in a stream\<close>

text \<open>The reference: a statement ends with its semicolon, wherever the stream is cut into chunks.\<close>

fun cut_stmts :: "string \<Rightarrow> string \<Rightarrow> string list \<times> string" where
  "cut_stmts acc [] = ([], acc)"
| "cut_stmts acc (c # cs) =
     (if c = CHR '';'' then let (ss, r) = cut_stmts [] cs in ((acc @ [c]) # ss, r) else cut_stmts (acc @ [c]) cs)"

fun exec_all :: "(string \<Rightarrow> 'd \<Rightarrow> (string \<times> 'd) result) \<Rightarrow> string list \<Rightarrow> 'd \<Rightarrow> (string list \<times> 'd) result" where
  "exec_all exec [] d = Inr ([], d)"
| "exec_all exec (s # ss) d =
     bindR (exec s d) (\<lambda>(m, d). bindR (exec_all exec ss d) (\<lambda>(ms, d). Inr (m # ms, d)))"

text \<open>What \<^verbatim>\<open>recv\<close> delivers in one call, with at most one statement end in it.\<close>

definition chunk_ok :: "string \<Rightarrow> bool" where
  "chunk_ok c \<longleftrightarrow> c \<noteq> [] \<and> length c \<le> RECV_BUFFER_SIZE - 1 \<and> NUL \<notin> set c \<and> count_list c (CHR '';'') \<le> 1"

lemma cut_stmts_append:
  "cut_stmts acc (xs @ ys) =
    (let (ss, r) = cut_stmts acc xs; (ss', r') = cut_stmts r ys in (ss @ ss', r'))"
  by (induction acc xs rule: cut_stmts.induct) (simp_all add: Let_def split: prod.splits)

lemma cut_stmts_none: "CHR '';'' \<notin> set xs \<Longrightarrow> cut_stmts acc xs = ([], acc @ xs)"
  by (induction acc xs rule: cut_stmts.induct) auto

lemma semicolon_not_NUL: "CHR '';'' \<noteq> NUL"
  by (simp add: NUL_def)

lemma recv_buffer_nth: "i < length data \<Longrightarrow> recv_buffer data ! i = data ! i"
  by (simp add: recv_buffer_def nth_append)

lemma recv_buffer_pad: "length data \<le> i \<Longrightarrow> i < RECV_BUFFER_SIZE \<Longrightarrow> recv_buffer data ! i = NUL"
  by (simp add: recv_buffer_def nth_append)

lemma recv_buffer_take: "n \<le> length data \<Longrightarrow> take n (recv_buffer data) = take n data"
  by (simp add: recv_buffer_def)

lemma search_semicolon_none:
  assumes "CHR '';'' \<notin> set data"
  shows "search_semicolon (recv_buffer data) = - 1"
proof -
  have "recv_buffer data ! i \<noteq> CHR '';''" if "i < RECV_BUFFER_SIZE - 1" for i
    using assms that recv_buffer_nth [of i data] recv_buffer_pad [of data i] semicolon_not_NUL
    by (cases "i < length data") (auto simp: in_set_conv_nth)
  then have "find (\<lambda>i. recv_buffer data ! i = CHR '';'') [0..<RECV_BUFFER_SIZE - 1] = None"
    by (simp add: find_None_iff)
  then show ?thesis by (simp add: search_semicolon_def)
qed

lemma search_semicolon_first:
  assumes "data = a @ CHR '';'' # b" "CHR '';'' \<notin> set a" "length data \<le> RECV_BUFFER_SIZE - 1"
  shows "search_semicolon (recv_buffer data) = int (length a)"
proof -
  have before: "recv_buffer data ! i \<noteq> CHR '';''" if "i < length a" for i
    using assms(1,2) that recv_buffer_nth [of i data] by (auto simp: nth_append in_set_conv_nth)
  have at: "recv_buffer data ! length a = CHR '';''" using assms(1) recv_buffer_nth [of "length a" data] by simp
  have lt: "length a < RECV_BUFFER_SIZE - 1" using assms(1,3) by simp
  have "find (\<lambda>i. recv_buffer data ! i = CHR '';'') [0..<RECV_BUFFER_SIZE - 1] = Some (length a)"
    unfolding find_Some_iff using before at lt by (intro exI [of _ "length a"]) auto
  then show ?thesis by (simp add: search_semicolon_def)
qed

lemma cstr_whole: "NUL \<notin> set s \<Longrightarrow> cstr (s @ [NUL]) = s"
  by (auto simp: cstr_def takeWhile_tail)

lemma task_run_no_end:
  assumes "CHR '';'' \<notin> set data"
  shows "task_run exec (Recv_data data # rs) t d = task_run exec rs (t\<lparr>tsk_tmp := tsk_tmp t @ data\<rparr>) d"
  using search_semicolon_none [OF assms] recv_buffer_take [of "length data" data] by simp

lemma task_run_end:
  assumes "data = a @ CHR '';'' # b" "CHR '';'' \<notin> set a" "length data \<le> RECV_BUFFER_SIZE - 1"
    "NUL \<notin> set (tsk_tmp t @ a)"
  shows "task_run exec (Recv_data data # rs) t d =
    bindR (exec (tsk_tmp t @ a @ '';'') d) (\<lambda>(msg, d).
      bindR (task_run exec rs (t\<lparr>tsk_tmp := b\<rparr>) d) (\<lambda>(msgs, t, d). Inr (msg # msgs, t, d)))"
proof -
  have "take (Suc (length a)) (recv_buffer data) = a @ '';''" "take (length data) (recv_buffer data) = data"
    using assms(1) by (simp_all add: recv_buffer_take)
  moreover have "drop (Suc (length a)) data = b" using assms(1) by simp
  moreover have "cstr ((tsk_tmp t @ a @ '';'') @ [NUL]) = tsk_tmp t @ a @ '';''"
    using assms(4) semicolon_not_NUL by (intro cstr_whole) auto
  ultimately show ?thesis
    using search_semicolon_first [OF assms(1-3)] by (simp add: handle_sql_def nat_add_distrib)
qed

text \<open>
  C24. However the network cuts the stream of a client into chunks, as long as no chunk holds two statement ends
  the task executes exactly the statements of the stream, in order and each with its semicolon, and keeps the
  unfinished rest for the next call.
\<close>

theorem task_splits_stream:
  assumes "\<forall>c \<in> set cs. chunk_ok c" "CHR '';'' \<notin> set (tsk_tmp t)" "NUL \<notin> set (tsk_tmp t)"
  shows "task_run exec (map Recv_data cs @ [Recv_again]) t d =
    bindR (exec_all exec (fst (cut_stmts (tsk_tmp t) (concat cs))) d) (\<lambda>(msgs, d).
      Inr (msgs, t\<lparr>tsk_tmp := snd (cut_stmts (tsk_tmp t) (concat cs))\<rparr>, d))"
  using assms
proof (induction cs arbitrary: t d)
  case (Cons c cs)
  have c: "length c \<le> RECV_BUFFER_SIZE - 1" "NUL \<notin> set c" "count_list c (CHR '';'') \<le> 1"
    using Cons.prems(1) by (simp_all add: chunk_ok_def)
  show ?case
  proof (cases "CHR '';'' \<in> set c")
    case False
    then show ?thesis using Cons c
      by (simp del: task_run.simps add: task_run_no_end cut_stmts_append cut_stmts_none Let_def split: prod.splits)
  next
    case True
    then obtain a b where ab: "c = a @ CHR '';'' # b" "CHR '';'' \<notin> set a" by (metis split_list_first)
    have b: "CHR '';'' \<notin> set b" using c(3) ab by (simp add: count_list_0_iff)
    have nul: "NUL \<notin> set (tsk_tmp t @ a)" "NUL \<notin> set b" using c(2) ab Cons.prems(3) by auto
    have cut: "cut_stmts (tsk_tmp t) c = ([tsk_tmp t @ a @ '';''], b)"
      using ab b by (simp add: cut_stmts_append cut_stmts_none)
    have IH: "task_run exec (map Recv_data cs @ [Recv_again]) (t\<lparr>tsk_tmp := b\<rparr>) d' =
        bindR (exec_all exec (fst (cut_stmts b (concat cs))) d') (\<lambda>(msgs, d).
          Inr (msgs, t\<lparr>tsk_tmp := snd (cut_stmts b (concat cs))\<rparr>, d))" for d'
      using Cons.IH [of "t\<lparr>tsk_tmp := b\<rparr>" d'] Cons.prems(1) b nul(2) by simp
    obtain ss r where sr: "cut_stmts b (concat cs) = (ss, r)" by fastforce
    have st: "cut_stmts (tsk_tmp t) (concat (c # cs)) = ((tsk_tmp t @ a @ '';'') # ss, r)"
      by (simp add: cut_stmts_append cut sr)
    show ?thesis
    proof (cases "exec (tsk_tmp t @ a @ '';'') d")
      case (Inl e)
      then show ?thesis unfolding list.map append_Cons task_run_end [OF ab c(1) nul(1)] st by simp
    next
      case (Inr md)
      then show ?thesis unfolding list.map append_Cons task_run_end [OF ab c(1) nul(1)] IH st sr
        by (cases md, cases "exec_all exec ss (snd md)") auto
    qed
  qed
qed simp

theorem task_splits_stream_witness:
  "task_run (\<lambda>sql n. Inr (sql, n + 1)) (map Recv_data [''a b'', ''c;d'', ''e;''] @ [Recv_again]) (HandleClientMsgTask 5) (0::nat) =
    Inr ([''a bc;'', ''de;''], HandleClientMsgTask 5, 2)"
proof -
  have "\<forall>c \<in> set [''a b'', ''c;d'', ''e;'']. chunk_ok c" by (simp add: chunk_ok_def RECV_BUFFER_SIZE_def NUL_def)
  then show ?thesis by (subst task_splits_stream) (simp_all add: HandleClientMsgTask_def del: task_run.simps)
qed

text \<open>
  C27. When a client sends a second statement in the same chunk, the task executes the first one and waits: the
  second one, complete as it is, is not executed before the client sends another semicolon, and then as one text
  with what came in between.
\<close>

theorem second_statement_waits:
  assumes "CHR '';'' \<notin> set a" "CHR '';'' \<notin> set b" "CHR '';'' \<notin> set c" "NUL \<notin> set (tsk_tmp t @ a @ b @ c)"
    "length (a @ '';'' @ b @ '';'') < RECV_BUFFER_SIZE" "length (c @ '';'') < RECV_BUFFER_SIZE"
  shows "task_run exec [Recv_data (a @ '';'' @ b @ '';''), Recv_again] t d =
      bindR (exec (tsk_tmp t @ a @ '';'') d) (\<lambda>(msg, d). Inr ([msg], t\<lparr>tsk_tmp := b @ '';''\<rparr>, d)) \<and>
    task_run exec [Recv_data (c @ '';''), Recv_again] (t\<lparr>tsk_tmp := b @ '';''\<rparr>) d =
      bindR (exec (b @ '';'' @ c @ '';'') d) (\<lambda>(msg, d). Inr ([msg], t\<lparr>tsk_tmp := []\<rparr>, d))"
proof
  show "task_run exec [Recv_data (a @ '';'' @ b @ '';''), Recv_again] t d =
      bindR (exec (tsk_tmp t @ a @ '';'') d) (\<lambda>(msg, d). Inr ([msg], t\<lparr>tsk_tmp := b @ '';''\<rparr>, d))"
    using assms(1,4,5) by (subst task_run_end [where a = a and b = "b @ '';''"]) auto
  show "task_run exec [Recv_data (c @ '';''), Recv_again] (t\<lparr>tsk_tmp := b @ '';''\<rparr>) d =
      bindR (exec (b @ '';'' @ c @ '';'') d) (\<lambda>(msg, d). Inr ([msg], t\<lparr>tsk_tmp := []\<rparr>, d))"
    using assms(3,4,6) semicolon_not_NUL by (subst task_run_end [where a = c and b = "[]"]) auto
qed

theorem second_statement_waits_witness:
  "task_run (\<lambda>sql n. Inr (sql, n + 1)) [Recv_data ''a;b;'', Recv_again] (HandleClientMsgTask 5) (0::nat) =
    Inr ([''a;''], (HandleClientMsgTask 5)\<lparr>tsk_tmp := ''b;''\<rparr>, 1)"
  using second_statement_waits [of "''a''" "''b''" "''c''" "HandleClientMsgTask 5" "\<lambda>sql n. Inr (sql, n + 1)" "0::nat"]
  by (simp add: RECV_BUFFER_SIZE_def NUL_def HandleClientMsgTask_def)


section \<open>The threads of the server\<close>

text \<open>
  The tasks that exist are those of the open connections, each of its own; every task in the pool was created
  by an accepted connection, and the pool is used only as its users may use it.
\<close>

definition srv_inv :: "server \<Rightarrow> bool" where
  "srv_inv s \<longleftrightarrow>
    srv_live s = ran (srv_conn s) \<and> inj_on (srv_conn s) (dom (srv_conn s)) \<and> finite (dom (srv_conn s)) \<and>
    srv_live s \<subseteq> {..<srv_next s} \<and> srv_done s \<subseteq> {..<srv_next s} \<and>
    (\<exists>ts. wp_runs (start_up SERVER_THD_NUMBER WorkPool) ts (srv_pool s) \<and> set ts \<subseteq> {..<srv_next s})"

lemma srv_inv_start: "srv_inv Server"
  by (auto simp: srv_inv_def Server_def intro: wp_runs.start)

lemma srv_inv_event:
  assumes "srv_inv s" "fresh_fd s e" "process_event s e = Inr (go_on, s')"
  shows "srv_inv s'"
proof (cases e)
  case (Ev_accept fd)
  then have new: "srv_conn s fd = None" using assms(2) by (simp add: fresh_fd_def)
  have s': "s' = s\<lparr>srv_conn := (srv_conn s)(fd \<mapsto> srv_next s), srv_live := insert (srv_next s) (srv_live s),
      srv_next := Suc (srv_next s)\<rparr>"
    using assms(3) Ev_accept new by (auto simp: process_event_def umap_insert_def)
  have "srv_next s \<notin> ran (srv_conn s)" using assms(1) by (auto simp: srv_inv_def)
  then have "inj_on ((srv_conn s)(fd \<mapsto> srv_next s)) (dom ((srv_conn s)(fd \<mapsto> srv_next s)))"
    using assms(1) new by (auto simp: srv_inv_def inj_on_def dom_def ran_def)
  moreover obtain ts where "wp_runs (start_up SERVER_THD_NUMBER WorkPool) ts (srv_pool s)" "set ts \<subseteq> {..<Suc (srv_next s)}"
    using assms(1) unfolding srv_inv_def lessThan_Suc by blast
  ultimately show ?thesis using assms(1) new unfolding s' srv_inv_def by (auto simp: less_Suc_eq)
next
  case (Ev_in fd)
  then obtain t where t: "srv_conn s fd = Some t" "s' = s\<lparr>srv_pool := add_task (srv_pool s) t\<rparr>"
    using assms(3) by (auto simp: process_event_def split: option.splits)
  obtain ts where ts: "wp_runs (start_up SERVER_THD_NUMBER WorkPool) ts (srv_pool s)" "set ts \<subseteq> {..<srv_next s}"
    using assms(1) by (auto simp: srv_inv_def)
  have "wp_runs (start_up SERVER_THD_NUMBER WorkPool) (ts @ [t]) (add_task (srv_pool s) t)"
    using wp_runs.more [OF ts(1) wp_step.add] .
  moreover have "t < srv_next s" using assms(1) t(1) by (auto simp: srv_inv_def ran_def)
  ultimately show ?thesis using assms(1) ts(2) unfolding t(2) srv_inv_def by (auto intro!: exI [of _ "ts @ [t]"])
qed (use assms in \<open>auto simp: process_event_def srv_inv_def\<close>)

lemma srv_inv_pool:
  assumes "srv_inv s" "wp_step (srv_pool s) [] w"
  shows "srv_inv (s\<lparr>srv_pool := w\<rparr>)"
  using assms wp_runs.more [OF _ assms(2)] unfolding srv_inv_def by fastforce

lemma fd_collect_conn:
  "srv_conn (fd_collect s) fd = Some t \<longleftrightarrow> srv_conn s fd = Some t \<and> t \<notin> srv_done s"
  by (auto simp: fd_collect_def split: option.splits)

lemma srv_inv_collect:
  assumes "srv_inv s"
  shows "srv_inv (fd_collect s)"
proof -
  have "ran (srv_conn (fd_collect s)) = ran (srv_conn s) - srv_done s"
    by (auto simp: ran_def fd_collect_conn)
  moreover have "srv_live (fd_collect s) = srv_live s - ran (srv_conn s) \<inter> srv_done s" by (auto simp: fd_collect_def)
  ultimately have "srv_live (fd_collect s) = ran (srv_conn (fd_collect s))" using assms by (auto simp: srv_inv_def)
  moreover have "inj_on (srv_conn (fd_collect s)) (dom (srv_conn (fd_collect s)))"
  proof (rule inj_onI)
    fix x y
    assume "x \<in> dom (srv_conn (fd_collect s))" "y \<in> dom (srv_conn (fd_collect s))"
      "srv_conn (fd_collect s) x = srv_conn (fd_collect s) y"
    then obtain t where "srv_conn s x = Some t" "srv_conn s y = Some t" using fd_collect_conn [of s] by (metis domD)
    then show "x = y" using assms unfolding srv_inv_def inj_on_def by (metis domI)
  qed
  moreover have "dom (srv_conn (fd_collect s)) \<subseteq> dom (srv_conn s)" by (auto simp: dom_def fd_collect_conn)
  then have "finite (dom (srv_conn (fd_collect s)))" using assms by (auto simp: srv_inv_def intro: finite_subset)
  moreover have "srv_live (fd_collect s) \<subseteq> srv_live s" by (auto simp: fd_collect_def)
  ultimately show ?thesis using assms by (auto simp: srv_inv_def fd_collect_def)
qed

lemma running_mem: "i < length ws \<Longrightarrow> ws ! i = Busy t \<Longrightarrow> t \<in># running ws"
  using running_update [of i ws Idle] by simp (metis union_single_eq_member)

lemma srv_pool_tasks:
  assumes "srv_inv s"
  shows "unat (wp_busy (srv_pool s)) = size (running (wp_workers (srv_pool s))) \<and>
    set_mset (mset (wp_tasks (srv_pool s)) + running (wp_workers (srv_pool s))) \<subseteq> {..<srv_next s}"
proof -
  obtain ts where ts: "wp_runs (start_up SERVER_THD_NUMBER WorkPool) ts (srv_pool s)" "set ts \<subseteq> {..<srv_next s}"
    using assms by (auto simp: srv_inv_def)
  have pool: "pool_inv SERVER_THD_NUMBER ts (srv_pool s)"
    using pool_inv_runs [OF ts(1) refl] by (simp add: SERVER_THD_NUMBER_def)
  then obtain q where q: "ts = q @ wp_tasks (srv_pool s)"
      "mset q = running (wp_workers (srv_pool s)) + mset (wp_finished (srv_pool s))"
    by (auto simp: pool_inv_def)
  have "set_mset (running (wp_workers (srv_pool s))) \<subseteq> set_mset (mset q)" unfolding q(2) by simp
  then show ?thesis using ts(2) q(1) pool by (auto simp: pool_inv_def)
qed

lemma busy_created:
  assumes "srv_inv s" "i < length (wp_workers (srv_pool s))" "wp_workers (srv_pool s) ! i = Busy t"
  shows "t < srv_next s"
  using srv_pool_tasks [OF assms(1)] running_mem [OF assms(2,3)] by auto

lemma srv_inv_step: "srv_step s s' \<Longrightarrow> srv_inv s \<Longrightarrow> srv_inv s'"
proof (induction rule: srv_step.induct)
  case (finish i s t)
  then show ?case using busy_created [of s i t] by (auto simp: srv_inv_def)
qed (auto intro: srv_inv_event srv_inv_collect srv_inv_pool wp_step.intros)


lemma srv_inv_reachable: "srv_step\<^sup>*\<^sup>* Server s \<Longrightarrow> srv_inv s"
  by (induction rule: rtranclp_induct) (simp_all add: srv_inv_start srv_inv_step)


text \<open>A connection whose client sends data twice and closes, served by two workers.\<close>

definition two_events :: server where
  "two_events =
    (case process_epoll Server [Ev_accept 5, Ev_in 5, Ev_in 5] of Inr (_, s) \<Rightarrow> s | Inl _ \<Rightarrow> Server)"

definition both_run :: server where
  "both_run =
    (let s = two_events; s = s\<lparr>srv_pool := worker_take (srv_pool s) 0\<rparr>; s = s\<lparr>srv_pool := worker_take (srv_pool s) 1\<rparr>
     in s\<lparr>srv_done := insert 0 (srv_done s)\<rparr>)"

lemmas server_run_simps = two_events_def both_run_def Server_def SERVER_THD_NUMBER_def start_up_def WorkPool_def
  process_event_def umap_insert_def add_task_def worker_take_def fresh_fd_def numeral_3_eq_3

lemma both_run_reachable: "srv_step\<^sup>*\<^sup>* Server both_run"
proof -
  let ?s1 = "snd (projr (process_event Server (Ev_accept 5)))"
  let ?s2 = "snd (projr (process_event ?s1 (Ev_in 5)))"
  let ?s4 = "two_events\<lparr>srv_pool := worker_take (srv_pool two_events) 0\<rparr>"
  let ?s5 = "?s4\<lparr>srv_pool := worker_take (srv_pool ?s4) 1\<rparr>"
  have "srv_step Server ?s1" by (rule srv_step.event [where e = "Ev_accept 5" and go_on = True]) (simp_all add: server_run_simps)
  moreover have "srv_step ?s1 ?s2" by (rule srv_step.event [where e = "Ev_in 5" and go_on = True]) (simp_all add: server_run_simps)
  moreover have "srv_step ?s2 two_events" by (rule srv_step.event [where e = "Ev_in 5" and go_on = True]) (simp_all add: server_run_simps)
  moreover have "srv_step two_events ?s4" by (rule srv_step.take_task) (simp_all add: server_run_simps)
  moreover have "srv_step ?s4 ?s5" by (rule srv_step.take_task) (simp_all add: server_run_simps)
  moreover have "srv_step ?s5 (?s5\<lparr>srv_done := insert 0 (srv_done ?s5)\<rparr>)"
    by (rule srv_step.finish [where i = 0]) (simp_all add: server_run_simps)
  moreover have "?s5\<lparr>srv_done := insert 0 (srv_done ?s5)\<rparr> = both_run" by (simp add: both_run_def Let_def)
  ultimately show ?thesis by (metis (no_types, lifting) converse_rtranclp_into_rtranclp rtranclp.rtrancl_refl)
qed


text \<open>
  C28. The event loop queues the task of a connection once for every event, so that two workers run the same
  task at the same time, and the collector deletes a finished task without asking whether it is queued or
  running: a worker can run a task that does not exist any more.
\<close>

theorem task_deleted_while_running:
  "\<exists>s t. srv_step\<^sup>*\<^sup>* Server s \<and> wp_workers (srv_pool s) ! 0 = Busy t \<and> wp_workers (srv_pool s) ! 1 = Busy t \<and>
    t \<notin> srv_live s"
proof (intro exI conjI)
  show "srv_step\<^sup>*\<^sup>* Server (fd_collect both_run)" using both_run_reachable srv_step.collect by (rule rtranclp.rtrancl_into_rtrancl)
  show "wp_workers (srv_pool (fd_collect both_run)) ! 0 = Busy 0" "wp_workers (srv_pool (fd_collect both_run)) ! 1 = Busy 0"
    "0 \<notin> srv_live (fd_collect both_run)"
    by (simp_all add: fd_collect_def server_run_simps)
qed

text \<open>
  C29. An event of a connection the collector has closed in the meantime ends the whole server: the events of
  one \<^verbatim>\<open>epoll_wait\<close> are processed without the lock in between, and an unknown descriptor is fatal.
\<close>

theorem late_event_is_fatal:
  "\<exists>s fd t. srv_step\<^sup>*\<^sup>* Server s \<and> srv_conn s fd = Some t \<and> process_epoll s [Ev_in fd] \<noteq> Inl ExitProcess \<and>
    srv_step s (fd_collect s) \<and> process_epoll (fd_collect s) [Ev_in fd] = Inl ExitProcess"
proof (intro exI conjI)
  show "srv_step\<^sup>*\<^sup>* Server both_run" "srv_step both_run (fd_collect both_run)"
    using both_run_reachable srv_step.collect by simp_all
  show "srv_conn both_run 5 = Some 0" "process_epoll both_run [Ev_in 5] \<noteq> Inl ExitProcess"
    "process_epoll (fd_collect both_run) [Ev_in 5] = Inl ExitProcess"
    by (simp_all add: fd_collect_def server_run_simps)
qed


section \<open>Shutting down\<close>

lemma close_conns_all:
  assumes "\<forall>fd \<in> set fds. \<exists>t \<in> srv_done s. srv_conn s fd = Some t" "distinct fds" "inj_on (srv_conn s) (dom (srv_conn s))"
  shows "close_conns s fds =
    (s\<lparr>srv_conn := srv_conn s |` (- set fds), srv_live := srv_live s - {t. \<exists>fd \<in> set fds. srv_conn s fd = Some t}\<rparr>, Sd_piped)"
  using assms
proof (induction fds arbitrary: s)
  case (Cons fd fds)
  obtain t where t: "srv_conn s fd = Some t" "t \<in> srv_done s" using Cons.prems(1) by auto
  let ?s = "s\<lparr>srv_conn := (srv_conn s)(fd := None), srv_live := srv_live s - {t}\<rparr>"
  have 1: "\<forall>k \<in> set fds. \<exists>t \<in> srv_done ?s. srv_conn ?s k = Some t" using Cons.prems(1,2) by auto
  have 2: "inj_on (srv_conn ?s) (dom (srv_conn ?s))" using Cons.prems(3) by (auto simp: inj_on_def)
  have 3: "(srv_conn s)(fd := None) |` (- set fds) = srv_conn s |` (- set (fd # fds))" by (auto simp: restrict_map_def)
  have 4: "srv_live s - {t} - {t. \<exists>k \<in> set fds. ((srv_conn s)(fd := None)) k = Some t} =
      srv_live s - {t. \<exists>k \<in> set (fd # fds). srv_conn s k = Some t}"
    using t(1) Cons.prems(2) by auto
  have "close_conns s (fd # fds) = close_conns ?s fds" using t by simp
  also have "\<dots> = (s\<lparr>srv_conn := srv_conn s |` (- set (fd # fds)),
      srv_live := srv_live s - {t. \<exists>k \<in> set (fd # fds). srv_conn s k = Some t}\<rparr>, Sd_piped)"
    unfolding 3 [symmetric] 4 [symmetric] by (subst Cons.IH [OF 1 _ 2]) (use Cons.prems(2) in simp_all)
  finally show ?case .
qed (simp add: restrict_map_def)

text \<open>
  C26. When no task is queued or running and every connection has ended, \<^verbatim>\<open>shutdown\<close> closes all of them in one
  go: no connection is left, every task is deleted, and only the event loop remains to be woken.
\<close>

theorem shutdown_closes_all:
  assumes "srv_step\<^sup>*\<^sup>* Server s" "\<not> srv_shutdown s" "all_finished (srv_pool s)" "srv_live s \<subseteq> srv_done s"
  shows "server_shutdown s Sd_begin = Inr (s\<lparr>srv_conn := Map.empty, srv_live := {}\<rparr>, Sd_piped)"
proof -
  have inv: "srv_inv s" using srv_inv_reachable [OF assms(1)] .
  then have fds: "set (conns_from s (\<lambda>_. True)) = dom (srv_conn s)" "distinct (conns_from s (\<lambda>_. True))"
    by (simp_all add: conns_from_def srv_inv_def dom_def)
  have d: "\<forall>fd \<in> set (conns_from s (\<lambda>_. True)). \<exists>t \<in> srv_done s. srv_conn s fd = Some t"
    using inv assms(4) unfolding fds(1) srv_inv_def by (auto simp: ran_def dom_def)
  have "srv_conn s |` (- dom (srv_conn s)) = Map.empty" by (auto simp: restrict_map_def dom_def)
  moreover have "srv_live s - {t. \<exists>fd \<in> dom (srv_conn s). srv_conn s fd = Some t} = {}"
    using inv by (auto simp: srv_inv_def ran_def dom_def)
  ultimately show ?thesis
    using close_conns_all [OF d fds(2)] inv assms(2,3) unfolding fds(1) by (simp add: server_shutdown_def srv_inv_def)
qed

text \<open>One client that connects and closes.\<close>

definition one_client :: server where
  "one_client = (case process_event Server (Ev_accept 5) of Inr (_, s) \<Rightarrow> s | Inl _ \<Rightarrow> Server)"

definition client_closing :: server where
  "client_closing =
    (let s = (case process_event one_client (Ev_in 5) of Inr (_, s) \<Rightarrow> s | Inl _ \<Rightarrow> Server);
         s = s\<lparr>srv_pool := worker_take (srv_pool s) 0\<rparr>
     in s\<lparr>srv_done := insert 0 (srv_done s)\<rparr>)"

lemmas closing_simps = server_run_simps one_client_def client_closing_def worker_done_def all_finished_def

lemma one_client_reachable: "srv_step\<^sup>*\<^sup>* Server one_client"
  by (rule r_into_rtranclp, rule srv_step.event [where e = "Ev_accept 5" and go_on = True]) (simp_all add: closing_simps)

lemma client_closing_steps: "srv_step\<^sup>*\<^sup>* one_client client_closing"
proof -
  let ?s1 = "snd (projr (process_event one_client (Ev_in 5)))"
  let ?s2 = "?s1\<lparr>srv_pool := worker_take (srv_pool ?s1) 0\<rparr>"
  have "srv_step one_client ?s1" by (rule srv_step.event [where e = "Ev_in 5" and go_on = True]) (simp_all add: closing_simps)
  moreover have "srv_step ?s1 ?s2" by (rule srv_step.take_task) (simp_all add: closing_simps)
  moreover have "srv_step ?s2 (?s2\<lparr>srv_done := insert 0 (srv_done ?s2)\<rparr>)"
    by (rule srv_step.finish [where i = 0]) (simp_all add: closing_simps)
  moreover have "?s2\<lparr>srv_done := insert 0 (srv_done ?s2)\<rparr> = client_closing" by (simp add: closing_simps)
  ultimately show ?thesis by (metis (no_types, lifting) converse_rtranclp_into_rtranclp rtranclp.rtrancl_refl)
qed

theorem shutdown_closes_all_witness:
  "let s = client_closing\<lparr>srv_pool := worker_done (srv_pool client_closing) 0 0\<rparr>
   in server_shutdown s Sd_begin = Inr (s\<lparr>srv_conn := Map.empty, srv_live := {}\<rparr>, Sd_piped)"
proof -
  let ?s = "client_closing\<lparr>srv_pool := worker_done (srv_pool client_closing) 0 0\<rparr>"
  have "srv_step client_closing ?s" by (rule srv_step.task_done) (simp_all add: closing_simps)
  then have "srv_step\<^sup>*\<^sup>* Server ?s" using one_client_reachable client_closing_steps by (meson rtranclp.rtrancl_into_rtrancl rtranclp_trans)
  from shutdown_closes_all [OF this] show ?thesis by (simp add: closing_simps)
qed

lemma threads_steps: "srv_step\<^sup>*\<^sup>* s s' \<Longrightarrow> shut_step\<^sup>*\<^sup>* (s, pc) (s', pc)"
  by (induction rule: rtranclp_induct) (auto intro: rtranclp.rtrancl_into_rtrancl shut_step.threads)

text \<open>
  C30. While \<^verbatim>\<open>shutdown\<close> waits for a connection to end it gives up the lock but keeps its iterator; the collector
  may erase that very entry in the meantime, and \<^verbatim>\<open>shutdown\<close> goes on with an iterator to an erased element.
\<close>

theorem shutdown_races_collector:
  "\<exists>s pc. shut_step\<^sup>*\<^sup>* (Server, Sd_begin) (s, pc) \<and> server_shutdown s pc = Inl UndefBehaviour"
proof (intro exI conjI)
  have "shut_step (one_client, Sd_begin) (one_client, Sd_conn 5)"
    by (rule shut_step.shutdown) (simp add: closing_simps server_shutdown_def conns_from_def)
  moreover have "srv_step\<^sup>*\<^sup>* one_client (fd_collect client_closing)"
    using client_closing_steps srv_step.collect by (rule rtranclp.rtrancl_into_rtrancl)
  ultimately show "shut_step\<^sup>*\<^sup>* (Server, Sd_begin) (fd_collect client_closing, Sd_conn 5)"
    using threads_steps one_client_reachable by (meson converse_rtranclp_into_rtranclp rtranclp_trans)
  show "server_shutdown (fd_collect client_closing) (Sd_conn 5) = Inl UndefBehaviour"
    by (simp add: closing_simps server_shutdown_def fd_collect_def)
qed

end
