(* ===== verification/Lex_Tokens.thy ===== *)
theory Lex_Tokens
  imports Lex
begin

text \<open>
  The tokens the lexer finds in a text: lexemes printed with their separators read back as their tokens, with
  the cases in which the lexer of the code does not do so.
\<close>

section \<open>The cursor in a text\<close>

text \<open>The cursor stands between what has been read and the rest.\<close>

definition reads :: "lex \<Rightarrow> string \<Rightarrow> string \<Rightarrow> bool" where
  "reads lx pre rest \<longleftrightarrow> lx_sql lx = pre @ rest \<and> lx_pos lx = int (length pre) - 1"

lemma reads_Lex: "reads (Lex sql) [] sql"
  by (simp add: reads_def Lex_def)

lemma reads_buf [simp]:
  "reads (push_back lx c) pre rest = reads lx pre rest"
  "reads (pop_back lx) pre rest = reads lx pre rest"
  "reads (clear_buf lx) pre rest = reads lx pre rest"
  by (simp_all add: reads_def push_back_def pop_back_def clear_buf_def)

lemma buf_simps [simp]:
  "lx_buf (push_back lx c) = lx_buf lx @ [c]"
  "lx_buf (pop_back lx) = butlast (lx_buf lx)"
  "lx_buf (clear_buf lx) = []"
  "lx_buf (step_back lx) = lx_buf lx"
  by (simp_all add: push_back_def pop_back_def clear_buf_def step_back_def)

lemma next_char_end: "reads lx pre [] \<Longrightarrow> next_char lx = (NUL, lx)"
  by (simp add: reads_def next_char_def sql_len_def)

lemma next_char_Cons:
  assumes "reads lx pre (c # rest)"
  shows "next_char lx = (c, lx\<lparr>lx_pos := lx_pos lx + 1\<rparr>)"
    "reads (lx\<lparr>lx_pos := lx_pos lx + 1\<rparr>) (pre @ [c]) rest"
  using assms by (simp_all add: reads_def next_char_def sql_len_def nth_append)

lemma peek_next_Cons: "reads lx pre (c # rest) \<Longrightarrow> peek_next lx = c"
  by (simp add: reads_def peek_next_def sql_len_def nth_append)

lemma step_back_Cons: "reads lx (pre @ [c]) rest \<Longrightarrow> reads (step_back lx) pre (c # rest)"
  by (simp add: reads_def step_back_def)

lemma get_char_last: "reads lx (pre @ [c]) rest \<Longrightarrow> get_char lx = c"
  by (simp add: reads_def get_char_def nth_append)

lemma read_while_word:
  assumes "reads lx pre (w @ rest)" "\<forall>c \<in> set w. c \<noteq> NUL \<and> P c"
    "rest = [] \<or> (\<exists>c r. rest = c # r \<and> (c = NUL \<or> \<not> P c))"
  shows "\<exists>lx'. read_while P lx = ((case rest of [] \<Rightarrow> NUL | c # _ \<Rightarrow> c), lx') \<and> lx_buf lx' = lx_buf lx @ w \<and>
    (case rest of [] \<Rightarrow> reads lx' (pre @ w) [] | c # r \<Rightarrow> reads lx' (pre @ w @ [c]) r)"
  using assms
proof (induction w arbitrary: lx pre)
  case Nil
  then show ?case
    by (cases rest)
      (auto simp: read_while.simps [of P lx] next_char_end [where pre = pre] next_char_Cons [where pre = pre])
next
  case (Cons d w)
  let ?lx = "lx\<lparr>lx_pos := lx_pos lx + 1\<rparr>"
  have n: "next_char lx = (d, ?lx)" "reads ?lx (pre @ [d]) (w @ rest)"
    using next_char_Cons [of lx pre d "w @ rest"] Cons.prems(1) by simp_all
  have step: "read_while P lx = read_while P (push_back ?lx d)"
    using Cons.prems(2) by (simp add: read_while.simps [of P lx] n(1))
  have "reads (push_back ?lx d) (pre @ [d]) (w @ rest)" using n(2) by simp
  from Cons.IH [OF this _ Cons.prems(3)] Cons.prems(2) show ?case
    unfolding step by (auto simp: push_back_def split: list.splits)
qed

lemma skip_while_blanks:
  assumes "reads lx pre (w @ rest)" "\<forall>c \<in> set w. c \<noteq> NUL \<and> P c"
    "rest = [] \<or> (\<exists>c r. rest = c # r \<and> (c = NUL \<or> \<not> P c))"
  shows "\<exists>lx'. skip_while P lx = ((case rest of [] \<Rightarrow> NUL | c # _ \<Rightarrow> c), lx') \<and> lx_buf lx' = lx_buf lx \<and>
    (case rest of [] \<Rightarrow> reads lx' (pre @ w) [] | c # r \<Rightarrow> reads lx' (pre @ w @ [c]) r)"
  using assms
proof (induction w arbitrary: lx pre)
  case Nil
  then show ?case
    by (cases rest)
      (auto simp: skip_while.simps [of P lx] next_char_end [where pre = pre] next_char_Cons [where pre = pre])
next
  case (Cons d w)
  let ?lx = "lx\<lparr>lx_pos := lx_pos lx + 1\<rparr>"
  have n: "next_char lx = (d, ?lx)" "reads ?lx (pre @ [d]) (w @ rest)"
    using next_char_Cons [of lx pre d "w @ rest"] Cons.prems(1) by simp_all
  have step: "skip_while P lx = skip_while P ?lx"
    using Cons.prems(2) by (simp add: skip_while.simps [of P lx] n(1))
  from Cons.IH [OF n(2) _ Cons.prems(3)] Cons.prems(2) show ?case
    unfolding step by (auto split: list.splits)
qed


section \<open>One token\<close>

abbreviation blank :: "char \<Rightarrow> bool" where
  "blank c \<equiv> c = CHR '' '' \<or> c = CHR 0x0A"

definition signs :: string where
  "signs = [NUL, CHR ''('', CHR '')'', CHR '';'', CHR '','', CHR ''<'', CHR ''>'', CHR ''*'', CHR ''='', CHR 0x22,
            CHR 0x27, CHR '' '', CHR 0x0A, CHR ''.'', CHR 0x5C]"

lemma sign_not_id: "c \<in> set signs \<Longrightarrow> \<not> id_char c"
  by (auto simp: signs_def id_char_def is_letter_def is_digit_def NUL_def)

lemma digit_not_letter: "is_digit c \<Longrightarrow> \<not> is_letter c \<and> c \<noteq> CHR ''_''"
  by (auto simp: is_letter_def is_digit_def)

lemma not_sign:
  assumes "c \<notin> set signs"
  shows "c \<noteq> NUL" "c \<noteq> CHR ''(''" "c \<noteq> CHR '')''" "c \<noteq> CHR '';''" "c \<noteq> CHR '',''" "c \<noteq> CHR ''<''" "c \<noteq> CHR ''>''"
    "c \<noteq> CHR ''*''" "c \<noteq> CHR ''=''" "c \<noteq> CHR 0x22" "c \<noteq> CHR 0x27" "c \<noteq> CHR '' ''" "c \<noteq> CHR 0x0A" "c \<noteq> CHR ''.''"
  using assms by (auto simp: signs_def)

lemma next_token_id:
  assumes "skip_while blank lx = (c, lx')" "is_letter c \<or> c = CHR ''_''"
  shows "next_token lx tk = Inr (read_id lx' tk)"
proof -
  have "c \<notin> set signs" using assms(2) sign_not_id [of c] by (auto simp: id_char_def)
  from not_sign [OF this] show ?thesis using assms by (simp add: next_token_def)
qed

lemma next_token_number:
  assumes "skip_while blank lx = (c, lx')" "is_digit c"
  shows "next_token lx tk = read_number lx' tk"
proof -
  have "c \<notin> set signs" using assms(2) sign_not_id [of c] by (auto simp: id_char_def)
  from not_sign [OF this] digit_not_letter [OF assms(2)] show ?thesis using assms by (simp add: next_token_def)
qed

text \<open>A word and the character behind it: the cursor is put back in front of that character.\<close>

lemma read_id_word:
  assumes "reads lx (pre @ [c]) (w @ d # rest)" "id_char c" "\<forall>x \<in> set w. id_char x" "\<not> id_char d"
    "d = CHR '' '' \<Longrightarrow> c # w \<notin> set key_words_prefix"
  shows "\<exists>lx'. read_id lx tk =
      (True, (case key_words (c # w) of
                Some t \<Rightarrow> tk\<lparr>tk_type := t\<rparr>
              | None \<Rightarrow> tk\<lparr>tk_type := TOKEN_ID, tk_val := Tk_varchar (c # w @ (if d = CHR '' '' then [NUL, NUL] else [NUL]))\<rparr>), lx') \<and>
      reads lx' (pre @ c # w) (d # rest)"
proof -
  let ?start = "push_back (clear_buf lx) (get_char (clear_buf lx))"
  have g: "get_char (clear_buf lx) = c" using get_char_last [of "clear_buf lx"] assms(1) by simp
  have r: "reads ?start (pre @ [c]) (w @ d # rest)" using assms(1) by simp
  have nul: "id_char x \<Longrightarrow> x \<noteq> NUL" for x using sign_not_id [of NUL] by (auto simp: signs_def)
  obtain lx1 where lx1: "read_while id_char ?start = (d, lx1)" "lx_buf lx1 = c # w" "reads lx1 ((pre @ [c] @ w) @ [d]) rest"
    using read_while_word [OF r, of id_char] assms(3,4) nul g by auto
  have cs: "cstr (c # w @ [NUL]) = c # w" "cstr (c # w @ [NUL, NUL]) = c # w"
    using assms(2,3) nul by (auto simp: cstr_def takeWhile_append)
  have bk: "reads (step_back lx1) (pre @ c # w) (d # rest)" using step_back_Cons [OF lx1(3)] by simp
  show ?thesis
  proof (cases "d = CHR '' ''")
    case True
    have "check_special_key_word_prefix lx1 = (False, push_back lx1 NUL)"
      using assms(5) [OF True] by (simp add: check_special_key_word_prefix_def lx1(2) cs)
    then show ?thesis
      using True lx1 bk step_back_Cons [of "push_back lx1 NUL"]
      by (simp add: read_id_def finish_id_def is_key_word_def cs build_str_def split: option.split)
  next
    case False
    then show ?thesis
      using lx1 bk by (simp add: read_id_def finish_id_def is_key_word_def cs build_str_def split: option.split)
  qed
qed


section \<open>Numbers and strings\<close>

lemma digit_char: "k < 10 \<Longrightarrow> is_digit (char_of (48 + k)) \<and> digit_val (char_of (48 + k)) = int k"
proof -
  assume "k < (10::nat)"
  then have "k \<in> {0, 1, 2, 3, 4, 5, 6, 7, 8, 9}" by auto
  then show ?thesis by (auto simp: is_digit_def digit_val_def char_of_def bit_0)
qed

lemma digits_val_snoc: "digits_val (ds @ [c]) = 10 * digits_val ds + digit_val c"
  by (simp add: digits_val_def)

lemma show_nat_digits: "show_nat n \<noteq> [] \<and> (\<forall>c \<in> set (show_nat n). is_digit c) \<and> digits_val (show_nat n) = int n"
proof (induction n rule: show_nat.induct)
  case (1 n)
  show ?case
  proof (cases "n < 10")
    case True
    then show ?thesis using digit_char [of n] by (simp add: show_nat.simps [of n] digits_val_def)
  next
    case False
    have m: "n mod 10 < 10" by simp
    have e: "show_nat n = show_nat (n div 10) @ [char_of (48 + n mod 10)]" using False by (simp add: show_nat.simps [of n])
    have v: "int n = 10 * int (n div 10) + int (n mod 10)" by (simp add: zdiv_int zmod_int)
    show ?thesis unfolding e using "1.IH" [OF False] digit_char [OF m] by (auto simp: digits_val_snoc v)
  qed
qed

lemma read_number_digits:
  assumes "reads lx (pre @ [c]) (w @ d # rest)" "is_digit c" "\<forall>x \<in> set w. is_digit x" "\<not> is_digit d" "d \<noteq> CHR ''.''"
    "digits_val (c # w) \<le> 2147483647"
  shows "\<exists>lx'. read_number lx tk =
      Inr (True, tk\<lparr>tk_val := Tk_integer (digits_val (c # w)),
                    tk_type := (if tk_type tk = TOKEN_DECIMAL then TOKEN_DECIMAL else TOKEN_INT_NUM)\<rparr>, lx') \<and>
      reads lx' (pre @ c # w) (d # rest)"
proof -
  let ?start = "push_back (clear_buf lx) (get_char (clear_buf lx))"
  have g: "get_char (clear_buf lx) = c" using get_char_last [of "clear_buf lx"] assms(1) by simp
  have r: "reads ?start (pre @ [c]) (w @ d # rest)" using assms(1) by simp
  have nul: "is_digit x \<Longrightarrow> x \<noteq> NUL" for x using sign_not_id [of NUL] by (auto simp: signs_def id_char_def)
  obtain lx1 where lx1: "read_while is_digit ?start = (d, lx1)" "lx_buf lx1 = c # w" "reads lx1 ((pre @ [c] @ w) @ [d]) rest"
    using read_while_word [OF r, of is_digit] assms(3,4) nul g by auto
  have cs: "cstr (c # w @ [NUL]) = c # w" using assms(2,3) nul by (auto simp: cstr_def takeWhile_append)
  have bk: "reads (step_back lx1) (pre @ c # w) (d # rest)" using step_back_Cons [OF lx1(3)] by simp
  show ?thesis using lx1 bk assms(5,6) by (simp add: read_number_def cs)
qed

definition escape_char :: "char \<Rightarrow> string" where
  "escape_char c = (if c = CHR 0x22 \<or> c = CHR 0x27 \<or> c = CHR 0x5C then [CHR 0x5C, c] else [c])"

lemma read_string_escaped:
  assumes "reads lx pre (concat (map escape_char s) @ q # rest)" "NUL \<notin> set s" "q = CHR 0x22 \<or> q = CHR 0x27"
  shows "\<exists>lx'. (let (c, lx1) = next_char lx in read_string_loop c lx1) = (True, lx') \<and>
    lx_buf lx' = lx_buf lx @ s @ [NUL] \<and> reads lx' (pre @ concat (map escape_char s) @ [q]) rest"
  using assms
proof (induction s arbitrary: lx pre)
  case Nil
  let ?lx = "lx\<lparr>lx_pos := lx_pos lx + 1\<rparr>"
  have n: "next_char lx = (q, ?lx)" "reads ?lx (pre @ [q]) rest" using next_char_Cons [of lx pre q rest] Nil.prems(1) by simp_all
  have "q \<noteq> NUL" using Nil.prems(3) by (auto simp: NUL_def)
  then show ?case using n Nil.prems(3) by (auto simp: read_string_loop.simps [of q])
next
  case (Cons c s)
  let ?esc = "concat (map escape_char s) @ q # rest"
  show ?case
  proof (cases "c = CHR 0x22 \<or> c = CHR 0x27 \<or> c = CHR 0x5C")
    case True
    let ?lx = "lx\<lparr>lx_pos := lx_pos lx + 1\<rparr>" let ?lx2 = "?lx\<lparr>lx_pos := lx_pos ?lx + 1\<rparr>"
    have t: "reads lx pre (CHR 0x5C # c # ?esc)" using Cons.prems(1) True by (simp add: escape_char_def [of c])
    note n1 = next_char_Cons [OF t]
    note n2 = next_char_Cons [OF n1(2)]
    have "reads (push_back ?lx2 c) (pre @ [CHR 0x5C, c]) ?esc" using n2(2) by simp
    from Cons.IH [OF this] Cons.prems(2,3) obtain lx' where
      "(let (c, lx1) = next_char (push_back ?lx2 c) in read_string_loop c lx1) = (True, lx')"
      "lx_buf lx' = lx_buf (push_back ?lx2 c) @ s @ [NUL]"
      "reads lx' ((pre @ [CHR 0x5C, c]) @ concat (map escape_char s) @ [q]) rest" by auto
    then show ?thesis using n1(1) n2(1) True
      by (auto simp: read_string_loop.simps [of "CHR 0x5C"] escape_char_def [of c] NUL_def)
  next
    case False
    let ?lx = "lx\<lparr>lx_pos := lx_pos lx + 1\<rparr>"
    have t: "reads lx pre (c # ?esc)" using Cons.prems(1) False by (simp add: escape_char_def [of c])
    note n1 = next_char_Cons [OF t]
    have "reads (push_back ?lx c) (pre @ [c]) ?esc" using n1(2) by simp
    from Cons.IH [OF this] Cons.prems(2,3) obtain lx' where
      "(let (c, lx1) = next_char (push_back ?lx c) in read_string_loop c lx1) = (True, lx')"
      "lx_buf lx' = lx_buf (push_back ?lx c) @ s @ [NUL]"
      "reads lx' ((pre @ [c]) @ concat (map escape_char s) @ [q]) rest" by auto
    then show ?thesis using n1(1) False Cons.prems(2)
      by (auto simp: read_string_loop.simps [of c] escape_char_def [of c])
  qed
qed

section \<open>Printing and reading back\<close>

text \<open>What a client can write: signs, words, numbers, quoted strings and the two-word keyword.\<close>

datatype lexeme = Sign token_type | Word string | Number nat | Quoted string | Primary_key

definition sign_text :: "token_type \<Rightarrow> string" where
  "sign_text t =
    (case t of
       TOKEN_LEFT_PARENTHESES \<Rightarrow> ''('' | TOKEN_RIGHT_PARENTHESES \<Rightarrow> '')'' | TOKEN_SEMICOLON \<Rightarrow> '';''
     | TOKEN_COMMA \<Rightarrow> '','' | TOKEN_LESS_SIGN \<Rightarrow> ''<'' | TOKEN_LE_EQ \<Rightarrow> ''<='' | TOKEN_GREATER_SIGN \<Rightarrow> ''>''
     | TOKEN_GT_EQ \<Rightarrow> ''>='' | TOKEN_STAR \<Rightarrow> ''*'' | TOKEN_EQUAL \<Rightarrow> ''='' | _ \<Rightarrow> '''')"

definition lexeme_ok :: "lexeme \<Rightarrow> bool" where
  "lexeme_ok l \<longleftrightarrow>
    (case l of
       Sign t \<Rightarrow> sign_text t \<noteq> ''''
     | Word w \<Rightarrow> w \<noteq> [] \<and> (is_letter (hd w) \<or> hd w = CHR ''_'') \<and> list_all id_char w \<and> w \<notin> set key_words_prefix
     | Number n \<Rightarrow> n \<le> 2147483647
     | Quoted s \<Rightarrow> NUL \<notin> set s
     | Primary_key \<Rightarrow> True)"

definition print_lexeme :: "lexeme \<Rightarrow> string" where
  "print_lexeme l =
    (case l of
       Sign t \<Rightarrow> sign_text t
     | Word w \<Rightarrow> w
     | Number n \<Rightarrow> show_nat n
     | Quoted s \<Rightarrow> [CHR 0x22] @ concat (map escape_char s) @ [CHR 0x22]
     | Primary_key \<Rightarrow> ''primary key'')"

definition print_sql :: "lexeme list \<Rightarrow> string" where
  "print_sql ls = concat (map (\<lambda>l. print_lexeme l @ '' '') ls)"

text \<open>
  What the token holds after a lexeme, given what it held before.  A word that is followed by a blank has
  been terminated twice.
\<close>

definition lexeme_token :: "lexeme \<Rightarrow> token \<Rightarrow> token" where
  "lexeme_token l tk =
    (case l of
       Sign t \<Rightarrow> tk\<lparr>tk_type := t\<rparr>
     | Word w \<Rightarrow> (case key_words w of
                   Some t \<Rightarrow> tk\<lparr>tk_type := t\<rparr>
                 | None \<Rightarrow> tk\<lparr>tk_type := TOKEN_ID, tk_val := Tk_varchar (w @ [NUL, NUL])\<rparr>)
     | Number n \<Rightarrow> tk\<lparr>tk_val := Tk_integer (int n), tk_type := TOKEN_INT_NUM\<rparr>
     | Quoted s \<Rightarrow> tk\<lparr>tk_type := TOKEN_STRING, tk_val := Tk_varchar (s @ [NUL])\<rparr>
     | Primary_key \<Rightarrow> tk\<lparr>tk_type := TOKEN_PRIMARY_KEY\<rparr>)"

fun lexeme_tokens :: "lexeme list \<Rightarrow> token \<Rightarrow> token list" where
  "lexeme_tokens [] tk = []"
| "lexeme_tokens (l # ls) tk = lexeme_token l tk # lexeme_tokens ls (lexeme_token l tk)"

text \<open>A number right behind the keyword \<^verbatim>\<open>decimal\<close> is the one sequence the lexer gets wrong.\<close>

definition number_after_decimal :: "token \<Rightarrow> lexeme \<Rightarrow> bool" where
  "number_after_decimal tk l \<longleftrightarrow> tk_type tk = TOKEN_DECIMAL \<and> (case l of Number n \<Rightarrow> True | _ \<Rightarrow> False)"

fun lexemes_ok :: "lexeme list \<Rightarrow> token \<Rightarrow> bool" where
  "lexemes_ok [] tk = True"
| "lexemes_ok (l # ls) tk \<longleftrightarrow> lexeme_ok l \<and> \<not> number_after_decimal tk l \<and> lexemes_ok ls (lexeme_token l tk)"

lemma first_char:
  assumes "reads lx pre (bl @ c # rest)" "\<forall>x \<in> set bl. blank x" "c \<noteq> NUL" "\<not> blank c"
  shows "\<exists>lx'. skip_while blank lx = (c, lx') \<and> reads lx' ((pre @ bl) @ [c]) rest"
proof -
  have "\<not> blank NUL" by (simp add: NUL_def)
  then have bl: "\<forall>x \<in> set bl. x \<noteq> NUL \<and> blank x" using assms(2) by blast
  have c: "c # rest = [] \<or> (\<exists>d r. c # rest = d # r \<and> (d = NUL \<or> \<not> blank d))" using assms(4) by blast
  show ?thesis
    using skip_while_blanks [where P = "\<lambda>x. blank x", OF assms(1) bl c] unfolding list.case append_assoc by blast
qed

definition single_signs :: "(char \<times> token_type) list" where
  "single_signs =
    [(CHR ''('', TOKEN_LEFT_PARENTHESES), (CHR '')'', TOKEN_RIGHT_PARENTHESES), (CHR '';'', TOKEN_SEMICOLON),
     (CHR '','', TOKEN_COMMA), (CHR ''*'', TOKEN_STAR), (CHR ''='', TOKEN_EQUAL)]"

lemma single_sign:
  assumes "reads lx pre (bl @ [c] @ rest)" "\<forall>x \<in> set bl. blank x" "(c, t) \<in> set single_signs"
  shows "\<exists>lx'. next_token lx tk = Inr (True, tk\<lparr>tk_type := t\<rparr>, lx') \<and> reads lx' (pre @ bl @ [c]) rest"
proof -
  have c: "c \<noteq> NUL" "\<not> blank c" using assms(3) by (auto simp: single_signs_def NUL_def)
  obtain lx1 where lx1: "skip_while blank lx = (c, lx1)" "reads lx1 ((pre @ bl) @ [c]) rest"
    using first_char [OF _ assms(2) c, of lx pre rest] assms(1) by auto
  have "next_token lx tk = Inr (True, tk\<lparr>tk_type := t\<rparr>, lx1)"
  proof -
    from assms(3) have "c = CHR ''('' \<and> t = TOKEN_LEFT_PARENTHESES \<or> c = CHR '')'' \<and> t = TOKEN_RIGHT_PARENTHESES \<or>
        c = CHR '';'' \<and> t = TOKEN_SEMICOLON \<or> c = CHR '','' \<and> t = TOKEN_COMMA \<or> c = CHR ''*'' \<and> t = TOKEN_STAR \<or>
        c = CHR ''='' \<and> t = TOKEN_EQUAL" by (simp add: single_signs_def)
    then show ?thesis unfolding next_token_def lx1(1) by (elim disjE conjE) (simp_all add: NUL_def)
  qed
  then show ?thesis using lx1(2) by auto
qed

definition cmp_signs :: "(char \<times> token_type \<times> token_type) list" where
  "cmp_signs = [(CHR ''<'', TOKEN_LE_EQ, TOKEN_LESS_SIGN), (CHR ''>'', TOKEN_GT_EQ, TOKEN_GREATER_SIGN)]"

lemma cmp_sign:
  assumes "reads lx pre (bl @ [c] @ d # rest)" "\<forall>x \<in> set bl. blank x" "(c, with_eq, alone) \<in> set cmp_signs"
  shows "\<exists>lx'. next_token lx tk = Inr (True, tk\<lparr>tk_type := (if d = CHR ''='' then with_eq else alone)\<rparr>, lx') \<and>
    (if d = CHR ''='' then reads lx' (pre @ bl @ [c, d]) rest else reads lx' (pre @ bl @ [c]) (d # rest))"
proof -
  have c: "c \<noteq> NUL" "\<not> blank c" using assms(3) by (auto simp: cmp_signs_def NUL_def)
  obtain lx1 where lx1: "skip_while blank lx = (c, lx1)" "reads lx1 ((pre @ bl) @ [c]) (d # rest)"
    using first_char [OF _ assms(2) c, of lx pre "d # rest"] assms(1) by auto
  note n = next_char_Cons [OF lx1(2)]
  have s: "next_token lx tk = Inr (read_sign lx1 tk with_eq alone)"
    using assms(3) unfolding next_token_def lx1(1) by (auto simp: cmp_signs_def NUL_def)
  show ?thesis
  proof (cases "d = CHR ''=''")
    case True
    then show ?thesis using n(2) by (simp add: s read_sign_def n(1))
  next
    case False
    then show ?thesis using step_back_Cons [OF n(2)] by (simp add: s read_sign_def n(1))
  qed
qed

lemma next_token_sign:
  assumes "reads lx pre (bl @ sign_text t @ CHR '' '' # rest)" "\<forall>x \<in> set bl. blank x" "sign_text t \<noteq> ''''"
  shows "\<exists>lx'. next_token lx tk = Inr (True, tk\<lparr>tk_type := t\<rparr>, lx') \<and>
    reads lx' (pre @ bl @ sign_text t) (CHR '' '' # rest)"
proof -
  consider c where "sign_text t = [c]" "(c, t) \<in> set single_signs"
    | c e where "sign_text t = [c]" "(c, e, t) \<in> set cmp_signs"
    | c a where "sign_text t = [c, CHR ''='']" "(c, t, a) \<in> set cmp_signs"
    using assms(3) by (cases t) (auto simp: sign_text_def single_signs_def cmp_signs_def)
  then show ?thesis
  proof cases
    case 1
    show ?thesis using single_sign [OF _ assms(2) 1(2), of lx pre "CHR '' '' # rest" tk] assms(1) unfolding 1(1) by simp
  next
    case 2
    show ?thesis using cmp_sign [OF _ assms(2) 2(2), of lx pre "CHR '' ''" rest tk] assms(1) unfolding 2(1) by simp
  next
    case 3
    show ?thesis using cmp_sign [OF _ assms(2) 3(2), of lx pre "CHR ''=''" "CHR '' '' # rest" tk] assms(1) unfolding 3(1) by simp
  qed
qed

lemma next_token_quoted:
  assumes "reads lx pre (bl @ ([CHR 0x22] @ concat (map escape_char s) @ [CHR 0x22]) @ rest)" "\<forall>x \<in> set bl. blank x" "NUL \<notin> set s"
  shows "\<exists>lx'. next_token lx tk = Inr (True, tk\<lparr>tk_type := TOKEN_STRING, tk_val := Tk_varchar (s @ [NUL])\<rparr>, lx') \<and>
    reads lx' (pre @ bl @ [CHR 0x22] @ concat (map escape_char s) @ [CHR 0x22]) rest"
proof -
  obtain lx1 where lx1: "skip_while blank lx = (CHR 0x22, lx1)"
      "reads lx1 ((pre @ bl) @ [CHR 0x22]) (concat (map escape_char s) @ CHR 0x22 # rest)"
    using first_char [of lx pre bl "CHR 0x22"] assms(1,2) by (auto simp: NUL_def)
  have "reads (clear_buf lx1) ((pre @ bl) @ [CHR 0x22]) (concat (map escape_char s) @ CHR 0x22 # rest)" using lx1(2) by simp
  from read_string_escaped [OF this assms(3)] obtain lx' where
    "(let (c, lx1) = next_char (clear_buf lx1) in read_string_loop c lx1) = (True, lx')"
    "lx_buf lx' = s @ [NUL]" "reads lx' (pre @ bl @ [CHR 0x22] @ concat (map escape_char s) @ [CHR 0x22]) rest"
    by auto
  then show ?thesis using lx1(1)
    by (auto simp: next_token_def read_string_def build_str_def NUL_def split: prod.splits)
qed

lemma next_token_word:
  assumes "reads lx pre (bl @ w @ d # rest)" "\<forall>x \<in> set bl. blank x" "w \<noteq> []" "is_letter (hd w) \<or> hd w = CHR ''_''"
    "list_all id_char w" "\<not> id_char d" "d = CHR '' '' \<Longrightarrow> w \<notin> set key_words_prefix"
  shows "\<exists>lx'. next_token lx tk =
      Inr (True, (case key_words w of
                Some t \<Rightarrow> tk\<lparr>tk_type := t\<rparr>
              | None \<Rightarrow> tk\<lparr>tk_type := TOKEN_ID, tk_val := Tk_varchar (w @ (if d = CHR '' '' then [NUL, NUL] else [NUL]))\<rparr>), lx') \<and>
      reads lx' (pre @ bl @ w) (d # rest)"
proof -
  obtain c v where w: "w = c # v" using assms(3) by (cases w) auto
  have id: "id_char c" "\<forall>x \<in> set v. id_char x" using assms(5) w by (auto simp: list_all_iff)
  have "c \<notin> set signs" using id(1) sign_not_id by blast
  from not_sign [OF this] have c: "c \<noteq> NUL" "\<not> blank c" by simp_all
  obtain lx1 where lx1: "skip_while blank lx = (c, lx1)" "reads lx1 ((pre @ bl) @ [c]) (v @ d # rest)"
    using first_char [OF _ assms(2) c, of lx pre "v @ d # rest"] assms(1) w by auto
  have pf: "d = CHR '' '' \<Longrightarrow> c # v \<notin> set key_words_prefix" using assms(7) w by simp
  have n: "next_token lx tk = Inr (read_id lx1 tk)" using next_token_id [OF lx1(1)] assms(4) unfolding w by simp
  show ?thesis using read_id_word [OF lx1(2) id assms(6) pf, of tk] unfolding n w append_assoc append_Cons append_Nil by blast
qed

lemma next_token_digits:
  assumes "reads lx pre (bl @ show_nat n @ d # rest)" "\<forall>x \<in> set bl. blank x" "n \<le> 2147483647" "\<not> is_digit d" "d \<noteq> CHR ''.''"
  shows "\<exists>lx'. next_token lx tk =
      Inr (True, tk\<lparr>tk_val := Tk_integer (int n),
                    tk_type := (if tk_type tk = TOKEN_DECIMAL then TOKEN_DECIMAL else TOKEN_INT_NUM)\<rparr>, lx') \<and>
      reads lx' (pre @ bl @ show_nat n) (d # rest)"
proof -
  note ds = show_nat_digits [of n]
  obtain c v where w: "show_nat n = c # v" using ds by (cases "show_nat n") auto
  have dig: "is_digit c" "\<forall>x \<in> set v. is_digit x" "digits_val (c # v) = int n" using ds unfolding w by auto
  have "id_char c" using dig(1) by (simp add: id_char_def)
  then have "c \<notin> set signs" using sign_not_id by blast
  from not_sign [OF this] have c: "c \<noteq> NUL" "\<not> blank c" by simp_all
  obtain lx1 where lx1: "skip_while blank lx = (c, lx1)" "reads lx1 ((pre @ bl) @ [c]) (v @ d # rest)"
    using first_char [OF _ assms(2) c, of lx pre "v @ d # rest"] assms(1) unfolding w by auto
  have le: "digits_val (c # v) \<le> 2147483647" using dig(3) assms(3) by simp
  show ?thesis
    using read_number_digits [OF lx1(2) dig(1,2) assms(4,5) le, of tk]
    unfolding next_token_number [OF lx1(1) dig(1)] dig(3) w append_assoc append_Cons append_Nil by blast
qed

lemma nul_facts: "\<not> id_char NUL" "\<not> blank NUL" "\<not> id_char (CHR '' '')" "CHR ''k'' \<noteq> CHR '' ''"
  using sign_not_id [of NUL] sign_not_id [of "CHR '' ''"] by (simp_all add: signs_def NUL_def)

lemma next_token_primary_key:
  assumes "reads lx pre (bl @ ''primary key'' @ CHR '' '' # rest)" "\<forall>x \<in> set bl. blank x"
  shows "\<exists>lx'. next_token lx tk = Inr (True, tk\<lparr>tk_type := TOKEN_PRIMARY_KEY\<rparr>, lx') \<and>
    reads lx' (pre @ bl @ ''primary key'') (CHR '' '' # rest)"
proof -
  let ?tail = "''key'' @ CHR '' '' # rest"
  obtain lx1 where lx1: "skip_while blank lx = (CHR ''p'', lx1)" "reads lx1 ((pre @ bl) @ ''p'') (''rimary'' @ CHR '' '' # ?tail)"
    using first_char [OF _ assms(2), of lx pre "CHR ''p''" "''rimary'' @ CHR '' '' # ?tail"] assms(1) by (auto simp: NUL_def)
  have n: "next_token lx tk = Inr (read_id lx1 tk)" by (rule next_token_id [OF lx1(1)]) (simp add: is_letter_def)
  let ?start = "push_back (clear_buf lx1) (get_char (clear_buf lx1))"
  have g: "get_char (clear_buf lx1) = CHR ''p''" using get_char_last [of "clear_buf lx1" "pre @ bl" "CHR ''p''"] lx1(2) by simp
  have r: "reads ?start ((pre @ bl) @ ''p'') (''rimary'' @ CHR '' '' # ?tail)" using lx1(2) by simp
  have ids: "\<forall>x \<in> set ''rimary''. x \<noteq> NUL \<and> id_char x" "\<forall>x \<in> set ''ey''. x \<noteq> NUL \<and> id_char x"
    by (simp_all add: NUL_def id_char_def is_letter_def)
  have sp: "CHR '' '' # y = [] \<or> (\<exists>d r. CHR '' '' # y = d # r \<and> (d = NUL \<or> \<not> id_char d))" for y using nul_facts by blast
  obtain lx2 where lx2: "read_while id_char ?start = (CHR '' '', lx2)" "lx_buf lx2 = ''primary''"
      "reads lx2 (((pre @ bl) @ ''p'') @ ''rimary'' @ '' '') ?tail"
    using read_while_word [OF r ids(1) sp] g by auto
  have special: "check_special_key_word_prefix lx2 = (True, pop_back (push_back lx2 NUL))"
    by (simp add: check_special_key_word_prefix_def lx2(2) cstr_def key_words_prefix_def NUL_def)
  let ?lx3 = "pop_back (push_back lx2 NUL)"
  have r3: "reads ?lx3 (pre @ bl @ ''primary '') ([] @ CHR ''k'' # ''ey'' @ CHR '' '' # rest)" using lx2(3) by simp
  have k: "CHR ''k'' # ''ey'' @ CHR '' '' # rest = [] \<or>
      (\<exists>d r. CHR ''k'' # ''ey'' @ CHR '' '' # rest = d # r \<and> (d = NUL \<or> \<not> d = CHR '' ''))" using nul_facts(4) by blast
  obtain lx4 where lx4: "skip_while (\<lambda>c. c = CHR '' '') ?lx3 = (CHR ''k'', lx4)" "lx_buf lx4 = ''primary''"
      "reads lx4 ((pre @ bl @ ''primary '') @ ''k'') (''ey'' @ CHR '' '' # rest)"
    using skip_while_blanks [where P = "\<lambda>c. c = CHR '' ''", OF r3 _ k] lx2(2) by auto
  let ?lx5 = "push_back (push_back lx4 (CHR '' '')) (CHR ''k'')"
  have r5: "reads ?lx5 (pre @ bl @ ''primary k'') (''ey'' @ CHR '' '' # rest)" using lx4(3) by simp
  obtain lx6 where lx6: "read_while id_char ?lx5 = (CHR '' '', lx6)" "lx_buf lx6 = ''primary key''"
      "reads lx6 ((pre @ bl @ ''primary key'') @ '' '') rest"
    using read_while_word [OF r5 ids(2) sp] lx4(2) by auto
  have kw: "cstr (''primary key'' @ [NUL]) = ''primary key''" by (simp add: cstr_def NUL_def)
  have "read_id lx1 tk = (True, tk\<lparr>tk_type := TOKEN_PRIMARY_KEY\<rparr>, push_back (step_back lx6) NUL)"
    using lx6(2) kw
    by (simp add: read_id_def lx2(1) special is_special_key_word_def lx4(1) lx6(1) is_key_word_def key_words_def)
  then show ?thesis using n step_back_Cons [OF lx6(3)] by simp
qed

lemma next_token_lexeme:
  assumes "reads lx pre (bl @ print_lexeme l @ CHR '' '' # rest)" "\<forall>x \<in> set bl. blank x" "lexeme_ok l"
    "\<not> number_after_decimal tk l"
  shows "\<exists>lx'. next_token lx tk = Inr (True, lexeme_token l tk, lx') \<and> reads lx' (pre @ bl @ print_lexeme l) (CHR '' '' # rest)"
proof (cases l)
  case (Sign t)
  then show ?thesis using next_token_sign [of lx pre bl t rest tk] assms by (simp add: print_lexeme_def lexeme_ok_def lexeme_token_def)
next
  case (Word w)
  have ok: "w \<noteq> []" "is_letter (hd w) \<or> hd w = CHR ''_''" "list_all id_char w" "w \<notin> set key_words_prefix"
    using assms(3) Word by (simp_all add: lexeme_ok_def)
  have r: "reads lx pre (bl @ w @ CHR '' '' # rest)" using assms(1) Word by (simp add: print_lexeme_def)
  show ?thesis using next_token_word [OF r assms(2) ok(1-3) nul_facts(3) ok(4), of tk]
    by (simp add: Word print_lexeme_def lexeme_token_def split: option.splits)
next
  case (Number n)
  have r: "reads lx pre (bl @ show_nat n @ CHR '' '' # rest)" "n \<le> 2147483647" "tk_type tk \<noteq> TOKEN_DECIMAL"
    using assms Number by (simp_all add: print_lexeme_def lexeme_ok_def number_after_decimal_def)
  have d: "\<not> is_digit (CHR '' '')" "CHR '' '' \<noteq> CHR ''.''" by (simp_all add: is_digit_def)
  show ?thesis using next_token_digits [OF r(1) assms(2) r(2) d, of tk] r(3)
    by (simp add: Number print_lexeme_def lexeme_token_def)
next
  case (Quoted s)
  then show ?thesis using next_token_quoted [of lx pre bl s "CHR '' '' # rest" tk] assms
    by (simp add: print_lexeme_def lexeme_ok_def lexeme_token_def)
next
  case Primary_key
  then show ?thesis using next_token_primary_key [OF _ assms(2), of lx pre rest tk] assms(1)
    by (simp add: print_lexeme_def lexeme_token_def)
qed

lemma next_token_end:
  assumes "reads lx pre bl" "\<forall>x \<in> set bl. blank x"
  shows "\<exists>lx'. next_token lx tk = Inr (False, tk, lx')"
proof -
  have bl: "\<forall>x \<in> set bl. x \<noteq> NUL \<and> blank x" using assms(2) nul_facts(2) by blast
  have r: "reads lx pre (bl @ [])" using assms(1) by simp
  have e: "([]::string) = [] \<or> (\<exists>d r. [] = d # r \<and> (d = NUL \<or> \<not> blank d))" by simp
  obtain lx' where "skip_while blank lx = (NUL, lx')"
    using skip_while_blanks [where P = "\<lambda>x. blank x", OF r bl e] unfolding list.case by blast
  then show ?thesis unfolding next_token_def by simp
qed

lemma tokens_lexemes:
  assumes "reads lx pre (bl @ print_sql ls)" "\<forall>x \<in> set bl. blank x" "lexemes_ok ls tk"
  shows "\<exists>last_tk. tokens (Suc (length ls)) lx tk = Inr (lexeme_tokens ls tk, last_tk)"
  using assms
proof (induction ls arbitrary: lx pre bl tk)
  case Nil
  then have "reads lx pre bl" by (simp add: print_sql_def)
  from next_token_end [OF this Nil.prems(2), of tk] show ?case by auto
next
  case (Cons l ls)
  have r: "reads lx pre (bl @ print_lexeme l @ CHR '' '' # print_sql ls)" using Cons.prems(1) by (simp add: print_sql_def)
  have ok: "lexeme_ok l" "\<not> number_after_decimal tk l" "lexemes_ok ls (lexeme_token l tk)" using Cons.prems(3) by simp_all
  from next_token_lexeme [OF r Cons.prems(2) ok(1,2)] obtain lx' where
    lx': "next_token lx tk = Inr (True, lexeme_token l tk, lx')"
      "reads lx' (pre @ bl @ print_lexeme l) ('' '' @ print_sql ls)" by auto
  from Cons.IH [OF lx'(2) _ ok(3)] show ?case by (auto simp: lx'(1))
qed


definition sample_lexemes :: "lexeme list" where
  "sample_lexemes =
    [Word ''create'', Word ''table'', Word ''t1'', Sign TOKEN_LEFT_PARENTHESES, Word ''a'', Word ''char'',
     Sign TOKEN_LEFT_PARENTHESES, Number 12, Sign TOKEN_RIGHT_PARENTHESES, Primary_key, Quoted [CHR 0x27, CHR ''x''],
     Sign TOKEN_LE_EQ, Sign TOKEN_SEMICOLON]"


section \<open>The end of the text\<close>

lemma last_char_again:
  assumes "reads lx pre [x]" "id_char x"
  shows "\<exists>tk' lx'. next_token lx tk = Inr (True, tk', lx') \<and> reads lx' pre [x]"
proof -
  have "x \<notin> set signs" using assms(2) sign_not_id by blast
  from not_sign [OF this] have x: "x \<noteq> NUL" "\<not> blank x" by simp_all
  obtain lx1 where lx1: "skip_while blank lx = (x, lx1)" "reads lx1 (pre @ [x]) []"
    using first_char [OF _ _ x, of lx pre "[]" "[]"] assms(1) by auto
  let ?start = "push_back (clear_buf lx1) x"
  have r: "reads ?start (pre @ [x]) []" using lx1(2) by simp
  have g: "get_char (clear_buf lx1) = x" using get_char_last [of "clear_buf lx1" pre x] lx1(2) by simp
  have rw: "read_while P ?start = (NUL, ?start)" for P by (simp add: read_while.simps [of P ?start] next_char_end [OF r])
  have bk: "reads (step_back ?start) pre [x]" using step_back_Cons [OF r] .
  have n: "NUL \<noteq> CHR '' ''" "NUL \<noteq> CHR ''.''" by (simp_all add: NUL_def)
  show ?thesis
  proof (cases "is_digit x")
    case True
    have "digits_val (cstr [x, NUL]) \<le> 9"
      using True x(1) by (auto simp: cstr_def digits_val_def digit_val_def is_digit_def NUL_def)
    then have v: "\<not> 2147483647 < digits_val (cstr [x, NUL])" by simp
    have "\<exists>tk' lx'. read_number lx1 tk = Inr (True, tk', lx') \<and> reads lx' pre [x]"
      using bk v by (simp add: read_number_def g rw n Let_def)
    then show ?thesis unfolding next_token_number [OF lx1(1) True] .
  next
    case False
    have l: "is_letter x \<or> x = CHR ''_''" using assms(2) False by (simp add: id_char_def)
    have "\<exists>tk' lx'. read_id lx1 tk = (True, tk', lx') \<and> reads lx' pre [x]"
      using bk by (simp add: read_id_def g rw n finish_id_def is_key_word_def split: option.split)
    then show ?thesis unfolding next_token_id [OF lx1(1) l] by auto
  qed
qed

lemma last_char_for_ever: "reads lx pre [x] \<Longrightarrow> id_char x \<Longrightarrow> tokens n lx tk = Inl OutOfFuel"
proof (induction n arbitrary: lx tk)
  case (Suc n)
  from last_char_again [OF Suc.prems, of tk] Suc.IH Suc.prems(2) show ?case by auto
qed simp

lemma last_word:
  assumes "reads lx pre (bl @ w)" "\<forall>x \<in> set bl. blank x" "w \<noteq> []" "is_letter (hd w) \<or> hd w = CHR ''_''" "list_all id_char w"
  shows "\<exists>tk' lx'. next_token lx tk = Inr (True, tk', lx') \<and> reads lx' (pre @ bl @ butlast w) [last w]"
proof -
  obtain c v where w: "w = c # v" using assms(3) by (cases w) auto
  have id: "id_char c" "\<forall>x \<in> set v. x \<noteq> NUL \<and> id_char x" using assms(5) w nul_facts(1) by (auto simp: list_all_iff)
  have "c \<notin> set signs" using id(1) sign_not_id by blast
  from not_sign [OF this] have c: "c \<noteq> NUL" "\<not> blank c" by simp_all
  obtain lx1 where lx1: "skip_while blank lx = (c, lx1)" "reads lx1 ((pre @ bl) @ [c]) (v @ [])"
    using first_char [OF _ assms(2) c, of lx pre v] assms(1) w by auto
  let ?start = "push_back (clear_buf lx1) (get_char (clear_buf lx1))"
  have r: "reads ?start ((pre @ bl) @ [c]) (v @ [])" using lx1(2) by simp
  obtain lx2 where lx2: "read_while id_char ?start = (NUL, lx2)" "reads lx2 ((pre @ bl @ butlast w) @ [last w]) []"
    using read_while_word [OF r id(2)] w append_butlast_last_id [of w] by (auto simp del: append_butlast_last_id)
  have n: "NUL \<noteq> CHR '' ''" by (simp add: NUL_def)
  have "\<exists>tk' lx'. read_id lx1 tk = (True, tk', lx') \<and> reads lx' (pre @ bl @ butlast w) [last w]"
    using step_back_Cons [OF lx2(2)] by (simp add: read_id_def lx2(1) n finish_id_def is_key_word_def split: option.split)
  then show ?thesis using next_token_id [OF lx1(1)] assms(4) w by auto
qed

lemma open_end:
  assumes "reads lx pre (bl @ print_sql ls @ w)" "\<forall>x \<in> set bl. blank x" "lexemes_ok ls tk"
    "w \<noteq> []" "is_letter (hd w) \<or> hd w = CHR ''_''" "list_all id_char w"
  shows "tokens n lx tk = Inl OutOfFuel"
  using assms(1-3)
proof (induction ls arbitrary: lx pre bl tk n)
  case Nil
  have r: "reads lx pre (bl @ w)" using Nil.prems(1) by (simp add: print_sql_def)
  have "id_char (last w)" using assms(4,6) by (simp add: list_all_iff)
  then show ?case using last_word [OF r Nil.prems(2) assms(4-6), of tk] last_char_for_ever by (cases n) auto
next
  case (Cons l ls)
  have r: "reads lx pre (bl @ print_lexeme l @ CHR '' '' # print_sql ls @ w)" using Cons.prems(1) by (simp add: print_sql_def)
  have ok: "lexeme_ok l" "\<not> number_after_decimal tk l" "lexemes_ok ls (lexeme_token l tk)" using Cons.prems(3) by simp_all
  from next_token_lexeme [OF r Cons.prems(2) ok(1,2)] obtain lx' where
    lx': "next_token lx tk = Inr (True, lexeme_token l tk, lx')"
      "reads lx' (pre @ bl @ print_lexeme l) ('' '' @ print_sql ls @ w)" by auto
  show ?case
  proof (cases n)
    case (Suc m)
    then show ?thesis using Cons.IH [OF lx'(2) _ ok(3), of m] by (simp add: lx'(1))
  qed simp
qed



text \<open>
  C20. A number right behind the keyword \<^verbatim>\<open>decimal\<close> becomes the keyword again: \<^verbatim>\<open>read_number\<close> looks at the type the
  previous token left in the variable and keeps it when it is \<^verbatim>\<open>TOKEN_DECIMAL\<close>.
\<close>

theorem number_after_decimal_keyword:
  assumes "n \<le> 2147483647"
  shows "\<exists>tk1 tk2 last_tk. tokens 3 (Lex (''decimal '' @ show_nat n @ '' '')) tk = Inr ([tk1, tk2], last_tk) \<and>
    tk_type tk1 = TOKEN_DECIMAL \<and> tk_type tk2 = TOKEN_DECIMAL \<and> tk_val tk2 = Tk_integer (int n)"
proof -
  have ok: "lexeme_ok (Word ''decimal'')" "\<not> number_after_decimal tk (Word ''decimal'')"
    by (simp_all add: lexeme_ok_def number_after_decimal_def id_char_def is_letter_def key_words_prefix_def)
  have r: "reads (Lex (''decimal '' @ show_nat n @ '' '')) [] ([] @ print_lexeme (Word ''decimal'') @ CHR '' '' # show_nat n @ '' '')"
    using reads_Lex by (simp add: print_lexeme_def)
  let ?tk = "tk\<lparr>tk_type := TOKEN_DECIMAL\<rparr>"
  have kw: "lexeme_token (Word ''decimal'') tk = ?tk" by (simp add: lexeme_token_def key_words_def)
  obtain lx1 where lx1: "next_token (Lex (''decimal '' @ show_nat n @ '' '')) tk = Inr (True, ?tk, lx1)"
      "reads lx1 ''decimal'' ('' '' @ show_nat n @ CHR '' '' # [])"
    using next_token_lexeme [OF r _ ok] kw by (auto simp: print_lexeme_def)
  have d: "\<not> is_digit (CHR '' '')" "CHR '' '' \<noteq> CHR ''.''" by (simp_all add: is_digit_def)
  obtain lx2 where lx2: "next_token lx1 ?tk = Inr (True, ?tk\<lparr>tk_val := Tk_integer (int n), tk_type := TOKEN_DECIMAL\<rparr>, lx2)"
      "reads lx2 (''decimal'' @ '' '' @ show_nat n) '' ''"
    using next_token_digits [OF lx1(2) _ assms d, of ?tk] by auto
  obtain lx3 where "next_token lx2 (?tk\<lparr>tk_val := Tk_integer (int n), tk_type := TOKEN_DECIMAL\<rparr>) =
      Inr (False, ?tk\<lparr>tk_val := Tk_integer (int n), tk_type := TOKEN_DECIMAL\<rparr>, lx3)"
    using next_token_end [OF lx2(2)] by auto
  then show ?thesis using lx1(1) lx2(1) by (simp add: eval_nat_numeral)
qed

theorem number_after_decimal_keyword_witness:
  "\<exists>tk1 tk2 last_tk. tokens 3 (Lex (''decimal '' @ show_nat 5 @ '' '')) \<lparr>tk_type = TOKEN_ID, tk_val = Tk_integer 0\<rparr> =
    Inr ([tk1, tk2], last_tk) \<and> tk_type tk2 = TOKEN_DECIMAL"
  using number_after_decimal_keyword [of 5] by fastforce

end
