(* ===== verification/Lex_Ends.thy ===== *)
theory Lex_Ends
  imports Lex_Tokens
begin

text \<open>
  The lexer makes progress: every token of a text that ends in a semicolon moves the cursor forward, so that the
  loop over the tokens ends.
\<close>

section \<open>The cursor moves forward\<close>

text \<open>The cursor never runs backwards over a whole token when the text ends in a semicolon.\<close>

definition ends_well :: "lex \<Rightarrow> bool" where
  "ends_well lx \<longleftrightarrow> - 1 \<le> lx_pos lx \<and> lx_pos lx < sql_len lx \<and> lx_sql lx ! nat (sql_len lx - 1) = CHR '';''"

definition moved :: "lex \<Rightarrow> lex \<Rightarrow> bool" where
  "moved lx lx' \<longleftrightarrow> lx_sql lx' = lx_sql lx \<and> lx_pos lx \<le> lx_pos lx' \<and> lx_pos lx' < sql_len lx"

lemma moved_trans: "moved a b \<Longrightarrow> moved b c \<Longrightarrow> moved a c"
  by (auto simp: moved_def sql_len_def)

lemma moved_buf [simp]:
  "moved lx (push_back lx' c) = moved lx lx'" "moved (push_back lx c) lx' = moved lx lx'"
  "moved lx (clear_buf lx') = moved lx lx'" "moved (clear_buf lx) lx' = moved lx lx'"
  "moved lx (pop_back lx') = moved lx lx'" "moved (pop_back lx) lx' = moved lx lx'"
  by (simp_all add: moved_def push_back_def pop_back_def clear_buf_def sql_len_def)

lemma next_char_moved:
  assumes "next_char lx = (c, lx')" "lx_pos lx < sql_len lx"
  shows "moved lx lx'" "c \<noteq> NUL \<or> lx_pos lx < sql_len lx - 1 \<Longrightarrow> lx_pos lx < lx_pos lx'"
  using assms by (auto simp: next_char_def moved_def split: if_splits)

lemma skip_while_moved:
  "skip_while P lx = (c, lx') \<Longrightarrow> lx_pos lx < sql_len lx \<Longrightarrow> moved lx lx' \<and> (c \<noteq> NUL \<longrightarrow> lx_pos lx < lx_pos lx')"
proof (induction P lx rule: skip_while.induct)
  case (1 P lx)
  obtain d lx1 where n: "next_char lx = (d, lx1)" by fastforce
  note m = next_char_moved [OF n "1.prems"(2)]
  show ?case
  proof (cases "d \<noteq> NUL \<and> P d")
    case True
    then have "skip_while P lx1 = (c, lx')" using "1.prems"(1) by (simp add: skip_while.simps [of P lx] n)
    moreover have "lx_pos lx1 < sql_len lx1" using m(1) by (simp add: moved_def sql_len_def)
    ultimately show ?thesis using "1.IH" [OF n [symmetric] refl True] m True moved_trans [OF m(1)] by fastforce
  next
    case False
    then show ?thesis using "1.prems"(1) m by (auto simp: skip_while.simps [of P lx] n)
  qed
qed

lemma read_while_moved:
  "read_while P lx = (c, lx') \<Longrightarrow> lx_pos lx < sql_len lx \<Longrightarrow>
   moved lx lx' \<and> (lx_pos lx < sql_len lx - 1 \<longrightarrow> lx_pos lx < lx_pos lx')"
proof (induction P lx rule: read_while.induct)
  case (1 P lx)
  obtain d lx1 where n: "next_char lx = (d, lx1)" by fastforce
  note m = next_char_moved [OF n "1.prems"(2)]
  show ?case
  proof (cases "d \<noteq> NUL \<and> P d")
    case True
    then have r: "read_while P (push_back lx1 d) = (c, lx')" using "1.prems"(1) by (simp add: read_while.simps [of P lx] n)
    have "lx_pos (push_back lx1 d) < sql_len (push_back lx1 d)" using m(1) by (simp add: moved_def sql_len_def push_back_def)
    from "1.IH" [OF n [symmetric] refl True r this] have "moved lx1 lx'" by simp
    then show ?thesis using m True moved_trans [OF m(1)] by (fastforce simp: moved_def)
  next
    case False
    then show ?thesis using "1.prems"(1) m by (auto simp: read_while.simps [of P lx] n)
  qed
qed

lemma read_string_moved:
  "read_string_loop c lx = (ok, lx') \<Longrightarrow> lx_pos lx < sql_len lx \<Longrightarrow> moved lx lx'"
proof (induction c lx rule: read_string_loop.induct)
  case (1 c lx)
  have base: ?case if "c = NUL \<or> c = CHR 0x22 \<or> c = CHR 0x27"
    using that "1.prems" by (auto simp: read_string_loop.simps [of c lx] moved_def push_back_def split: if_splits)
  show ?case
  proof (cases "c = NUL \<or> c = CHR 0x22 \<or> c = CHR 0x27")
    case False
    show ?thesis
    proof (cases "c = CHR 0x5C")
      case True
      obtain d lx1 where n1: "next_char lx = (d, lx1)" by fastforce
      obtain e lx2 where n2: "next_char (push_back lx1 d) = (e, lx2)" by fastforce
      have r: "read_string_loop e lx2 = (ok, lx')" using "1.prems"(1) True by (simp add: read_string_loop.simps [of "CHR 0x5C" lx] n1 n2 NUL_def)
      have m1: "moved lx lx1" using next_char_moved(1) [OF n1 "1.prems"(2)] .
      have "lx_pos (push_back lx1 d) < sql_len (push_back lx1 d)" using m1 by (simp add: moved_def sql_len_def push_back_def)
      from next_char_moved(1) [OF n2 this] have m2: "moved lx1 lx2" by simp
      have "lx_pos lx2 < sql_len lx2" using m2 by (simp add: moved_def sql_len_def)
      from "1.IH"(1) [OF _ _ True n1 [symmetric] refl n2 [symmetric] refl r this] False
      show ?thesis using moved_trans [OF moved_trans [OF m1 m2]] by blast
    next
      case nb: False
      obtain e lx2 where n2: "next_char (push_back lx c) = (e, lx2)" by fastforce
      have r: "read_string_loop e lx2 = (ok, lx')" using "1.prems"(1) False nb by (simp add: read_string_loop.simps [of c lx] n2)
      have "lx_pos (push_back lx c) < sql_len (push_back lx c)" using "1.prems"(2) by (simp add: sql_len_def push_back_def)
      from next_char_moved(1) [OF n2 this] have m2: "moved lx lx2" by simp
      have "lx_pos lx2 < sql_len lx2" using m2 by (simp add: moved_def sql_len_def)
      from "1.IH"(2) [OF _ _ nb n2 [symmetric] refl r this] False show ?thesis using moved_trans [OF m2] by blast
    qed
  qed (use base in blast)
qed

text \<open>From a character that is not the last one, reading a word, a number or a string ends at or behind it.\<close>

lemma back_kept:
  assumes "read_while P lx = (c, lx')" "lx_pos lx < sql_len lx - 1"
  shows "moved lx (push_back (step_back lx') NUL)" "moved lx (step_back lx')" "moved lx lx'" "lx_pos lx < lx_pos lx'"
  using read_while_moved [OF assms(1)] assms(2) by (auto simp: moved_def step_back_def push_back_def)

lemma start_pos [simp]:
  "lx_pos (push_back lx c) = lx_pos lx" "lx_pos (clear_buf lx) = lx_pos lx" "lx_pos (pop_back lx) = lx_pos lx"
  "lx_pos (step_back lx) = lx_pos lx - 1" "lx_sql (push_back lx c) = lx_sql lx" "lx_sql (clear_buf lx) = lx_sql lx"
  "lx_sql (pop_back lx) = lx_sql lx" "lx_sql (step_back lx) = lx_sql lx" "sql_len (push_back lx c) = sql_len lx"
  "sql_len (clear_buf lx) = sql_len lx" "sql_len (pop_back lx) = sql_len lx" "sql_len (step_back lx) = sql_len lx"
  by (simp_all add: push_back_def clear_buf_def pop_back_def step_back_def sql_len_def)

lemma finish_id_kept: "finish_id lx tk = (ok, tk', lx') \<Longrightarrow> lx_sql lx' = lx_sql lx \<and> lx_pos lx' = lx_pos lx"
  by (auto simp: finish_id_def Let_def split: prod.splits if_splits)

lemma read_id_kept:
  assumes "read_id lx tk = (ok, tk', lx')" "lx_pos lx < sql_len lx - 1"
  shows "moved lx lx'"
proof -
  let ?start = "push_back (clear_buf lx) (get_char (clear_buf lx))"
  obtain c lx1 where r: "read_while id_char ?start = (c, lx1)" by fastforce
  have m: "moved lx lx1" "lx_pos lx < lx_pos lx1" using back_kept(3,4) [OF r] assms(2) by simp_all
  have len: "sql_len lx1 = sql_len lx" using m(1) by (simp add: moved_def sql_len_def)
  show ?thesis
  proof (cases "c = CHR '' '' \<and> fst (check_special_key_word_prefix lx1)")
    case False
    then have "\<exists>b. finish_id (step_back b) tk = (ok, tk', lx') \<and> lx_sql b = lx_sql lx1 \<and> lx_pos b = lx_pos lx1"
      using assms(1) by (auto simp: read_id_def r check_special_key_word_prefix_def Let_def split: if_splits)
    then show ?thesis using finish_id_kept m by (fastforce simp: moved_def)
  next
    case True
    obtain lx2 where sp: "check_special_key_word_prefix lx1 = (True, lx2)" "lx_sql lx2 = lx_sql lx1" "lx_pos lx2 = lx_pos lx1"
      using True by (auto simp: check_special_key_word_prefix_def Let_def split: if_splits)
    have f: "is_special_key_word lx2 tk = (ok, tk', lx')" using assms(1) True by (simp add: read_id_def r sp(1))
    obtain d lx3 where s: "skip_while (\<lambda>c. c = CHR '' '') lx2 = (d, lx3)" by fastforce
    have len2: "sql_len lx2 = sql_len lx" using sp(2) len by (simp add: sql_len_def)
    have m3: "moved lx2 lx3" using skip_while_moved [OF s] m sp len2 by (simp add: moved_def)
    obtain e lx4 where w: "read_while id_char (push_back (push_back lx3 (CHR '' '')) d) = (e, lx4)" by fastforce
    have "moved lx3 lx4" using read_while_moved [OF w] m3 by (simp add: moved_def sql_len_def)
    then have "moved lx2 lx4" using moved_trans [OF m3] by blast
    moreover have "lx_sql lx' = lx_sql lx4 \<and> lx_pos lx' = lx_pos lx4 - 1"
      using f by (auto simp: is_special_key_word_def s w Let_def split: prod.splits)
    ultimately show ?thesis using sp(2,3) m by (auto simp: moved_def sql_len_def)
  qed
qed

lemma read_number_kept:
  assumes "read_number lx tk = Inr (True, tk', lx')" "lx_pos lx < sql_len lx - 1"
  shows "moved lx lx'"
proof -
  let ?start = "push_back (clear_buf lx) (get_char (clear_buf lx))"
  obtain c lx1 where r: "read_while is_digit ?start = (c, lx1)" by fastforce
  have k: "moved ?start (push_back (step_back lx1) NUL)" "moved ?start lx1" "lx_pos ?start < lx_pos lx1"
    using back_kept [OF r] assms(2) by simp_all
  show ?thesis
  proof (cases "c = CHR ''.''")
    case False
    then show ?thesis using assms(1) k(1) by (auto simp: read_number_def r Let_def moved_def split: if_splits)
  next
    case True
    then have d: "is_digit (peek_next lx1)" "read_decimal (push_back lx1 (CHR ''.'')) tk = (True, tk', lx')"
      using assms(1) by (auto simp: read_number_def r Let_def split: if_splits)
    have "peek_next lx1 \<noteq> NUL" using d(1) nul_facts(1) by (auto simp: id_char_def)
    then have lt: "lx_pos lx1 < sql_len lx1 - 1" by (auto simp: peek_next_def split: if_splits)
    obtain e lx2 where w: "read_while is_digit (push_back lx1 (CHR ''.'')) = (e, lx2)" by fastforce
    have k2: "moved (push_back lx1 (CHR ''.'')) (push_back (step_back lx2) NUL)" using back_kept(1) [OF w] lt by simp
    have "lx' = push_back (step_back lx2) NUL" using d(2) by (simp add: read_decimal_def w Let_def)
    then show ?thesis using k2 k(2,3) by (auto simp: moved_def sql_len_def)
  qed
qed

lemma read_string_kept:
  assumes "read_string lx tk = (True, tk', lx')" "lx_pos lx < sql_len lx"
  shows "moved lx lx'"
proof -
  obtain c lx1 where n: "next_char (clear_buf lx) = (c, lx1)" by fastforce
  have m1: "moved lx lx1" using next_char_moved(1) [OF n] assms(2) by simp
  obtain ok lx2 where l: "read_string_loop c lx1 = (ok, lx2)" by fastforce
  have "moved lx1 lx2" using read_string_moved [OF l] m1 by (simp add: moved_def sql_len_def)
  then have "moved lx lx2" using moved_trans [OF m1] by blast
  moreover have "lx' = lx2" using assms(1) by (auto simp: read_string_def n l Let_def split: if_splits)
  ultimately show ?thesis by (simp add: moved_def)
qed

lemma read_sign_kept:
  assumes "read_sign lx tk a b = (True, tk', lx')" "lx_pos lx < sql_len lx - 1"
  shows "moved lx lx'"
proof -
  obtain c lx1 where n: "next_char lx = (c, lx1)" by fastforce
  note m = next_char_moved [OF n]
  show ?thesis using assms m by (auto simp: read_sign_def n moved_def split: if_splits)
qed

lemma skip_while_char: "skip_while P lx = (c, lx') \<Longrightarrow> c \<noteq> NUL \<Longrightarrow> lx_sql lx' ! nat (lx_pos lx') = c"
proof (induction P lx rule: skip_while.induct)
  case (1 P lx)
  obtain d lx1 where n: "next_char lx = (d, lx1)" by fastforce
  show ?case
  proof (cases "d \<noteq> NUL \<and> P d")
    case True
    then show ?thesis using "1.IH" [OF n [symmetric] refl True] "1.prems" by (simp add: skip_while.simps [of P lx] n)
  next
    case False
    then have "c = d" "lx' = lx1" using "1.prems"(1) by (auto simp: skip_while.simps [of P lx] n split: if_splits)
    then show ?thesis using n "1.prems"(2) by (auto simp: next_char_def split: if_splits)
  qed
qed

lemma next_token_progress:
  assumes "next_token lx tk = Inr (True, tk', lx')" "ends_well lx"
  shows "ends_well lx' \<and> lx_sql lx' = lx_sql lx \<and> lx_pos lx < lx_pos lx'"
proof -
  obtain c lx1 where s: "skip_while (\<lambda>c. c = CHR '' '' \<or> c = CHR 0x0A) lx = (c, lx1)" by fastforce
  have nz: "c \<noteq> NUL" using assms(1) by (auto simp: next_token_def s)
  have m: "moved lx lx1" "lx_pos lx < lx_pos lx1"
    using skip_while_moved [OF s] assms(2) nz by (simp_all add: ends_well_def)
  have len: "sql_len lx1 = sql_len lx" "lx_pos lx1 < sql_len lx1" using m(1) by (auto simp: moved_def sql_len_def)
  have inner: "lx_pos lx1 < sql_len lx1 - 1" if "c \<noteq> CHR '';''"
  proof (rule ccontr)
    assume "\<not> ?thesis"
    then have "lx_pos lx1 = sql_len lx - 1" using len by simp
    then show False using skip_while_char [OF s nz] assms(2) m(1) that by (auto simp: ends_well_def moved_def)
  qed
  have "moved lx1 lx'"
  proof (cases "c = CHR '';''")
    case True
    then show ?thesis using assms(1) len by (simp add: next_token_def s moved_def NUL_def)
  next
    case False
    have "read_string lx1 tk = (True, tk', lx') \<or> read_id lx1 tk = (True, tk', lx') \<or> lx' = lx1
       \<or> read_number lx1 tk = Inr (True, tk', lx') \<or> (\<exists>a b. read_sign lx1 tk a b = (True, tk', lx'))"
      using assms(1) nz False unfolding next_token_def s Let_def prod.case by (simp only: if_False split: if_splits) auto
    then show ?thesis
      using read_string_kept [OF _ len(2)] read_id_kept [OF _ inner [OF False]] read_number_kept [OF _ inner [OF False]]
        read_sign_kept [OF _ inner [OF False]] len by (auto simp: moved_def)
  qed
  then have "moved lx lx'" "lx_pos lx1 \<le> lx_pos lx'" using moved_trans [OF m(1)] by (auto simp: moved_def)
  then show ?thesis using assms(2) m(2) by (auto simp: ends_well_def moved_def sql_len_def)
qed

lemma tokens_end: "ends_well lx \<Longrightarrow> sql_len lx - lx_pos lx \<le> int n \<Longrightarrow> tokens n lx tk \<noteq> Inl OutOfFuel"
proof (induction n lx tk rule: tokens.induct)
  case (1 lx tk)
  then show ?case by (simp add: ends_well_def)
next
  case (2 n lx tk)
  show ?case
  proof (cases "next_token lx tk")
    case (Inl e)
    then show ?thesis by (auto simp: next_token_def read_number_def Let_def split: prod.splits if_splits)
  next
    case (Inr a)
    obtain ok tk' lx' where a: "a = (ok, tk', lx')" by (cases a)
    show ?thesis
    proof (cases ok)
      case True
      have p: "ends_well lx'" "lx_sql lx' = lx_sql lx" "lx_pos lx < lx_pos lx'"
        using next_token_progress [of lx tk tk' lx'] "2.prems"(1) Inr a True by simp_all
      then have "tokens n lx' tk' \<noteq> Inl OutOfFuel" using "2.IH" [OF True] "2.prems"(2) by (simp add: sql_len_def)
      then show ?thesis using Inr a True by (cases "tokens n lx' tk'") auto
    next
      case False
      then show ?thesis using Inr a by simp
    qed
  qed
qed

text \<open>
  C18. The loop that hands the tokens of a statement to the parser ends: a text whose last character is the
  semicolon gives at most one token for each of its characters, so that it never runs longer than that.
\<close>

theorem lexer_ends:
  assumes "sql \<noteq> []" "last sql = CHR '';''" "length sql < n"
  shows "tokens n (Lex sql) tk \<noteq> Inl OutOfFuel"
  using assms by (intro tokens_end) (auto simp: ends_well_def Lex_def sql_len_def last_conv_nth nat_diff_distrib')

theorem lexer_ends_witness:
  "last ''drop table t;'' = CHR '';'' \<and>
   tokens 14 (Lex ''drop table t;'') \<lparr>tk_type = TOKEN_ID, tk_val = Tk_integer 0\<rparr> \<noteq> Inl OutOfFuel"
  using lexer_ends [of "''drop table t;''" 14] by simp

end
