(* ===== verification/Spec2Isabelle.thy ===== *)
theory Spec2Isabelle
  imports Link_Hash_Map Query_Plans Server_Runs Lex_Ends
begin

text \<open>
  Dawn, a small relational database in C++ (\<^verbatim>\<open>src/src\<close>): a verification library.

  \<^bold>\<open>The program.\<close>  A server accepts connections and hands the bytes of each client to a task; the task cuts them
  into SQL statements, the lexer and a generated parser turn a statement into a tree, and \<^verbatim>\<open>sql_execute\<close> runs it
  against the catalog.  The catalog maps table names to tables; a table is a link hash index over slotted table
  pages; the pages live in a buffer pool in front of a disk manager that keeps them in one file.  Queries are trees of
  executors that pull tuples from a table iterator.

  \<^bold>\<open>How it is modelled.\<close>  A function of the code is a HOL function of the same name on an explicit state, a record
  with the members of the class.  Fallible code returns \<open>crash + 'a\<close>: every assertion, null dereference, undefined
  access, wait that nobody ends and \<^verbatim>\<open>exit\<close> of the code is a left value.  Page memory is a function from addresses to
  bytes, 32-bit integers are read and written with their wrap-around, hash values are machine words, doubles are
  IEEE bit patterns with their rounding.  Uninitialised memory and the order in which an unordered map is walked are
  arguments, so the theorems hold for all of them.  A loop along a list of pages, which may be a cycle on the disk, has
  fuel, and so has the loop over the tokens; where a property says that such a loop ends it gives the fuel that
  suffices.  Threads are step relations; their critical sections are the steps.

  \<^bold>\<open>The theories.\<close>
  \<^item> \<open>Dawn_Prelude\<close>: results, byte memories and their laws, the constants of \<^verbatim>\<open>util/config.h\<close>.
  \<^item> \<open>Murmur3\<close>, \<open>Binary64\<close>, \<open>Values\<close>: the hash of \<^verbatim>\<open>third_party/murmur3\<close>, doubles, and the values and types of
    \<^verbatim>\<open>data\<close>.
  \<^item> \<open>Schema_Tuple\<close>: \<^verbatim>\<open>Column\<close>, \<^verbatim>\<open>Schema\<close>, \<^verbatim>\<open>RID\<close> and \<^verbatim>\<open>Tuple\<close>; a tuple returns the values it was built from.
  \<^item> \<open>RW_Latch\<close>, \<open>Page\<close>, \<open>Table_Page\<close>: the latch, the page object, and the slotted page.  The table page refines a list
    of slots under every sequence of its operations; its capacity, its scan and three defects are characterised.
  \<^item> \<open>File_Stream\<close>, \<open>Disk_Manager\<close>, \<open>Disk_Pages\<close>: files with sticky stream errors, the disk manager with its meta data
    file, and its contract, the locale \<open>page_disk\<close>; the pages survive a restart.
  \<^item> \<open>Clock_Replacer\<close>: the replacer and its contract, the locale \<open>replacer\<close>.
  \<^item> \<open>Buffer_Pool\<close>, \<open>Buffer_Pool_Inv\<close>, \<open>Page_Store\<close>: the pool, its invariant, and its contract, the locale
    \<open>page_store\<close>: a pool of any size behaves as a store of pages.
  \<^item> \<open>Link_Hash_Page\<close>, \<open>Link_Hash\<close>, \<open>Table\<close>: the index with its latches and pins, tables and both iterators.
  \<^item> \<open>Pool_Access\<close>, \<open>Index_Pages\<close>, \<open>Index_Tree\<close>, \<open>Link_Hash_Map\<close>: the pages an operation holds pinned, directory and bucket
    pages by their contents, the tree of pages below the first page with the descent and the insertion, and the
    contract of a table, the locale \<open>keyed_table\<close>: a new table answers insertions and lookups as a map from keys to
    rows does, while the keys of a bucket fit into one page.
  \<^item> \<open>Table_Meta_Data\<close>, \<open>Catalog_Table\<close>, \<open>DB_Manager\<close>: the catalog on its pages and opening and closing a database.
  \<^item> \<open>Lex\<close>, \<open>Lex_Tokens\<close>, \<open>Lex_Ends\<close>: the lexer; printed lexemes read back as their tokens, a text that ends in a
    semicolon is lexed within as many rounds as it has characters, and a text that ends in a word never is.
  \<^item> \<open>Expressions\<close>, \<open>Executors\<close>, \<open>Query_Plans\<close>: typed expressions never fail, a selection is a filter, a projection a
    map, an aggregation the count, sum, minimum and maximum over any child.
  \<^item> \<open>Ast\<close>, \<open>Sql_Execute\<close>: the syntax tree and the execution of statements.
  \<^item> \<open>Server\<close>, \<open>Work_Pool_Runs\<close>, \<open>Server_Runs\<close>: the task of a client, the pool of workers and the server under every
    interleaving: no task is lost, the queue drains, statements are cut out of the stream as long as no chunk holds
    two ends, and the races between workers, collector and shutdown.

  \<^bold>\<open>Bounds.\<close>  \<open>PAGE_LIMIT\<close> is 524288, the first page whose address overflows the \<^verbatim>\<open>int\<close> in which the code computes it.
  The scan of the replacer takes at most two rounds of its frames; evicting takes at most as many rounds as there are
  frames.

  \<^bold>\<open>Not modelled.\<close>  The parser is generated from \<^verbatim>\<open>parse.y\<close> by the vendored generator \<^verbatim>\<open>lemon.c\<close> when the program is built;
  it is the argument \<open>parse\<close> of \<open>sql_execute\<close>.  The calls that set up sockets and \<^verbatim>\<open>epoll\<close> are left out; what they
  deliver is input.  The printing functions of values, tuples and schemas and the logging macros have no effect on the
  state.  The unused declarations of \<^verbatim>\<open>index/bp_tree.h\<close> are comments.  \<^verbatim>\<open>db.cpp\<close> has an empty \<^verbatim>\<open>main\<close>.
\<close>

end
